(* ===== verification/Prelude.thy ===== *)
theory Prelude imports Main "HOL-Library.AList" "HOL-Library.Monad_Syntax" "HOL-Library.Char_ord" "HOL-Library.List_Lexorder" "HOL-Library.Product_Lexorder" begin

text \<open>
  Shared types, containers and lemmas.  Bytes are characters (a \<^typ>\<open>char\<close> is one of the
  256 byte values), so \<open>Vec<u8>\<close>, \<open>Bytes\<close>, \<open>&str\<close> and \<open>String\<close> are all \<^typ>\<open>string\<close>; a Rust
  \<open>String\<close> is in addition valid UTF-8, which the theory \<open>Text\<close> defines.

  Rust's checked accesses are functions into \<^typ>\<open>'a option\<close>: \<^theory_text>\<open>None\<close> is the panic of an index
  out of range, of a capacity overflow, or (where a loop is a partial function) a loop that
  does not end.  \<open>i64\<close> is \<^typ>\<open>int\<close> with the range and the wrap-around written out, \<open>usize\<close> is
  \<^typ>\<open>nat\<close> with the casts written out.

  A \<open>HashMap\<close> is an association list with distinct keys and a \<open>HashSet\<close> a distinct list.  The
  order of the list stands for the unspecified iteration order of the Rust container; no
  property of the development says anything about that order.
\<close>

subsection \<open>Machine integers\<close>

definition i64_min :: int where "i64_min = - 9223372036854775808"
definition i64_max :: int where "i64_max = 9223372036854775807"
definition usize_max :: nat where "usize_max = 18446744073709551615"
definition isize_max :: nat where "isize_max = 9223372036854775807"

definition in_i64 :: "int \<Rightarrow> bool" where
  "in_i64 n \<longleftrightarrow> i64_min \<le> n \<and> n \<le> i64_max"

text \<open>Two's complement wrap-around, the meaning of \<open>as i64\<close> and of unchecked release arithmetic.\<close>

definition wrap_i64 :: "int \<Rightarrow> int" where
  "wrap_i64 n = (n + 9223372036854775808) mod 18446744073709551616 - 9223372036854775808"

text \<open>\<open>n as u64\<close> and \<open>n as usize\<close> of an \<open>i64\<close>.\<close>

definition as_usize :: "int \<Rightarrow> nat" where
  "as_usize n = nat (n mod 18446744073709551616)"

definition checked_add_i64 :: "int \<Rightarrow> int \<Rightarrow> int option" where
  "checked_add_i64 a b = (if in_i64 (a + b) then Some (a + b) else None)"

lemma in_i64_wrap: "in_i64 (wrap_i64 n)"
  using pos_mod_bound [of 18446744073709551616 "n + 9223372036854775808"]
    pos_mod_sign [of 18446744073709551616 "n + 9223372036854775808"]
  unfolding in_i64_def wrap_i64_def i64_min_def i64_max_def by linarith

lemma wrap_i64_id: "in_i64 n \<Longrightarrow> wrap_i64 n = n"
  unfolding in_i64_def wrap_i64_def i64_min_def i64_max_def by simp

lemma as_usize_id: "0 \<le> n \<Longrightarrow> in_i64 n \<Longrightarrow> as_usize n = nat n"
  unfolding in_i64_def as_usize_def i64_min_def i64_max_def by simp

lemma checked_add_i64_Some:
  "checked_add_i64 a b = Some c \<longleftrightarrow> in_i64 (a + b) \<and> c = a + b"
  by (auto simp: checked_add_i64_def)

subsection \<open>Vectors: checked access\<close>

definition idx :: "'a list \<Rightarrow> nat \<Rightarrow> 'a option" where
  "idx xs i = (if i < length xs then Some (xs ! i) else None)"

definition set_idx :: "'a list \<Rightarrow> nat \<Rightarrow> 'a \<Rightarrow> 'a list option" where
  "set_idx xs i v = (if i < length xs then Some (xs[i := v]) else None)"

text \<open>
  A vector of elements of \<open>sz\<close> bytes holds at most \<open>isize::MAX / sz\<close> elements; beyond that
  \<open>push\<close>, \<open>resize\<close> and \<open>with_capacity\<close> panic with a capacity overflow.
\<close>

definition capacity_ok :: "nat \<Rightarrow> nat \<Rightarrow> bool" where
  "capacity_ok sz n \<longleftrightarrow> n * sz \<le> isize_max"

definition vec_push :: "nat \<Rightarrow> 'a list \<Rightarrow> 'a \<Rightarrow> 'a list option" where
  "vec_push sz xs x = (if capacity_ok sz (Suc (length xs)) then Some (xs @ [x]) else None)"

lemma idx_Some_iff: "idx xs i = Some x \<longleftrightarrow> i < length xs \<and> x = xs ! i"
  by (auto simp: idx_def)

lemma idx_lt [simp]: "i < length xs \<Longrightarrow> idx xs i = Some (xs ! i)"
  by (simp add: idx_def)

lemma set_idx_lt [simp]: "i < length xs \<Longrightarrow> set_idx xs i v = Some (xs[i := v])"
  by (simp add: set_idx_def)

subsection \<open>Lists\<close>

lemma take_Suc_idx: "i < length xs \<Longrightarrow> take (Suc i) xs = take i xs @ [xs ! i]"
  by (simp add: take_Suc_conv_app_nth)

lemma filter_disjoint_Nil: "(\<And>x. x \<in> set xs \<Longrightarrow> \<not> P x) \<Longrightarrow> filter P xs = []"
  by (simp add: filter_empty_conv)

lemma last_Cons_filter_in: "last (x # filter P xs) \<in> insert x (set xs)"
  using last_in_set [of "x # filter P xs"] by auto

subsection \<open>Hash maps\<close>

type_synonym ('k, 'v) hash_map = "('k \<times> 'v) list"

definition hm_get :: "('k, 'v) hash_map \<Rightarrow> 'k \<Rightarrow> 'v option" where
  "hm_get m k = map_of m k"

definition hm_insert :: "'k \<Rightarrow> 'v \<Rightarrow> ('k, 'v) hash_map \<Rightarrow> ('k, 'v) hash_map" where
  "hm_insert k v m = AList.update k v m"

definition hm_remove :: "'k \<Rightarrow> ('k, 'v) hash_map \<Rightarrow> ('k, 'v) hash_map" where
  "hm_remove k m = filter (\<lambda>(k', _). k' \<noteq> k) m"

definition hm_contains :: "('k, 'v) hash_map \<Rightarrow> 'k \<Rightarrow> bool" where
  "hm_contains m k \<longleftrightarrow> hm_get m k \<noteq> None"

definition hm_keys :: "('k, 'v) hash_map \<Rightarrow> 'k list" where
  "hm_keys m = map fst m"

definition hm_wf :: "('k, 'v) hash_map \<Rightarrow> bool" where
  "hm_wf m \<longleftrightarrow> distinct (map fst m)"

lemma hm_get_Nil [simp]: "hm_get [] k = None"
  by (simp add: hm_get_def)

lemma hm_get_insert: "hm_get (hm_insert k v m) k' = (if k' = k then Some v else hm_get m k')"
  by (simp add: hm_get_def hm_insert_def update_conv)

lemma hm_get_remove: "hm_get (hm_remove k m) k' = (if k' = k then None else hm_get m k')"
  by (induction m) (auto simp: hm_get_def hm_remove_def)

lemma hm_wf_Nil [simp]: "hm_wf []"
  by (simp add: hm_wf_def)

lemma hm_wf_insert [simp]: "hm_wf m \<Longrightarrow> hm_wf (hm_insert k v m)"
  by (simp add: hm_wf_def hm_insert_def distinct_update)

lemma hm_wf_remove [simp]: "hm_wf m \<Longrightarrow> hm_wf (hm_remove k m)"
  unfolding hm_wf_def hm_remove_def by (rule distinct_map_filter)

lemma hm_get_in_set: "hm_wf m \<Longrightarrow> hm_get m k = Some v \<longleftrightarrow> (k, v) \<in> set m"
  by (simp add: hm_get_def hm_wf_def)

lemma hm_get_SomeD: "hm_get m k = Some v \<Longrightarrow> (k, v) \<in> set m"
  unfolding hm_get_def by (rule map_of_SomeD)

lemma hm_keys_set: "set (hm_keys m) = {k. hm_get m k \<noteq> None}"
  by (auto simp: hm_keys_def hm_get_def map_of_eq_None_iff)

lemma hm_dom: "dom (hm_get m) = set (hm_keys m)"
  by (auto simp: hm_keys_set)

lemma hm_contains_iff: "hm_contains m k \<longleftrightarrow> k \<in> dom (hm_get m)"
  by (auto simp: hm_contains_def)

lemma hm_Nil_iff: "m = [] \<longleftrightarrow> dom (hm_get m) = {}"
  by (simp add: hm_dom hm_keys_def)

lemma hm_length_card: "hm_wf m \<Longrightarrow> length m = card (dom (hm_get m))"
  unfolding hm_dom hm_keys_def hm_wf_def using distinct_card [of "map fst m"] by simp

lemma hm_length_insert:
  "hm_wf m \<Longrightarrow> length (hm_insert k v m) = (if hm_contains m k then length m else Suc (length m))"
proof -
  assume wf: "hm_wf m"
  have "dom (hm_get (hm_insert k v m)) = insert k (dom (hm_get m))"
    by (auto simp: hm_get_insert split: if_splits)
  then show ?thesis
    using wf hm_length_card [OF wf] hm_length_card [OF hm_wf_insert [OF wf, of k v]]
    by (simp add: hm_contains_iff insert_absorb hm_dom)
qed

subsection \<open>Hash sets\<close>

definition hs_insert :: "'a \<Rightarrow> 'a list \<Rightarrow> 'a list" where
  "hs_insert x s = (if x \<in> set s then s else s @ [x])"

definition hs_remove :: "'a \<Rightarrow> 'a list \<Rightarrow> 'a list" where
  "hs_remove x s = filter (\<lambda>y. y \<noteq> x) s"

fun hs_extend :: "'a list \<Rightarrow> 'a list \<Rightarrow> 'a list" where
  "hs_extend s [] = s"
| "hs_extend s (x # xs) = hs_extend (hs_insert x s) xs"

lemma set_hs_insert [simp]: "set (hs_insert x s) = insert x (set s)"
  by (auto simp: hs_insert_def)

lemma distinct_hs_insert [simp]: "distinct s \<Longrightarrow> distinct (hs_insert x s)"
  by (simp add: hs_insert_def)

lemma set_hs_remove [simp]: "set (hs_remove x s) = set s - {x}"
  by (auto simp: hs_remove_def)

lemma distinct_hs_remove [simp]: "distinct s \<Longrightarrow> distinct (hs_remove x s)"
  by (simp add: hs_remove_def)

lemma set_hs_extend [simp]: "set (hs_extend s xs) = set s \<union> set xs"
  by (induction xs arbitrary: s) auto

lemma distinct_hs_extend [simp]: "distinct s \<Longrightarrow> distinct (hs_extend s xs)"
  by (induction xs arbitrary: s) auto

end
