(* ===== verification/Float64.thy ===== *)
theory Float64 imports Prelude Complex_Main begin

text \<open>
  The \<open>f64\<close> values of the program.  A finite value is the rational number it denotes; the two
  zeros are one value, because nothing in the program tells them apart (\<open>==\<close>, the ordering of
  \<open>OrderedFloat\<close> and the printed form all identify them).  The IEEE comparisons are the
  functions \<open>f_eq\<close>, \<open>f_lt\<close>, \<open>f_le\<close>, false on NaN; the type's linear order is the total order
  of \<open>OrderedFloat\<close>, in which NaN equals itself and is above everything.  Addition is the exact
  sum rounded to nearest, ties to even, with 53 bits of precision and exponent down to -1074.
\<close>

datatype f64 = NegInf | Fin rat | PosInf | NaN

subsection \<open>The total order of OrderedFloat\<close>

instantiation f64 :: linorder
begin

fun less_eq_f64 :: "f64 \<Rightarrow> f64 \<Rightarrow> bool" where
  "less_eq_f64 NegInf b = True"
| "less_eq_f64 (Fin x) (Fin y) = (x \<le> y)"
| "less_eq_f64 (Fin x) NegInf = False"
| "less_eq_f64 (Fin x) PosInf = True"
| "less_eq_f64 (Fin x) NaN = True"
| "less_eq_f64 PosInf b = (b = PosInf \<or> b = NaN)"
| "less_eq_f64 NaN b = (b = NaN)"

definition less_f64 :: "f64 \<Rightarrow> f64 \<Rightarrow> bool" where
  "less_f64 a b \<longleftrightarrow> a \<le> b \<and> \<not> b \<le> (a :: f64)"

instance
proof
  fix x y z :: f64
  show "x < y \<longleftrightarrow> x \<le> y \<and> \<not> y \<le> x" by (rule less_f64_def)
  show "x \<le> x" by (cases x) auto
  show "x \<le> y \<Longrightarrow> y \<le> z \<Longrightarrow> x \<le> z" by (cases x; cases y; cases z) auto
  show "x \<le> y \<Longrightarrow> y \<le> x \<Longrightarrow> x = y" by (cases x; cases y) auto
  show "x \<le> y \<or> y \<le> x" by (cases x; cases y) auto
qed

end

lemma less_f64_simps [simp]:
  "Fin x < Fin y \<longleftrightarrow> x < y" "NegInf < Fin y" "NegInf < PosInf" "NegInf < NaN"
  "Fin x < PosInf" "Fin x < NaN" "PosInf < NaN" "\<not> NaN < b" "\<not> a < NegInf"
  "\<not> PosInf < Fin y" "\<not> PosInf < PosInf"
  by (auto simp: less_f64_def elim: less_eq_f64.elims)

subsection \<open>IEEE comparisons\<close>

definition is_nan :: "f64 \<Rightarrow> bool" where
  "is_nan a \<longleftrightarrow> a = NaN"

definition is_infinite :: "f64 \<Rightarrow> bool" where
  "is_infinite a \<longleftrightarrow> a = NegInf \<or> a = PosInf"

definition f_eq :: "f64 \<Rightarrow> f64 \<Rightarrow> bool" where
  "f_eq a b \<longleftrightarrow> \<not> is_nan a \<and> \<not> is_nan b \<and> a = b"

definition f_lt :: "f64 \<Rightarrow> f64 \<Rightarrow> bool" where
  "f_lt a b \<longleftrightarrow> \<not> is_nan a \<and> \<not> is_nan b \<and> a < b"

definition f_le :: "f64 \<Rightarrow> f64 \<Rightarrow> bool" where
  "f_le a b \<longleftrightarrow> \<not> is_nan a \<and> \<not> is_nan b \<and> a \<le> b"

lemma f_cmp_not_nan:
  assumes "\<not> is_nan a" "\<not> is_nan b"
  shows "f_eq a b \<longleftrightarrow> a = b" "f_lt a b \<longleftrightarrow> a < b" "f_le a b \<longleftrightarrow> a \<le> b"
  using assms by (auto simp: f_eq_def f_lt_def f_le_def)

lemma f_cmp_nan [simp]:
  "\<not> f_eq NaN b" "\<not> f_eq a NaN" "\<not> f_lt NaN b" "\<not> f_lt a NaN" "\<not> f_le NaN b" "\<not> f_le a NaN"
  by (auto simp: f_eq_def f_lt_def f_le_def is_nan_def)

subsection \<open>Rounding and addition\<close>

text \<open>Rounding a rational to an integer, ties to even.\<close>

definition round_half_even :: "rat \<Rightarrow> int" where
  "round_half_even x =
     (let n = \<lfloor>x\<rfloor>; d = x - of_int n
      in if d < 1/2 then n else if d > 1/2 then n + 1 else if even n then n else n + 1)"

definition pow2 :: "int \<Rightarrow> rat" where
  "pow2 e = (if 0 \<le> e then 2 ^ nat e else 1 / 2 ^ nat (- e))"

text \<open>
  The exponent of the unit in the last place of the rational \<open>a / b\<close>: the bit lengths give
  \<open>2 ^ (k - 1) < a / b < 2 ^ (k + 1)\<close> for \<open>k = bitlen a - bitlen b\<close>, and the comparison with
  \<open>2 ^ k\<close> decides.  Subnormal numbers share the exponent -1074.
\<close>

function bit_len :: "int \<Rightarrow> int" where
  "bit_len n = (if n \<le> 0 then 0 else 1 + bit_len (n div 2))"
  by pat_completeness auto
termination
  by (relation "measure nat") auto

declare bit_len.simps [simp del]

definition ulp_exp :: "rat \<Rightarrow> int" where
  "ulp_exp x =
     (let (a, b) = quotient_of \<bar>x\<bar>;
          k = bit_len a - bit_len b;
          e = (if pow2 k \<le> \<bar>x\<bar> then k else k - 1)
      in max (e - 52) (- 1074))"

text \<open>
  The largest finite value has a 53-bit significand and unit exponent 971; a result with a
  larger exponent, or whose significand rounds up to \<open>2 ^ 53\<close> at that exponent, is infinite.
\<close>

definition round_f64 :: "rat \<Rightarrow> f64" where
  "round_f64 x =
     (if x = 0 then Fin 0
      else let e = ulp_exp x; k = round_half_even (x / pow2 e)
           in if e > 971 \<or> e = 971 \<and> \<bar>k\<bar> \<ge> 9007199254740992
              then (if 0 < x then PosInf else NegInf)
              else Fin (of_int k * pow2 e))"

fun f_add :: "f64 \<Rightarrow> f64 \<Rightarrow> f64" where
  "f_add NaN b = NaN"
| "f_add a NaN = NaN"
| "f_add (Fin x) (Fin y) = round_f64 (x + y)"
| "f_add (Fin x) b = b"
| "f_add a (Fin y) = a"
| "f_add PosInf PosInf = PosInf"
| "f_add NegInf NegInf = NegInf"
| "f_add PosInf NegInf = NaN"
| "f_add NegInf PosInf = NaN"

lemma f_add_nan_iff:
  "is_nan (f_add a b) \<longleftrightarrow> is_nan a \<or> is_nan b \<or> (a = PosInf \<and> b = NegInf) \<or> (a = NegInf \<and> b = PosInf)"
  by (cases a; cases b) (auto simp: is_nan_def round_f64_def Let_def)

end
