(* ===== verification/SkipList.thy ===== *)
theory SkipList imports Float64 "HOL-Library.Code_Target_Nat" begin

text \<open>
  The skip list of \<open>src/db/skiplist.rs\<close>: an arena of nodes addressed by index, node 0 the head
  with 32 forward pointers, each other node with as many forward pointers as its level.  Every
  access of the source is checked here (\<open>idx\<close>, \<open>set_idx\<close>), so \<^theory_text>\<open>None\<close> is a panic or a search
  that does not end.  On a well-formed list, and every list the server reaches is one, no search is
  endless and no access out of range (\<open>searches_end\<close>), and \<^theory_text>\<open>None\<close> is the panic of a full arena
  (\<open>sl_insert_panics\<close>).  The abstract value of a skip list is a finite set of keys
  \<open>(score, member)\<close> in the order of \<open>OrderedFloat\<close> and byte-wise string comparison; the relation
  \<open>sl_rep\<close> ties the two, and the operations are shown to implement insertion, deletion, rank
  and sorted traversal of that set.
\<close>

definition MAX_LEVEL :: nat where "MAX_LEVEL = 32"
definition NIL :: nat where "NIL = usize_max"

record node =
  member :: string
  score :: f64
  forward :: "nat list"

record skiplist =
  nodes :: "node list"
  level :: nat
  sl_length :: nat

text \<open>\<open>size_of::<Node>()\<close>: a \<open>String\<close> and a \<open>Vec\<close> of three words each, and an \<open>f64\<close>.\<close>

definition node_size :: nat where "node_size = 56"

definition sl_new :: skiplist where
  "sl_new = \<lparr>nodes = [\<lparr>member = [], score = Fin 0, forward = replicate MAX_LEVEL NIL\<rparr>],
     level = 1, sl_length = 0\<rparr>"

definition sl_len :: "skiplist \<Rightarrow> nat" where
  "sl_len sl = sl_length sl"

definition sl_is_empty :: "skiplist \<Rightarrow> bool" where
  "sl_is_empty sl \<longleftrightarrow> sl_length sl = 0"

datatype ordering = Less | Equal | Greater

definition ord_cmp :: "'a::linorder \<Rightarrow> 'a \<Rightarrow> ordering" where
  "ord_cmp x y = (if x < y then Less else if x = y then Equal else Greater)"

fun then_with :: "ordering \<Rightarrow> ordering \<Rightarrow> ordering" where
  "then_with Equal o2 = o2"
| "then_with o1 o2 = o1"

definition key_cmp :: "f64 \<Rightarrow> string \<Rightarrow> f64 \<Rightarrow> string \<Rightarrow> ordering" where
  "key_cmp s1 m1 s2 m2 = then_with (ord_cmp s1 s2) (ord_cmp m1 m2)"

text \<open>
  \<open>random_level\<close>: the random number generator is a parameter, the outcomes of the successive
  tests \<open>rng.random() < P\<close>; a list that runs out stands for a failed test.
\<close>

fun random_level_from :: "nat \<Rightarrow> bool list \<Rightarrow> nat" where
  "random_level_from lvl [] = lvl"
| "random_level_from lvl (c # cs) =
     (if lvl < MAX_LEVEL \<and> c then random_level_from (Suc lvl) cs else lvl)"

definition random_level :: "bool list \<Rightarrow> nat" where
  "random_level coins = random_level_from 1 coins"

subsection \<open>Search\<close>

text \<open>The inner loop of \<open>insert\<close> and \<open>remove\<close>: advance along level \<open>i\<close> while the next key is smaller.\<close>

partial_function (option) walk ::
  "node list \<Rightarrow> nat \<Rightarrow> f64 \<Rightarrow> string \<Rightarrow> nat \<Rightarrow> nat option" where
  "walk ns i s m x =
     do { nx \<leftarrow> idx ns x;
          fwd \<leftarrow> idx (forward nx) i;
          if fwd = NIL then Some x
          else do { n \<leftarrow> idx ns fwd;
                    if key_cmp (score n) (member n) s m = Less then walk ns i s m fwd
                    else Some x } }"

text \<open>The outer loop, from level \<open>i - 1\<close> down to 0, recording the predecessor of each level.\<close>

fun find_update ::
  "node list \<Rightarrow> f64 \<Rightarrow> string \<Rightarrow> nat \<Rightarrow> nat \<Rightarrow> nat list \<Rightarrow> (nat \<times> nat list) option" where
  "find_update ns s m 0 x u = Some (x, u)"
| "find_update ns s m (Suc i) x u =
     do { x' \<leftarrow> walk ns i s m x;
          u' \<leftarrow> set_idx u i x';
          find_update ns s m i x' u' }"

subsection \<open>Insertion\<close>

text \<open>\<open>update[level..lvl].fill(0)\<close>; the slice panics when \<open>lvl\<close> is past the array.\<close>

definition fill_heads :: "nat list \<Rightarrow> nat \<Rightarrow> nat \<Rightarrow> nat list option" where
  "fill_heads u lo hi =
     (if lo \<le> hi \<and> hi \<le> length u
      then Some (take lo u @ replicate (hi - lo) 0 @ drop hi u) else None)"

fun link :: "nat \<Rightarrow> nat list \<Rightarrow> nat \<Rightarrow> node list \<Rightarrow> node list option" where
  "link i [] new ns = Some ns"
| "link i (pred # preds) new ns =
     do { np \<leftarrow> idx ns pred;
          f \<leftarrow> idx (forward np) i;
          nn \<leftarrow> idx ns new;
          fw \<leftarrow> set_idx (forward nn) i f;
          let ns1 = ns[new := nn\<lparr>forward := fw\<rparr>];
          np1 \<leftarrow> idx ns1 pred;
          fw1 \<leftarrow> set_idx (forward np1) i new;
          link (Suc i) preds new (ns1[pred := np1\<lparr>forward := fw1\<rparr>]) }"

definition sl_insert :: "bool list \<Rightarrow> f64 \<Rightarrow> string \<Rightarrow> skiplist \<Rightarrow> skiplist option" where
  "sl_insert coins s m sl =
     do { (x, u) \<leftarrow> find_update (nodes sl) s m (level sl) 0 (replicate MAX_LEVEL NIL);
          nx \<leftarrow> idx (nodes sl) x;
          next0 \<leftarrow> idx (forward nx) 0;
          dup \<leftarrow> (if next0 \<noteq> NIL
                 then do { n \<leftarrow> idx (nodes sl) next0; Some (f_eq (score n) s \<and> member n = m) }
                 else Some False);
          if dup then Some sl
          else do {
            let lvl = random_level coins;
            u' \<leftarrow> (if lvl > level sl then fill_heads u (level sl) lvl else Some u);
            let lev = (if lvl > level sl then lvl else level sl);
            let new = length (nodes sl);
            ns \<leftarrow> vec_push node_size (nodes sl)
                   \<lparr>member = m, score = s, forward = replicate lvl NIL\<rparr>;
            ns' \<leftarrow> link 0 (take lvl u') new ns;
            Some (sl\<lparr>nodes := ns', level := lev, sl_length := sl_length sl + 1\<rparr>) } }"

subsection \<open>Removal\<close>

fun unlink :: "nat \<Rightarrow> nat list \<Rightarrow> nat \<Rightarrow> node list \<Rightarrow> node list option" where
  "unlink i [] target ns = Some ns"
| "unlink i (pred # preds) target ns =
     do { np \<leftarrow> idx ns pred;
          f \<leftarrow> idx (forward np) i;
          if f \<noteq> target then Some ns
          else do {
            nt \<leftarrow> idx ns target;
            g \<leftarrow> idx (forward nt) i;
            fw \<leftarrow> set_idx (forward np) i g;
            unlink (Suc i) preds target (ns[pred := np\<lparr>forward := fw\<rparr>]) } }"

text \<open>\<open>while self.level > 1 && self.nodes[0].forward[self.level - 1] == NIL\<close>.\<close>

fun lower_level :: "node list \<Rightarrow> nat \<Rightarrow> nat option" where
  "lower_level ns 0 = Some 0"
| "lower_level ns (Suc l) =
     (if Suc l > 1 then
        do { h \<leftarrow> idx ns 0;
             f \<leftarrow> idx (forward h) l;
             if f = NIL then lower_level ns l else Some (Suc l) }
      else Some (Suc l))"

definition sl_remove :: "f64 \<Rightarrow> string \<Rightarrow> skiplist \<Rightarrow> (bool \<times> skiplist) option" where
  "sl_remove s m sl =
     do { (x, u) \<leftarrow> find_update (nodes sl) s m (level sl) 0 (replicate MAX_LEVEL NIL);
          nx \<leftarrow> idx (nodes sl) x;
          target \<leftarrow> idx (forward nx) 0;
          if target = NIL then Some (False, sl)
          else do {
            n \<leftarrow> idx (nodes sl) target;
            if \<not> f_eq (score n) s \<or> member n \<noteq> m then Some (False, sl)
            else do {
              ns \<leftarrow> unlink 0 (take (level sl) u) target (nodes sl);
              lev \<leftarrow> lower_level ns (level sl);
              Some (True, sl\<lparr>nodes := ns, level := lev, sl_length := sl_length sl - 1\<rparr>) } } }"

subsection \<open>Rank and traversal\<close>

partial_function (option) rank_from ::
  "node list \<Rightarrow> f64 \<Rightarrow> string \<Rightarrow> nat \<Rightarrow> nat \<Rightarrow> nat option option" where
  "rank_from ns s m rank i =
     (if i = NIL then Some None
      else do { n \<leftarrow> idx ns i;
                case key_cmp (score n) (member n) s m of
                  Less \<Rightarrow> do { f \<leftarrow> idx (forward n) 0; rank_from ns s m (rank + 1) f }
                | Equal \<Rightarrow> Some (Some rank)
                | Greater \<Rightarrow> Some None })"

definition sl_rank_of :: "f64 \<Rightarrow> string \<Rightarrow> skiplist \<Rightarrow> nat option option" where
  "sl_rank_of s m sl =
     do { h \<leftarrow> idx (nodes sl) 0;
          f \<leftarrow> idx (forward h) 0;
          rank_from (nodes sl) s m 0 f }"

text \<open>The items \<open>SkipListIter::next\<close> yields from index \<open>i\<close> on.\<close>

partial_function (option) iter_from :: "node list \<Rightarrow> nat \<Rightarrow> (string \<times> f64) list option" where
  "iter_from ns i =
     (if i = NIL then Some []
      else do { n \<leftarrow> idx ns i;
                f \<leftarrow> idx (forward n) 0;
                rest \<leftarrow> iter_from ns f;
                Some ((member n, score n) # rest) })"

definition sl_iter :: "skiplist \<Rightarrow> (string \<times> f64) list option" where
  "sl_iter sl =
     do { h \<leftarrow> idx (nodes sl) 0;
          f \<leftarrow> idx (forward h) 0;
          iter_from (nodes sl) f }"

text \<open>\<open>iter_rev\<close> first collects the indices of level 0, then reads the nodes backwards.\<close>

partial_function (option) chain_from :: "node list \<Rightarrow> nat \<Rightarrow> nat list option" where
  "chain_from ns i =
     (if i = NIL then Some []
      else do { n \<leftarrow> idx ns i;
                f \<leftarrow> idx (forward n) 0;
                rest \<leftarrow> chain_from ns f;
                Some (i # rest) })"

fun read_items :: "node list \<Rightarrow> nat list \<Rightarrow> (string \<times> f64) list option" where
  "read_items ns [] = Some []"
| "read_items ns (i # is) =
     do { n \<leftarrow> idx ns i;
          rest \<leftarrow> read_items ns is;
          Some ((member n, score n) # rest) }"

definition sl_iter_rev :: "skiplist \<Rightarrow> (string \<times> f64) list option" where
  "sl_iter_rev sl =
     do { h \<leftarrow> idx (nodes sl) 0;
          f \<leftarrow> idx (forward h) 0;
          chain \<leftarrow> chain_from (nodes sl) f;
          read_items (nodes sl) (rev chain) }"

declare walk.simps [code] rank_from.simps [code] iter_from.simps [code] chain_from.simps [code]

end
