(* ===== verification/SkipListInv.thy ===== *)
theory SkipListInv imports SkipList begin

text \<open>
  The invariant of the skip list and its maintenance.  \<open>sl_ok sl xs\<close> says that \<open>xs\<close> are the
  indices of the live nodes in key order and that at every level the forward pointers thread
  exactly the live nodes tall enough, from the head to \<open>NIL\<close>.  Nodes outside \<open>xs\<close> are dead
  slots of the arena, which the code never reuses.
\<close>

subsection \<open>Paths through a successor function\<close>

fun path :: "(nat \<Rightarrow> nat) \<Rightarrow> nat \<Rightarrow> nat list \<Rightarrow> nat \<Rightarrow> bool" where
  "path f x [] e \<longleftrightarrow> f x = e"
| "path f x (y # ys) e \<longleftrightarrow> f x = y \<and> path f y ys e"

lemma path_append [simp]: "path f x (as @ b # bs) e \<longleftrightarrow> path f x as b \<and> path f b bs e"
  by (induction as arbitrary: x) auto

lemma path_last: "path f x as e \<Longrightarrow> f (last (x # as)) = e"
  by (induction as arbitrary: x) auto

lemma path_cong:
  "(\<And>n. n \<in> set (x # as) \<Longrightarrow> f n = g n) \<Longrightarrow> path f x as e \<longleftrightarrow> path g x as e"
  by (induction as arbitrary: x) auto

lemma path_redirect:
  "path f x as e \<Longrightarrow> distinct (x # as) \<Longrightarrow> path (f(last (x # as) := e')) x as e'"
proof (induction as arbitrary: x)
  case Nil
  then show ?case by simp
next
  case (Cons y ys)
  have "path (f(last (y # ys) := e')) y ys e'"
    by (rule Cons.IH) (use Cons.prems in auto)
  moreover have "x \<noteq> last (y # ys)"
    using Cons.prems(2) last_in_set [of "y # ys"] by auto
  ultimately show ?case using Cons.prems(1) by (simp only: path.simps last_ConsR list.distinct) simp
qed

lemma path_head: "path f x (as @ bs) e \<Longrightarrow> f (last (x # as)) = (case bs of [] \<Rightarrow> e | b # _ \<Rightarrow> b)"
  by (cases bs) (auto dest: path_last simp del: last.simps)

lemma path_insert:
  assumes p: "path f x (as @ bs) e" and d: "distinct (x # as @ bs)"
    and n: "n \<notin> set (x # as @ bs)" and q: "q = last (x # as)"
  shows "path (f(n := f q, q := n)) x (as @ n # bs) e"
proof -
  let ?g = "f(n := f q, q := n)"
  have q_in: "q \<in> set (x # as)" unfolding q by (rule last_in_set) simp
  have "path f x as (case bs of [] \<Rightarrow> e | b # _ \<Rightarrow> b)"
    using p by (cases bs) auto
  then have "path (f(q := n)) x as n"
    unfolding q by (rule path_redirect) (use d in auto)
  then have "path ?g x as n"
    by (subst path_cong [of x as ?g "f(q := n)"]) (use n in auto)
  moreover have "path ?g n bs e"
  proof (cases bs)
    case Nil
    then show ?thesis using p q_in n path_last [of f x as e] q by auto
  next
    case (Cons b bs')
    have fq: "f q = b" using path_head [OF p] Cons q by simp
    have "path f b bs' e" using p Cons by simp
    then have "path ?g b bs' e"
      by (subst path_cong [of b bs' ?g f]) (use n d q_in Cons in auto)
    then show ?thesis using Cons fq n q_in by auto
  qed
  ultimately show ?thesis by simp
qed

lemma path_delete:
  assumes p: "path f x (as @ t # bs) e" and d: "distinct (x # as @ t # bs)"
    and q: "q = last (x # as)"
  shows "path (f(q := f t)) x (as @ bs) e"
proof -
  have q_in: "q \<in> set (x # as)" unfolding q by (rule last_in_set) simp
  have pa: "path (f(q := f t)) x as (f t)"
    unfolding q by (rule path_redirect [of f x as t]) (use p d in auto)
  show ?thesis
  proof (cases bs)
    case Nil
    then show ?thesis using pa p by simp
  next
    case (Cons b bs')
    have ft: "f t = b" and pb: "path f b bs' e" using p Cons by auto
    have "path (f(q := f t)) b bs' e"
      by (subst path_cong [of b bs' _ f]) (use d q_in Cons pb in auto)
    then show ?thesis using pa ft Cons by simp
  qed
qed

subsection \<open>The invariant\<close>

definition nxt :: "node list \<Rightarrow> nat \<Rightarrow> nat \<Rightarrow> nat" where
  "nxt ns i n = forward (ns ! n) ! i"

definition height :: "node list \<Rightarrow> nat \<Rightarrow> nat" where
  "height ns n = length (forward (ns ! n))"

definition nkey :: "node list \<Rightarrow> nat \<Rightarrow> f64 \<times> string" where
  "nkey ns n = (score (ns ! n), member (ns ! n))"

definition chain :: "node list \<Rightarrow> nat \<Rightarrow> nat list \<Rightarrow> nat list" where
  "chain ns i xs = filter (\<lambda>n. i < height ns n) xs"

definition sl_ok :: "skiplist \<Rightarrow> nat list \<Rightarrow> bool" where
  "sl_ok sl xs \<longleftrightarrow>
     1 \<le> level sl \<and> level sl \<le> MAX_LEVEL \<and>
     nodes sl \<noteq> [] \<and> capacity_ok node_size (length (nodes sl)) \<and> height (nodes sl) 0 = MAX_LEVEL \<and>
     distinct (0 # xs) \<and>
     (\<forall>n\<in>set xs. n < length (nodes sl) \<and> 1 \<le> height (nodes sl) n \<and>
        height (nodes sl) n \<le> level sl \<and> \<not> is_nan (score (nodes sl ! n))) \<and>
     sorted_wrt (<) (map (nkey (nodes sl)) xs) \<and>
     (\<forall>i<MAX_LEVEL. path (nxt (nodes sl) i) 0 (chain (nodes sl) i xs) NIL) \<and>
     sl_length sl = length xs"

lemma capacity_NIL: "capacity_ok node_size n \<Longrightarrow> n \<le> NIL"
  by (simp add: capacity_ok_def node_size_def isize_max_def NIL_def usize_max_def)

lemma sl_okD:
  assumes "sl_ok sl xs"
  shows "1 \<le> level sl" "level sl \<le> MAX_LEVEL" "nodes sl \<noteq> []" "length (nodes sl) \<le> NIL"
    "height (nodes sl) 0 = MAX_LEVEL" "distinct (0 # xs)"
    "\<And>n. n \<in> set xs \<Longrightarrow> n < length (nodes sl)" "\<And>n. n \<in> set xs \<Longrightarrow> 1 \<le> height (nodes sl) n"
    "\<And>n. n \<in> set xs \<Longrightarrow> height (nodes sl) n \<le> level sl"
    "\<And>n. n \<in> set xs \<Longrightarrow> \<not> is_nan (score (nodes sl ! n))"
    "sorted_wrt (<) (map (nkey (nodes sl)) xs)"
    "\<And>i. i < MAX_LEVEL \<Longrightarrow> path (nxt (nodes sl) i) 0 (chain (nodes sl) i xs) NIL"
    "sl_length sl = length xs" "capacity_ok node_size (length (nodes sl))"
  using assms capacity_NIL unfolding sl_ok_def by blast+

lemma NIL_ge: "MAX_LEVEL \<le> NIL" "0 < NIL" "0 < MAX_LEVEL"
  by (simp_all add: NIL_def usize_max_def MAX_LEVEL_def)

lemma chain_append: "chain ns i (xs @ ys) = chain ns i xs @ chain ns i ys"
  by (simp add: chain_def)

lemma chain_Cons:
  "chain ns i (x # ys) = (if i < height ns x then x # chain ns i ys else chain ns i ys)"
  by (simp add: chain_def)

lemma chain_Nil [simp]: "chain ns i [] = []"
  by (simp add: chain_def)

lemma set_chain: "set (chain ns i xs) = {n \<in> set xs. i < height ns n}"
  by (auto simp: chain_def)

lemma chain_0: "(\<And>n. n \<in> set xs \<Longrightarrow> 1 \<le> height ns n) \<Longrightarrow> chain ns 0 xs = xs"
  by (auto simp: chain_def filter_id_conv Suc_le_eq)

lemma chain_cong:
  "(\<And>n. n \<in> set xs \<Longrightarrow> height ns n = height ns' n) \<Longrightarrow> chain ns i xs = chain ns' i xs"
  unfolding chain_def by (rule filter_cong) auto

lemma chain_above: "(\<And>n. n \<in> set xs \<Longrightarrow> height ns n \<le> i) \<Longrightarrow> chain ns i xs = []"
  by (auto simp: chain_def filter_empty_conv not_less)

lemma distinct_chain: "distinct (0 # xs) \<Longrightarrow> distinct (0 # chain ns i xs)"
  by (auto simp: chain_def)

subsection \<open>Searching\<close>

lemma key_cmp_iff:
  "key_cmp (score (ns ! n)) (member (ns ! n)) s m = Less \<longleftrightarrow> nkey ns n < (s, m)"
  "key_cmp (score (ns ! n)) (member (ns ! n)) s m = Equal \<longleftrightarrow> nkey ns n = (s, m)"
  by (auto simp: key_cmp_def ord_cmp_def nkey_def)

lemma walk_takeWhile:
  assumes "path (nxt ns i) x ys NIL" "x < length ns" "i < height ns x"
    and "\<And>n. n \<in> set ys \<Longrightarrow> n < length ns \<and> i < height ns n" "length ns \<le> NIL"
  shows "walk ns i s m x = Some (last (x # takeWhile (\<lambda>n. nkey ns n < (s, m)) ys))"
  using assms(1-4)
proof (induction ys arbitrary: x)
  case Nil
  then show ?case by (subst walk.simps) (simp add: nxt_def height_def)
next
  case (Cons y ys)
  have y: "y < length ns" "i < height ns y" "forward (ns ! x) ! i = y" "y \<noteq> NIL"
    using Cons.prems(1) Cons.prems(4) [of y] assms(5) by (auto simp: nxt_def)
  show ?case
  proof (cases "nkey ns y < (s, m)")
    case True
    have "walk ns i s m y = Some (last (y # takeWhile (\<lambda>n. nkey ns n < (s, m)) ys))"
      by (rule Cons.IH) (use Cons.prems in auto)
    then show ?thesis
      using Cons.prems y True by (subst walk.simps) (simp add: height_def key_cmp_iff)
  next
    case False
    then show ?thesis
      using Cons.prems y by (subst walk.simps) (simp add: height_def key_cmp_iff)
  qed
qed

text \<open>
  The live nodes split at a key: \<open>key_below\<close> is the part before it.  \<open>pred_at\<close> is the predecessor the
  search records at a level.
\<close>

definition key_below :: "node list \<Rightarrow> f64 \<times> string \<Rightarrow> nat list \<Rightarrow> nat list" where
  "key_below ns k xs = takeWhile (\<lambda>n. nkey ns n < k) xs"

definition key_above :: "node list \<Rightarrow> f64 \<times> string \<Rightarrow> nat list \<Rightarrow> nat list" where
  "key_above ns k xs = dropWhile (\<lambda>n. nkey ns n < k) xs"

definition pred_at :: "node list \<Rightarrow> f64 \<times> string \<Rightarrow> nat list \<Rightarrow> nat \<Rightarrow> nat" where
  "pred_at ns k xs i = last (0 # chain ns i (key_below ns k xs))"

lemma below_above: "key_below ns k xs @ key_above ns k xs = xs"
  by (simp add: key_below_def key_above_def)

lemma below_less: "n \<in> set (key_below ns k xs) \<Longrightarrow> nkey ns n < k"
  unfolding key_below_def by (rule set_takeWhileD [THEN conjunct2])

lemma sorted_key_dropWhile:
  assumes "sorted_wrt (<) (map (nkey ns) xs)" "n \<in> set (dropWhile (\<lambda>n. nkey ns n < k) xs)"
  shows "\<not> nkey ns n < (k :: f64 \<times> string)"
  using assms
proof (induction xs)
  case (Cons x xs)
  show ?case
  proof (cases "nkey ns x < k")
    case True
    then show ?thesis using Cons by simp
  next
    case False
    with Cons.prems have "n = x \<or> nkey ns x < nkey ns n" by auto
    with False show ?thesis by (metis order.strict_trans)
  qed
qed simp

lemma above_ge: "sorted_wrt (<) (map (nkey ns) xs) \<Longrightarrow> n \<in> set (key_above ns k xs) \<Longrightarrow> \<not> nkey ns n < k"
  unfolding key_above_def by (rule sorted_key_dropWhile)

lemma pred_in: "pred_at ns k xs i \<in> insert 0 {n \<in> set xs. i < height ns n}"
proof -
  have "pred_at ns k xs i \<in> set (0 # chain ns i (key_below ns k xs))"
    unfolding pred_at_def by (rule last_in_set) simp
  moreover have "set (key_below ns k xs) \<subseteq> set xs"
    using below_above [of ns k xs] by (metis Un_upper1 set_append)
  ultimately show ?thesis by (auto simp: set_chain)
qed

lemma pred_ok:
  assumes ok: "sl_ok sl xs" and i: "i < MAX_LEVEL"
  shows "pred_at (nodes sl) k xs i < length (nodes sl)" "i < height (nodes sl) (pred_at (nodes sl) k xs i)"
  using pred_in [of "nodes sl" k xs i] sl_okD(3,5,7) [OF ok] i by auto

lemma walk_to_pred:
  assumes ok: "sl_ok sl xs" and i: "i < MAX_LEVEL"
    and x: "x \<in> set (0 # chain (nodes sl) i (key_below (nodes sl) (s, m) xs))"
  shows "walk (nodes sl) i s m x = Some (pred_at (nodes sl) (s, m) xs i)"
proof -
  let ?ns = "nodes sl" and ?k = "(s, m)"
  let ?as = "chain ?ns i (key_below ?ns ?k xs)" and ?bs = "chain ?ns i (key_above ?ns ?k xs)"
  note ok' = sl_okD [OF ok]
  have c: "chain ?ns i xs = ?as @ ?bs"
    by (simp add: chain_append [symmetric] below_above)
  obtain pre post where pp: "0 # ?as = pre @ x # post"
    using split_list [OF x] by blast
  have p0: "path (nxt ?ns i) 0 (?as @ ?bs) NIL"
    using ok'(12) [OF i] c by simp
  have px: "path (nxt ?ns i) x (post @ ?bs) NIL"
  proof (cases pre)
    case Nil
    then show ?thesis using pp p0 by simp
  next
    case (Cons z zs)
    then have "?as @ ?bs = zs @ x # (post @ ?bs)" using pp by simp
    then have "path (nxt ?ns i) 0 (zs @ x # (post @ ?bs)) NIL" using p0 by simp
    then show ?thesis by (simp only: path_append)
  qed
  have post: "set post \<subseteq> set ?as"
    using pp by (cases pre) auto
  then have sub: "set (post @ ?bs) \<subseteq> set (chain ?ns i xs)"
    using c by auto
  have rng: "\<And>n. n \<in> set (post @ ?bs) \<Longrightarrow> n < length ?ns \<and> i < height ?ns n"
    using sub ok'(7) by (auto simp: set_chain)
  have xr: "x < length ?ns" "i < height ?ns x"
  proof -
    have "x = 0 \<or> x \<in> set (chain ?ns i xs)" using x c by auto
    then show "x < length ?ns" "i < height ?ns x"
      using ok'(3,5,7) i by (auto simp: set_chain)
  qed
  have all: "\<forall>n\<in>set post. nkey ?ns n < ?k"
  proof
    fix n assume "n \<in> set post"
    then have "n \<in> set ?as" using post by auto
    then have "n \<in> set (key_below ?ns ?k xs)" by (simp add: set_chain)
    then show "nkey ?ns n < ?k" by (rule below_less)
  qed
  have bs: "takeWhile (\<lambda>n. nkey ?ns n < ?k) ?bs = []"
  proof (cases ?bs)
    case (Cons b bs')
    then have "b \<in> set (key_above ?ns ?k xs)"
      by (metis list.set_intros(1) mem_Collect_eq set_chain)
    then show ?thesis using above_ge [OF ok'(11)] Cons by simp
  qed simp
  have "takeWhile (\<lambda>n. nkey ?ns n < ?k) (post @ ?bs) = post"
    by (subst takeWhile_append2) (use all bs in auto)
  then have "walk ?ns i s m x = Some (last (x # post))"
    using walk_takeWhile [OF px xr rng ok'(4)] by simp
  moreover have "last (x # post) = last (0 # ?as)"
    unfolding pp by simp
  ultimately show ?thesis unfolding pred_at_def by simp
qed

lemma find_update_spec:
  assumes ok: "sl_ok sl xs" and l: "l \<le> MAX_LEVEL" and u: "length u = MAX_LEVEL"
    and x: "x = 0 \<or> x \<in> set (key_below (nodes sl) (s, m) xs) \<and> l \<le> height (nodes sl) x"
  shows "find_update (nodes sl) s m l x u =
    Some (if l = 0 then x else pred_at (nodes sl) (s, m) xs 0,
          map (pred_at (nodes sl) (s, m) xs) [0..<l] @ drop l u)"
  using l u x
proof (induction l arbitrary: x u)
  case 0
  then show ?case by simp
next
  case (Suc l)
  let ?p = "pred_at (nodes sl) (s, m) xs"
  have w: "walk (nodes sl) l s m x = Some (?p l)"
    by (rule walk_to_pred [OF ok]) (use Suc.prems in \<open>auto simp: set_chain\<close>)
  have pl: "?p l = 0 \<or> ?p l \<in> set (key_below (nodes sl) (s, m) xs) \<and> l \<le> height (nodes sl) (?p l)"
  proof -
    have "?p l \<in> set (0 # chain (nodes sl) l (key_below (nodes sl) (s, m) xs))"
      unfolding pred_at_def by (rule last_in_set) simp
    then show ?thesis by (auto simp: set_chain)
  qed
  have d: "drop l (u[l := ?p l]) = ?p l # drop (Suc l) u"
    using Suc.prems by (simp add: Cons_nth_drop_Suc [symmetric])
  have "find_update (nodes sl) s m l (?p l) (u[l := ?p l]) =
      Some (if l = 0 then ?p l else ?p 0, map ?p [0..<l] @ drop l (u[l := ?p l]))"
    by (rule Suc.IH) (use Suc.prems pl in auto)
  then show ?case using Suc.prems w d by auto
qed

lemma find_update_top:
  assumes ok: "sl_ok sl xs"
  shows "find_update (nodes sl) s m (level sl) 0 (replicate MAX_LEVEL NIL) =
    Some (pred_at (nodes sl) (s, m) xs 0,
          map (pred_at (nodes sl) (s, m) xs) [0..<level sl] @ replicate (MAX_LEVEL - level sl) NIL)"
  using find_update_spec [OF ok, of "level sl" "replicate MAX_LEVEL NIL" 0] sl_okD(1,2) [OF ok]
  by simp

text \<open>The predecessor at level 0 points at the first live node whose key is not smaller.\<close>

lemma pred_next:
  assumes ok: "sl_ok sl xs" and i: "i < MAX_LEVEL"
  shows "nxt (nodes sl) i (pred_at (nodes sl) k xs i) =
    (case chain (nodes sl) i (key_above (nodes sl) k xs) of [] \<Rightarrow> NIL | b # _ \<Rightarrow> b)"
proof -
  have "chain (nodes sl) i xs =
      chain (nodes sl) i (key_below (nodes sl) k xs) @ chain (nodes sl) i (key_above (nodes sl) k xs)"
    by (simp add: chain_append [symmetric] below_above)
  then show ?thesis
    using path_head sl_okD(12) [OF ok i] unfolding pred_at_def by metis
qed

lemma chain_above_0:
  assumes ok: "sl_ok sl xs"
  shows "chain (nodes sl) 0 (key_above (nodes sl) k xs) = key_above (nodes sl) k xs"
    "chain (nodes sl) 0 xs = xs"
  using sl_okD(8) [OF ok] by (auto intro!: chain_0 simp: key_above_def dest: set_dropWhileD)

lemma above_hd_iff:
  assumes ok: "sl_ok sl xs"
  shows "k \<in> nkey (nodes sl) ` set xs \<longleftrightarrow>
    (\<exists>b bs. key_above (nodes sl) k xs = b # bs \<and> nkey (nodes sl) b = k)"
proof
  let ?ns = "nodes sl"
  assume "k \<in> nkey ?ns ` set xs"
  then obtain n where n: "n \<in> set xs" "nkey ?ns n = k" by auto
  have "n \<notin> set (key_below ?ns k xs)" using below_less n(2) by fastforce
  then have na: "n \<in> set (key_above ?ns k xs)"
    using n(1) below_above [of ?ns k xs] by (metis Un_iff set_append)
  then obtain b bs where b: "key_above ?ns k xs = b # bs" by (cases "key_above ?ns k xs") auto
  have "sorted_wrt (<) (map (nkey ?ns) (b # bs))"
    using sl_okD(11) [OF ok] below_above [of ?ns k xs] b
    by (metis map_append sorted_wrt_append)
  then have "n = b \<or> nkey ?ns b < k" using na n(2) b by auto
  moreover have "\<not> nkey ?ns b < k"
    by (rule above_ge [OF sl_okD(11) [OF ok]]) (use b in simp)
  ultimately show "\<exists>b bs. key_above ?ns k xs = b # bs \<and> nkey ?ns b = k"
    using b n(2) by blast
next
  assume "\<exists>b bs. key_above (nodes sl) k xs = b # bs \<and> nkey (nodes sl) b = k"
  then show "k \<in> nkey (nodes sl) ` set xs"
    using below_above [of "nodes sl" k xs] by (metis image_eqI in_set_conv_decomp)
qed

end
