(* ===== verification/OrderedIndex.thy ===== *)
theory OrderedIndex imports Float64 begin

text \<open>
  The interface between the sorted set and its ordered index.  \<open>ZSetInner\<close> keeps a dictionary
  from members to scores beside an index ordered by \<open>(score, member)\<close>, and relies on the index
  only through the operations fixed here.  The lemmas proved in the locale are the ones the
  sorted set uses: what re-scoring, adding and deleting a member do to the pair.
\<close>

text \<open>The items of a set of keys in index order, as \<open>(member, score)\<close> pairs.\<close>

definition sorted_items :: "(f64 \<times> string) set \<Rightarrow> (string \<times> f64) list" where
  "sorted_items S = map (\<lambda>(s, m). (m, s)) (sorted_list_of_set S)"

text \<open>The keys of a dictionary from members to scores.\<close>

definition graph :: "(string \<Rightarrow> f64 option) \<Rightarrow> (f64 \<times> string) set" where
  "graph d = {(s, m). d m = Some s}"

lemma graph_iff [simp]: "(s, m) \<in> graph d \<longleftrightarrow> d m = Some s"
  by (simp add: graph_def)

lemma graph_upd_None: "d m = None \<Longrightarrow> graph (d(m \<mapsto> s)) = insert (s, m) (graph d)"
  by (auto simp: graph_def split: if_splits)

lemma graph_upd_Some: "d m = Some old \<Longrightarrow> graph (d(m \<mapsto> s)) = insert (s, m) (graph d - {(old, m)})"
  by (auto simp: graph_def split: if_splits)

lemma graph_del: "d m = Some old \<Longrightarrow> graph (d(m := None)) = graph d - {(old, m)}"
  by (auto simp: graph_def split: if_splits)

lemma graph_eq_image: "graph d = (\<lambda>m. (the (d m), m)) ` dom d"
  by (force simp: graph_def)

lemma finite_graph: "finite (dom d) \<Longrightarrow> finite (graph d)"
  by (simp add: graph_eq_image)

lemma card_graph: "card (graph d) = card (dom d)"
  unfolding graph_eq_image by (rule card_image) (simp add: inj_on_def)

lemma set_sorted_items: "finite S \<Longrightarrow> set (sorted_items S) = {(m, s). (s, m) \<in> S}"
  by (force simp: sorted_items_def)

lemma length_sorted_items: "length (sorted_items S) = card S"
  by (simp add: sorted_items_def)

lemma distinct_sorted_items: "distinct (sorted_items S)"
  unfolding sorted_items_def
  by (simp add: distinct_map) (auto simp: inj_on_def)

lemma distinct_members: "finite (dom d) \<Longrightarrow> distinct (map fst (sorted_items (graph d)))"
  by (auto simp: distinct_map distinct_sorted_items set_sorted_items finite_graph inj_on_def)

locale ordered_index =
  fixes rep :: "'i \<Rightarrow> (f64 \<times> string) set \<Rightarrow> bool"
    and room :: "'i \<Rightarrow> nat"
    and ins :: "bool list \<Rightarrow> f64 \<Rightarrow> string \<Rightarrow> 'i \<Rightarrow> 'i option"
    and del :: "f64 \<Rightarrow> string \<Rightarrow> 'i \<Rightarrow> (bool \<times> 'i) option"
    and rank :: "f64 \<Rightarrow> string \<Rightarrow> 'i \<Rightarrow> nat option option"
    and asc :: "'i \<Rightarrow> (string \<times> f64) list option"
    and desc :: "'i \<Rightarrow> (string \<times> f64) list option"
  assumes rep_finite: "rep i S \<Longrightarrow> finite S"
    and rep_not_nan: "rep i S \<Longrightarrow> (s, m) \<in> S \<Longrightarrow> \<not> is_nan s"
    and ins_spec: "rep i S \<Longrightarrow> \<not> is_nan s \<Longrightarrow> 0 < room i \<Longrightarrow>
      \<exists>i'. ins cs s m i = Some i' \<and> rep i' (insert (s, m) S) \<and> room i \<le> Suc (room i')"
    and ins_rep: "rep i S \<Longrightarrow> \<not> is_nan s \<Longrightarrow> ins cs s m i = Some i' \<Longrightarrow> rep i' (insert (s, m) S)"
    and del_spec: "rep i S \<Longrightarrow> \<not> is_nan s \<Longrightarrow>
      \<exists>i'. del s m i = Some ((s, m) \<in> S, i') \<and> rep i' (S - {(s, m)}) \<and> room i' = room i"
    and rank_spec: "rep i S \<Longrightarrow>
      rank s m i = Some (if (s, m) \<in> S then Some (card {k \<in> S. k < (s, m)}) else None)"
    and asc_spec: "rep i S \<Longrightarrow> asc i = Some (sorted_items S)"
    and desc_spec: "rep i S \<Longrightarrow> desc i = Some (rev (sorted_items S))"
begin

text \<open>Dropping the old key of a member, if it has one.\<close>

lemma drop_old:
  assumes "rep i (graph d)"
  shows "\<exists>i'. (case d m of Some old \<Rightarrow> map_option snd (del old m i) | None \<Rightarrow> Some i) = Some i' \<and>
    rep i' (graph (d(m := None))) \<and> room i' = room i"
proof (cases "d m")
  case None
  then have "d(m := None) = d" by auto
  then show ?thesis using None assms by simp
next
  case (Some old)
  then show ?thesis
    using del_spec [OF assms, of old m] rep_not_nan [OF assms, of old m]
    by (auto simp: graph_del)
qed

lemma rescore:
  assumes "rep i (graph d)" "\<not> is_nan s" "0 < room i"
  shows "\<exists>i1 i2. (case d m of Some old \<Rightarrow> map_option snd (del old m i) | None \<Rightarrow> Some i) = Some i1 \<and>
    ins cs s m i1 = Some i2 \<and> rep i2 (graph (d(m \<mapsto> s))) \<and> room i \<le> Suc (room i2)"
proof -
  obtain i1 where i1: "(case d m of Some old \<Rightarrow> map_option snd (del old m i) | None \<Rightarrow> Some i) = Some i1"
    and r1: "rep i1 (graph (d(m := None)))" "room i1 = room i"
    using drop_old [OF assms(1)] by blast
  obtain i2 where i2: "ins cs s m i1 = Some i2" "rep i2 (insert (s, m) (graph (d(m := None))))"
    "room i1 \<le> Suc (room i2)"
    using ins_spec [OF r1(1) assms(2), of cs m] assms(3) r1(2) by auto
  have "graph (d(m \<mapsto> s)) = insert (s, m) (graph (d(m := None)))"
    using graph_upd_None [of "d(m := None)" m s] by simp
  then show ?thesis using i1 i2 r1 by auto
qed

lemma rescore_rep:
  assumes "rep i (graph d)" "\<not> is_nan s"
    and "(case d m of Some old \<Rightarrow> map_option snd (del old m i) | None \<Rightarrow> Some i) = Some i1"
    and "ins cs s m i1 = Some i2"
  shows "rep i2 (graph (d(m \<mapsto> s)))"
proof -
  have "rep i1 (graph (d(m := None)))" using drop_old [OF assms(1), of m] assms(3) by auto
  then have "rep i2 (insert (s, m) (graph (d(m := None))))" by (rule ins_rep [OF _ assms(2,4)])
  then show ?thesis using graph_upd_None [of "d(m := None)" m s] by simp
qed

lemma unscore:
  assumes "rep i (graph d)" "d m = Some s"
  shows "\<exists>i'. del s m i = Some (True, i') \<and> rep i' (graph (d(m := None))) \<and> room i' = room i"
proof -
  have "(s, m) \<in> graph d" using assms(2) by simp
  then show ?thesis
    using del_spec [OF assms(1) rep_not_nan [OF assms(1)], of s m m] graph_del [of d m s] assms(2)
    by simp
qed

lemma member_rank:
  assumes "rep i (graph d)" "d m = Some s"
  shows "rank s m i = Some (Some (card {k \<in> graph d. k < (s, m)}))"
  using rank_spec [OF assms(1), of s m] assms(2) by simp

lemma member_rank_bound:
  assumes "rep i (graph d)" "d m = Some s"
  shows "card {k \<in> graph d. k < (s, m)} < card (graph d)"
proof (rule psubset_card_mono [OF rep_finite [OF assms(1)]])
  have "(s, m) \<in> graph d - {k \<in> graph d. k < (s, m)}" using assms(2) by simp
  then show "{k \<in> graph d. k < (s, m)} \<subset> graph d" by blast
qed

end

end
