(* ===== verification/SkipListCorrect.thy ===== *)
theory SkipListCorrect imports SkipListInv OrderedIndex begin

text \<open>
  Functional correctness of the skip list: \<open>insert\<close>, \<open>remove\<close>, \<open>rank_of\<close>, \<open>iter\<close> and
  \<open>iter_rev\<close> implement a finite set of keys.  No operation on a well-formed skip list panics or
  loops, short of the arena reaching its capacity, and every random level keeps the invariant.
\<close>

subsection \<open>Relinking\<close>

definition same_data :: "node list \<Rightarrow> node list \<Rightarrow> bool" where
  "same_data ns ns' \<longleftrightarrow> length ns' = length ns \<and>
     (\<forall>n. member (ns' ! n) = member (ns ! n) \<and> score (ns' ! n) = score (ns ! n) \<and>
          height ns' n = height ns n)"

lemma same_data_refl [simp]: "same_data ns ns"
  by (simp add: same_data_def)

lemma same_data_trans: "same_data a b \<Longrightarrow> same_data b c \<Longrightarrow> same_data a c"
  by (simp add: same_data_def)

lemma same_data_upd:
  "length fw = height ns x \<Longrightarrow> same_data ns (ns[x := (ns ! x)\<lparr>forward := fw\<rparr>])"
  by (cases "x < length ns") (auto simp: same_data_def height_def nth_list_update list_update_beyond)

lemma nxt_upd:
  assumes "x < length ns" "i < height ns x"
  shows "nxt (ns[x := (ns ! x)\<lparr>forward := (forward (ns ! x))[i := v]\<rparr>]) j n =
    (if n = x \<and> j = i then v else nxt ns j n)"
  using assms by (auto simp: nxt_def height_def nth_list_update)

lemma same_data_key: "same_data ns ns' \<Longrightarrow> nkey ns' = nkey ns"
  by (auto simp: same_data_def nkey_def)

lemma same_data_height: "same_data ns ns' \<Longrightarrow> height ns' = height ns"
  by (auto simp: same_data_def)

lemma link_spec:
  assumes "new < length ns"
    and "\<And>j. j < length ps \<Longrightarrow> ps ! j < length ns \<and> ps ! j \<noteq> new \<and>
           i + j < height ns (ps ! j) \<and> i + j < height ns new"
  shows "\<exists>ns'. link i ps new ns = Some ns' \<and> same_data ns ns' \<and>
    (\<forall>j n. nxt ns' j n =
       (if i \<le> j \<and> j < i + length ps
        then (if n = new then nxt ns j (ps ! (j - i))
              else if n = ps ! (j - i) then new else nxt ns j n)
        else nxt ns j n))"
  using assms
proof (induction ps arbitrary: i ns)
  case Nil
  then show ?case by auto
next
  case (Cons p ps)
  have p: "p < length ns" "p \<noteq> new" "i < height ns p" "i < height ns new"
    using Cons.prems(2) [of 0] by auto
  define ns1 where "ns1 = ns[new := (ns ! new)\<lparr>forward := (forward (ns ! new))[i := nxt ns i p]\<rparr>]"
  define ns2 where "ns2 = ns1[p := (ns1 ! p)\<lparr>forward := (forward (ns1 ! p))[i := new]\<rparr>]"
  have s1: "same_data ns ns1"
    unfolding ns1_def by (rule same_data_upd) (simp add: height_def)
  have s2: "same_data ns1 ns2"
    unfolding ns2_def by (rule same_data_upd) (simp add: height_def)
  have s12: "same_data ns ns2" by (rule same_data_trans [OF s1 s2])
  have n1: "nxt ns1 j n = (if n = new \<and> j = i then nxt ns i p else nxt ns j n)" for j n
    unfolding ns1_def by (rule nxt_upd) (use Cons.prems(1) p in auto)
  have n2: "nxt ns2 j n = (if n = p \<and> j = i then new else nxt ns1 j n)" for j n
    unfolding ns2_def by (rule nxt_upd) (use s1 p in \<open>auto simp: same_data_def\<close>)
  have step: "link i (p # ps) new ns = link (Suc i) ps new ns2"
    using p Cons.prems(1) s1
    by (auto simp: ns2_def ns1_def nxt_def height_def same_data_def Let_def)
  have "\<exists>ns'. link (Suc i) ps new ns2 = Some ns' \<and> same_data ns2 ns' \<and>
    (\<forall>j n. nxt ns' j n =
       (if Suc i \<le> j \<and> j < Suc i + length ps
        then (if n = new then nxt ns2 j (ps ! (j - Suc i))
              else if n = ps ! (j - Suc i) then new else nxt ns2 j n)
        else nxt ns2 j n))"
  proof (rule Cons.IH)
    show "new < length ns2" using Cons.prems(1) s12 by (simp add: same_data_def)
    fix j assume "j < length ps"
    then show "ps ! j < length ns2 \<and> ps ! j \<noteq> new \<and> Suc i + j < height ns2 (ps ! j) \<and>
        Suc i + j < height ns2 new"
      using Cons.prems(2) [of "Suc j"] s12 by (simp add: same_data_def)
  qed
  then obtain ns' where ns': "link (Suc i) ps new ns2 = Some ns'" "same_data ns2 ns'"
    and nx: "\<And>j n. nxt ns' j n =
       (if Suc i \<le> j \<and> j < Suc i + length ps
        then (if n = new then nxt ns2 j (ps ! (j - Suc i))
              else if n = ps ! (j - Suc i) then new else nxt ns2 j n)
        else nxt ns2 j n)" by blast
  have "nxt ns' j n =
       (if i \<le> j \<and> j < i + length (p # ps)
        then (if n = new then nxt ns j ((p # ps) ! (j - i))
              else if n = (p # ps) ! (j - i) then new else nxt ns j n)
        else nxt ns j n)" for j n
  proof (cases "j = i")
    case True
    then show ?thesis using p by (auto simp: nx n1 n2)
  next
    case False
    then show ?thesis by (auto simp: nx n1 n2 nth_Cons')
  qed
  then show ?case using step ns' same_data_trans [OF s12] by (metis (no_types, lifting))
qed

lemma unlink_spec:
  assumes "t < length ns"
    and "\<And>j. j < length ps \<Longrightarrow> ps ! j < length ns \<and> ps ! j \<noteq> t \<and> i + j < height ns (ps ! j) \<and>
           (nxt ns (i + j) (ps ! j) = t \<longleftrightarrow> i + j < height ns t)"
  shows "\<exists>ns'. unlink i ps t ns = Some ns' \<and> same_data ns ns' \<and>
    (\<forall>j n. nxt ns' j n =
       (if i \<le> j \<and> j < i + length ps \<and> j < height ns t \<and> n = ps ! (j - i) then nxt ns j t
        else nxt ns j n))"
  using assms
proof (induction ps arbitrary: i ns)
  case Nil
  then show ?case by auto
next
  case (Cons p ps)
  have p: "p < length ns" "p \<noteq> t" "i < height ns p" "nxt ns i p = t \<longleftrightarrow> i < height ns t"
    using Cons.prems(2) [of 0] by auto
  show ?case
  proof (cases "nxt ns i p = t")
    case False
    then have "unlink i (p # ps) t ns = Some ns"
      using p by (simp add: nxt_def height_def)
    then show ?thesis using False p(4) by auto
  next
    case True
    then have ti: "i < height ns t" using p(4) by simp
    define ns1 where "ns1 = ns[p := (ns ! p)\<lparr>forward := (forward (ns ! p))[i := nxt ns i t]\<rparr>]"
    have s1: "same_data ns ns1"
      unfolding ns1_def by (rule same_data_upd) (simp add: height_def)
    have n1: "nxt ns1 j n = (if n = p \<and> j = i then nxt ns i t else nxt ns j n)" for j n
      unfolding ns1_def by (rule nxt_upd) (use p in auto)
    have step: "unlink i (p # ps) t ns = unlink (Suc i) ps t ns1"
      using p ti Cons.prems(1) True by (simp add: nxt_def height_def ns1_def)
    have "\<exists>ns'. unlink (Suc i) ps t ns1 = Some ns' \<and> same_data ns1 ns' \<and>
      (\<forall>j n. nxt ns' j n =
         (if Suc i \<le> j \<and> j < Suc i + length ps \<and> j < height ns1 t \<and> n = ps ! (j - Suc i)
          then nxt ns1 j t else nxt ns1 j n))"
    proof (rule Cons.IH)
      show "t < length ns1" using Cons.prems(1) s1 by (simp add: same_data_def)
      fix j assume "j < length ps"
      then show "ps ! j < length ns1 \<and> ps ! j \<noteq> t \<and> Suc i + j < height ns1 (ps ! j) \<and>
          (nxt ns1 (Suc i + j) (ps ! j) = t \<longleftrightarrow> Suc i + j < height ns1 t)"
        using Cons.prems(2) [of "Suc j"] s1 by (simp add: same_data_def n1)
    qed
    then obtain ns' where ns': "unlink (Suc i) ps t ns1 = Some ns'" "same_data ns1 ns'"
      and nx: "\<And>j n. nxt ns' j n =
         (if Suc i \<le> j \<and> j < Suc i + length ps \<and> j < height ns1 t \<and> n = ps ! (j - Suc i)
          then nxt ns1 j t else nxt ns1 j n)" by blast
    have "nxt ns' j n =
       (if i \<le> j \<and> j < i + length (p # ps) \<and> j < height ns t \<and> n = (p # ps) ! (j - i)
        then nxt ns j t else nxt ns j n)" for j n
    proof (cases "j = i")
      case True
      then show ?thesis using p ti by (auto simp: nx n1)
    next
      case False
      then show ?thesis using s1 by (auto simp: nx n1 nth_Cons' same_data_def)
    qed
    then show ?thesis using step ns' same_data_trans [OF s1] by (metis (no_types, lifting))
  qed
qed

lemma lower_level_spec:
  assumes "1 \<le> l" "l \<le> height ns 0" "ns \<noteq> []"
  shows "\<exists>l'. lower_level ns l = Some l' \<and> 1 \<le> l' \<and> l' \<le> l \<and> (\<forall>i. l' \<le> i \<longrightarrow> i < l \<longrightarrow> nxt ns i 0 = NIL)"
  using assms
proof (induction l)
  case (Suc l)
  show ?case
  proof (cases "0 < l \<and> nxt ns l 0 = NIL")
    case True
    then obtain l' where "lower_level ns l = Some l'" "1 \<le> l'" "l' \<le> l"
      "\<forall>i. l' \<le> i \<longrightarrow> i < l \<longrightarrow> nxt ns i 0 = NIL" using Suc by auto
    then show ?thesis
      using True Suc.prems by (auto simp: nxt_def height_def less_Suc_eq)
  next
    case False
    then show ?thesis using Suc.prems by (auto simp: nxt_def height_def less_Suc_eq)
  qed
qed simp

subsection \<open>Insertion\<close>

definition fresh_node :: "f64 \<Rightarrow> string \<Rightarrow> nat \<Rightarrow> node" where
  "fresh_node s m lvl = \<lparr>member = m, score = s, forward = replicate lvl NIL\<rparr>"

lemma random_level_from_bounds:
  "lvl \<le> MAX_LEVEL \<Longrightarrow> lvl \<le> random_level_from lvl cs \<and> random_level_from lvl cs \<le> MAX_LEVEL"
proof (induction cs arbitrary: lvl)
  case (Cons c cs)
  show ?case using Cons.prems Cons.IH [of "Suc lvl"] by auto
qed simp

lemma random_level_range: "1 \<le> random_level cs" "random_level cs \<le> MAX_LEVEL"
  using random_level_from_bounds [of 1 cs] by (auto simp: random_level_def MAX_LEVEL_def)

lemma snoc_data:
  assumes "n < length ns"
  shows "nxt (ns @ [x]) i n = nxt ns i n" "height (ns @ [x]) n = height ns n"
    "nkey (ns @ [x]) n = nkey ns n" "score ((ns @ [x]) ! n) = score (ns ! n)"
  using assms by (auto simp: nxt_def height_def nkey_def nth_append)

lemma live_split:
  assumes "sl_ok sl xs"
  shows "set (key_below (nodes sl) k xs) \<subseteq> set xs" "set (key_above (nodes sl) k xs) \<subseteq> set xs"
    "distinct (0 # key_below (nodes sl) k xs @ key_above (nodes sl) k xs)"
  using sl_okD(6) [OF assms] below_above [of "nodes sl" k xs]
  by (auto simp: key_below_def key_above_def dest: set_takeWhileD set_dropWhileD)

lemma chain_split:
  "chain ns i xs = chain ns i (key_below ns k xs) @ chain ns i (key_above ns k xs)"
  by (simp add: chain_append [symmetric] below_above)

lemma insert_path:
  assumes ok: "sl_ok sl xs" and i: "i < MAX_LEVEL" and new: "new = length (nodes sl)"
    and sd: "same_data (nodes sl @ [fresh_node s m lvl]) ns'"
    and nx: "\<And>n. nxt ns' i n =
       (if i < lvl
        then (if n = new then nxt (nodes sl @ [fresh_node s m lvl]) i (pred_at (nodes sl) (s, m) xs i)
              else if n = pred_at (nodes sl) (s, m) xs i then new
              else nxt (nodes sl @ [fresh_node s m lvl]) i n)
        else nxt (nodes sl @ [fresh_node s m lvl]) i n)"
  shows "path (nxt ns' i) 0
    (chain ns' i (key_below (nodes sl) (s, m) xs @ new # key_above (nodes sl) (s, m) xs)) NIL"
proof -
  let ?ns = "nodes sl" and ?ns1 = "nodes sl @ [fresh_node s m lvl]" and ?k = "(s, m)"
  let ?as = "chain ?ns i (key_below ?ns ?k xs)" and ?bs = "chain ?ns i (key_above ?ns ?k xs)"
  let ?p = "pred_at ?ns ?k xs i"
  note ok' = sl_okD [OF ok] and sp = live_split [OF ok, of ?k]
  have live: "n < length ?ns" if "n \<in> insert 0 (set (?as @ ?bs))" for n
    using that ok'(3,7) sp(1,2) by (auto simp: set_chain)
  have h: "height ns' n = height ?ns n" if "n \<in> set xs" for n
    using sd ok'(7) [OF that] by (simp add: same_data_def snoc_data)
  have hn: "height ns' new = lvl"
    using sd new by (simp add: same_data_def height_def fresh_node_def nth_append)
  have c: "chain ns' i (key_below ?ns ?k xs) = ?as" "chain ns' i (key_above ?ns ?k xs) = ?bs"
    using sp(1,2) h by (auto intro!: chain_cong)
  have p: "path (nxt ?ns i) 0 (?as @ ?bs) NIL"
    using ok'(12) [OF i] chain_split [of ?ns i xs ?k] by simp
  have p1: "path (nxt ?ns1 i) 0 (?as @ ?bs) NIL"
    by (subst path_cong [of 0 "?as @ ?bs" _ "nxt ?ns i"]) (use live p snoc_data in auto)
  show ?thesis
  proof (cases "i < lvl")
    case True
    have "path ((nxt ?ns1 i)(new := nxt ?ns1 i ?p, ?p := new)) 0 (?as @ new # ?bs) NIL"
    proof (rule path_insert [OF p1])
      show "distinct (0 # ?as @ ?bs)" using sp(3) by (auto simp: chain_def)
      show "new \<notin> set (0 # ?as @ ?bs)" using live new by auto
    qed (simp add: pred_at_def)
    moreover have "(nxt ?ns1 i)(new := nxt ?ns1 i ?p, ?p := new) = nxt ns' i"
      using True nx pred_ok(1) [OF ok i, of ?k] new by (intro ext) auto
    ultimately show ?thesis using c True hn by (simp add: chain_append chain_Cons)
  next
    case False
    then have "nxt ns' i = nxt ?ns1 i" using nx by (intro ext) simp
    then show ?thesis using p1 c False hn by (simp add: chain_append chain_Cons)
  qed
qed

lemma sorted_insert_mid:
  assumes ok: "sl_ok sl xs" and k: "k \<notin> nkey (nodes sl) ` set xs"
  shows "sorted_wrt (<) (map (nkey (nodes sl)) (key_below (nodes sl) k xs) @ k #
           map (nkey (nodes sl)) (key_above (nodes sl) k xs))"
proof -
  let ?ns = "nodes sl"
  have s: "sorted_wrt (<) (map (nkey ?ns) (key_below ?ns k xs) @ map (nkey ?ns) (key_above ?ns k xs))"
    using sl_okD(11) [OF ok] by (simp add: map_append [symmetric] below_above del: map_append)
  have "k < nkey ?ns n" if "n \<in> set (key_above ?ns k xs)" for n
    using above_ge [OF sl_okD(11) [OF ok] that] that k live_split(2) [OF ok] by fastforce
  moreover have "nkey ?ns n < k" if "n \<in> set (key_below ?ns k xs)" for n
    by (rule below_less [OF that])
  ultimately show ?thesis using s by (auto simp: sorted_wrt_append)
qed

lemma sl_ok_inserted:
  assumes ok: "sl_ok sl xs" and new: "new = length (nodes sl)" and cap: "capacity_ok node_size (Suc new)"
    and s: "\<not> is_nan s" and k: "(s, m) \<notin> nkey (nodes sl) ` set xs"
    and lvl: "1 \<le> lvl" "lvl \<le> MAX_LEVEL"
    and sd: "same_data (nodes sl @ [fresh_node s m lvl]) ns'"
    and nx: "\<And>j n. nxt ns' j n =
       (if j < lvl
        then (if n = new then nxt (nodes sl @ [fresh_node s m lvl]) j (pred_at (nodes sl) (s, m) xs j)
              else if n = pred_at (nodes sl) (s, m) xs j then new
              else nxt (nodes sl @ [fresh_node s m lvl]) j n)
        else nxt (nodes sl @ [fresh_node s m lvl]) j n)"
  shows "sl_ok \<lparr>nodes = ns', level = max lvl (level sl), sl_length = sl_length sl + 1\<rparr>
           (key_below (nodes sl) (s, m) xs @ new # key_above (nodes sl) (s, m) xs)"
proof -
  let ?ns = "nodes sl" and ?k = "(s, m)"
  note ok' = sl_okD [OF ok] and sp = live_split [OF ok, of ?k]
  have old: "n < length ns'" "height ns' n = height ?ns n" "nkey ns' n = nkey ?ns n"
    "score (ns' ! n) = score (?ns ! n)" if "n < length ?ns" for n
    using sd that snoc_data [OF that] by (auto simp: same_data_def nkey_def)
  have nw: "new < length ns'" "height ns' new = lvl" "nkey ns' new = ?k" "score (ns' ! new) = s"
    using sd new by (auto simp: same_data_def height_def nkey_def fresh_node_def nth_append)
  have keys: "map (nkey ns') (key_below ?ns ?k xs @ new # key_above ?ns ?k xs) =
      map (nkey ?ns) (key_below ?ns ?k xs) @ ?k # map (nkey ?ns) (key_above ?ns ?k xs)"
    using old(3) nw(3) ok'(7) sp(1,2) by (auto intro!: map_cong)
  have paths: "\<forall>i<MAX_LEVEL. path (nxt ns' i) 0
      (chain ns' i (key_below ?ns ?k xs @ new # key_above ?ns ?k xs)) NIL"
    using insert_path [OF ok _ new sd] nx by blast
  have d: "distinct (0 # key_below ?ns ?k xs @ new # key_above ?ns ?k xs)"
    using sp ok'(3,7) new by auto
  have "\<forall>n\<in>set (key_below ?ns ?k xs @ new # key_above ?ns ?k xs). n < length ns' \<and> 1 \<le> height ns' n \<and>
      height ns' n \<le> max lvl (level sl) \<and> \<not> is_nan (score (ns' ! n))"
    using nw lvl s sp(1,2) ok'(7-10) old by (auto simp: max.coboundedI2)
  moreover have "length ns' = Suc new" "height ns' 0 = MAX_LEVEL" "ns' \<noteq> []"
    using sd new ok'(3,5) old(2) [of 0] by (auto simp: same_data_def)
  moreover have "length (key_below ?ns ?k xs) + length (key_above ?ns ?k xs) = length xs"
    by (metis below_above length_append)
  moreover have "1 \<le> max lvl (level sl)" "max lvl (level sl) \<le> MAX_LEVEL"
    using lvl ok'(2) by auto
  ultimately show ?thesis
    unfolding sl_ok_def using cap keys paths d sorted_insert_mid [OF ok k] ok'(13)
    by (simp del: distinct.simps map_append)
qed

text \<open>The abstract value: the set of keys of the live nodes.\<close>

definition sl_rep :: "skiplist \<Rightarrow> (f64 \<times> string) set \<Rightarrow> bool" where
  "sl_rep sl S \<longleftrightarrow> (\<exists>xs. sl_ok sl xs \<and> S = nkey (nodes sl) ` set xs)"

lemma sl_repI: "sl_ok sl xs \<Longrightarrow> S = nkey (nodes sl) ` set xs \<Longrightarrow> sl_rep sl S"
  unfolding sl_rep_def by blast

lemma sl_rep_finite: "sl_rep sl S \<Longrightarrow> finite S"
  by (auto simp: sl_rep_def)

lemma sl_ok_keys_sorted:
  assumes "sl_ok sl xs"
  shows "map (nkey (nodes sl)) xs = sorted_list_of_set (nkey (nodes sl) ` set xs)"
proof -
  have "sorted_wrt (<) (map (nkey (nodes sl)) xs)" by (rule sl_okD(11) [OF assms])
  then have "sorted_list_of_set (set (map (nkey (nodes sl)) xs)) = map (nkey (nodes sl)) xs"
    by (intro sorted_list_of_set.idem_if_sorted_distinct) (simp_all add: strict_sorted_iff)
  then show ?thesis by simp
qed

lemma sl_new_rep: "sl_rep sl_new {}"
proof -
  have "sl_ok sl_new []"
    by (simp add: sl_ok_def sl_new_def height_def nxt_def MAX_LEVEL_def NIL_def usize_max_def
        capacity_ok_def node_size_def isize_max_def)
  then show ?thesis by (auto intro: sl_repI)
qed

lemma insert_preds:
  assumes ok: "sl_ok sl xs" and lvl: "1 \<le> lvl" "lvl \<le> MAX_LEVEL"
    and u: "u = map (pred_at (nodes sl) k xs) [0..<level sl] @ replicate (MAX_LEVEL - level sl) NIL"
  shows "\<exists>u'. (if lvl > level sl then fill_heads u (level sl) lvl else Some u) = Some u' \<and>
    take lvl u' = map (pred_at (nodes sl) k xs) [0..<lvl]"
proof (cases "lvl > level sl")
  case True
  have "pred_at (nodes sl) k xs i = 0" if "level sl \<le> i" for i
    using sl_okD(9) [OF ok] live_split(1) [OF ok, of k] that
    by (auto simp: pred_at_def chain_def filter_empty_conv dest!: subsetD)
       (metis (no_types, lifting) filter_False leD le_trans)
  then have "map (pred_at (nodes sl) k xs) [level sl..<lvl] = replicate (lvl - level sl) 0"
    by (intro replicate_eqI) auto
  moreover have "[0..<lvl] = [0..<level sl] @ [level sl..<lvl]"
    using True upt_add_eq_append [of 0 "level sl" "lvl - level sl"] by simp
  ultimately show ?thesis
    using True u lvl sl_okD(2) [OF ok] by (simp add: fill_heads_def)
next
  case False
  then show ?thesis using u by (simp add: take_map)
qed

lemma first_not_below:
  assumes ok: "sl_ok sl xs"
  shows "nxt (nodes sl) 0 (pred_at (nodes sl) k xs 0) =
    (case key_above (nodes sl) k xs of [] \<Rightarrow> NIL | b # _ \<Rightarrow> b)"
  using pred_next [OF ok, of 0 k] chain_above_0(1) [OF ok, of k] NIL_ge by simp

lemma live_ne_NIL: "sl_ok sl xs \<Longrightarrow> n \<in> set xs \<Longrightarrow> n \<noteq> NIL"
  using sl_okD(4,7) [of sl xs] by fastforce

theorem sl_insert_spec:
  assumes rep: "sl_rep sl S" and s: "\<not> is_nan s"
    and cap: "(s, m) \<in> S \<or> capacity_ok node_size (Suc (length (nodes sl)))"
  shows "\<exists>sl'. sl_insert coins s m sl = Some sl' \<and> sl_rep sl' (insert (s, m) S) \<and>
    length (nodes sl') = (if (s, m) \<in> S then length (nodes sl) else Suc (length (nodes sl)))"
proof -
  obtain xs where ok: "sl_ok sl xs" and S: "S = nkey (nodes sl) ` set xs"
    using rep by (auto simp: sl_rep_def)
  let ?ns = "nodes sl" and ?k = "(s, m)" and ?lvl = "random_level coins"
  note ok' = sl_okD [OF ok]
  define u where "u = map (pred_at ?ns ?k xs) [0..<level sl] @ replicate (MAX_LEVEL - level sl) NIL"
  have fu: "find_update ?ns s m (level sl) 0 (replicate MAX_LEVEL NIL) = Some (pred_at ?ns ?k xs 0, u)"
    unfolding u_def by (rule find_update_top [OF ok])
  let ?x = "pred_at ?ns ?k xs 0"
  have x: "idx ?ns ?x = Some (?ns ! ?x)" "idx (forward (?ns ! ?x)) 0 = Some (nxt ?ns 0 ?x)"
    using pred_ok [OF ok NIL_ge(3), of ?k] by (simp_all add: nxt_def height_def)
  note next0 = first_not_below [OF ok, of ?k]
  show ?thesis
  proof (cases "?k \<in> S")
    case True
    then obtain b bs where b: "key_above ?ns ?k xs = b # bs" "nkey ?ns b = ?k"
      using above_hd_iff [OF ok, of ?k] S by auto
    have "b \<in> set xs" using live_split(2) [OF ok, of ?k] b(1) by auto
    then have "sl_insert coins s m sl = Some sl"
      using fu x next0 b ok'(7) live_ne_NIL [OF ok] s
      by (simp add: sl_insert_def f_cmp_not_nan nkey_def)
    then show ?thesis using rep True by (simp add: insert_absorb)
  next
    case False
    obtain u' where u': "(if ?lvl > level sl then fill_heads u (level sl) ?lvl else Some u) = Some u'"
      and take: "take ?lvl u' = map (pred_at ?ns ?k xs) [0..<?lvl]"
      using insert_preds [OF ok random_level_range u_def] by blast
    have c: "capacity_ok node_size (Suc (length ?ns))" using cap False by simp
    let ?ns1 = "?ns @ [fresh_node s m ?lvl]"
    have "\<exists>ns'. link 0 (take ?lvl u') (length ?ns) ?ns1 = Some ns' \<and> same_data ?ns1 ns' \<and>
      (\<forall>j n. nxt ns' j n =
         (if 0 \<le> j \<and> j < 0 + length (take ?lvl u')
          then (if n = length ?ns then nxt ?ns1 j (take ?lvl u' ! (j - 0))
                else if n = take ?lvl u' ! (j - 0) then length ?ns else nxt ?ns1 j n)
          else nxt ?ns1 j n))"
    proof (rule link_spec)
      fix j assume "j < length (take ?lvl u')"
      then have j: "j < ?lvl" "j < MAX_LEVEL" "take ?lvl u' ! j = pred_at ?ns ?k xs j"
        using take random_level_range(2) [of coins] by auto
      show "take ?lvl u' ! j < length ?ns1 \<and> take ?lvl u' ! j \<noteq> length ?ns \<and>
          0 + j < height ?ns1 (take ?lvl u' ! j) \<and> 0 + j < height ?ns1 (length ?ns)"
        using pred_ok [OF ok j(2), of ?k] j snoc_data(2)
        by (auto simp: height_def fresh_node_def nth_append)
    qed simp
    then obtain ns' where l: "link 0 (take ?lvl u') (length ?ns) ?ns1 = Some ns'"
      and sd: "same_data ?ns1 ns'"
      and nx: "\<And>j n. nxt ns' j n =
         (if j < ?lvl then (if n = length ?ns then nxt ?ns1 j (pred_at ?ns ?k xs j)
                else if n = pred_at ?ns ?k xs j then length ?ns else nxt ?ns1 j n)
          else nxt ?ns1 j n)"
      unfolding take by auto
    let ?sl = "\<lparr>nodes = ns', level = max ?lvl (level sl), sl_length = sl_length sl + 1\<rparr>"
    have nodup: "(if nxt ?ns 0 ?x \<noteq> NIL
        then Option.bind (idx ?ns (nxt ?ns 0 ?x)) (\<lambda>n. Some (f_eq (score n) s \<and> member n = m))
        else Some False) = Some False"
      using next0 above_hd_iff [OF ok, of ?k] False S live_split(2) [OF ok, of ?k] ok'(7) live_ne_NIL [OF ok]
      by (auto split: list.splits simp: f_eq_def nkey_def)
    have ins: "sl_insert coins s m sl = Some ?sl"
      using fu x nodup u' l c
      by (simp add: sl_insert_def vec_push_def fresh_node_def Let_def max_def)
    have k: "?k \<notin> nkey ?ns ` set xs" using False S by simp
    have ok2: "sl_ok ?sl (key_below ?ns ?k xs @ length ?ns # key_above ?ns ?k xs)"
      by (rule sl_ok_inserted [OF ok refl c s k random_level_range sd nx])
    have "nkey ns' ` set xs = nkey ?ns ` set xs" "nkey ns' (length ?ns) = ?k"
      using sd snoc_data(3) ok'(7)
      by (auto simp: same_data_def nkey_def fresh_node_def nth_append intro!: image_cong)
    moreover have "set (key_below ?ns ?k xs @ length ?ns # key_above ?ns ?k xs) = insert (length ?ns) (set xs)"
      using below_above [of ?ns ?k xs] by (metis Un_insert_right list.simps(15) set_append)
    ultimately have "sl_rep ?sl (insert ?k S)"
      using ok2 S by (intro sl_repI [OF ok2]) simp
    then show ?thesis using ins sd False by (auto simp: same_data_def)
  qed
qed

subsection \<open>Removal\<close>

lemma above_tail:
  assumes ok: "sl_ok sl xs" and b: "key_above (nodes sl) k xs = t # bs"
  shows "t \<in> set xs" "set bs \<subseteq> set xs" "t \<noteq> 0" "t \<notin> set bs" "t \<notin> set (key_below (nodes sl) k xs)"
    "distinct (0 # key_below (nodes sl) k xs @ t # bs)" "xs = key_below (nodes sl) k xs @ t # bs"
proof -
  show eq: "xs = key_below (nodes sl) k xs @ t # bs"
    using below_above [of "nodes sl" k xs] b by simp
  show "distinct (0 # key_below (nodes sl) k xs @ t # bs)"
    using live_split(3) [OF ok, of k] b by simp
  then show "t \<noteq> 0" "t \<notin> set bs" "t \<notin> set (key_below (nodes sl) k xs)" by auto
  show "t \<in> set xs" "set bs \<subseteq> set xs" using live_split(2) [OF ok, of k] b by auto
qed

lemma remove_path:
  assumes ok: "sl_ok sl xs" and i: "i < MAX_LEVEL"
    and b: "key_above (nodes sl) k xs = t # bs"
    and sd: "same_data (nodes sl) ns'"
    and nx: "\<And>n. nxt ns' i n =
       (if i < height (nodes sl) t \<and> n = pred_at (nodes sl) k xs i then nxt (nodes sl) i t
        else nxt (nodes sl) i n)"
  shows "path (nxt ns' i) 0 (chain ns' i (key_below (nodes sl) k xs @ bs)) NIL"
proof -
  let ?ns = "nodes sl"
  let ?as = "chain ?ns i (key_below ?ns k xs)" and ?bs = "chain ?ns i bs"
  note tl = above_tail [OF ok b]
  have c: "chain ns' i (key_below ?ns k xs @ bs) = ?as @ ?bs"
    using sd by (simp add: chain_append chain_def same_data_height)
  have p: "path (nxt ?ns i) 0 (chain ?ns i (key_below ?ns k xs @ t # bs)) NIL"
    using sl_okD(12) [OF ok i] tl(7) by simp
  show ?thesis
  proof (cases "i < height ?ns t")
    case True
    have "path ((nxt ?ns i)(pred_at ?ns k xs i := nxt ?ns i t)) 0 (?as @ ?bs) NIL"
    proof (rule path_delete)
      show "path (nxt ?ns i) 0 (?as @ t # ?bs) NIL"
        using p True by (simp add: chain_append chain_Cons)
      show "distinct (0 # ?as @ t # ?bs)" using tl(6) by (auto simp: chain_def)
    qed (simp add: pred_at_def)
    moreover have "nxt ns' i = (nxt ?ns i)(pred_at ?ns k xs i := nxt ?ns i t)"
      using nx True by (intro ext) simp
    ultimately show ?thesis using c by simp
  next
    case False
    then have "nxt ns' i = nxt ?ns i" using nx by (intro ext) simp
    then show ?thesis using p c False by (simp add: chain_append chain_Cons)
  qed
qed

lemma sl_ok_removed:
  assumes ok: "sl_ok sl xs" and b: "key_above (nodes sl) k xs = t # bs"
    and sd: "same_data (nodes sl) ns'"
    and nx: "\<And>j n. nxt ns' j n =
       (if j < level sl \<and> j < height (nodes sl) t \<and> n = pred_at (nodes sl) k xs j then nxt (nodes sl) j t
        else nxt (nodes sl) j n)"
    and lev: "1 \<le> lev" "lev \<le> level sl" "\<And>i. lev \<le> i \<Longrightarrow> i < level sl \<Longrightarrow> nxt ns' i 0 = NIL"
  shows "sl_ok \<lparr>nodes = ns', level = lev, sl_length = sl_length sl - 1\<rparr> (key_below (nodes sl) k xs @ bs)"
proof -
  let ?ns = "nodes sl" and ?ys = "key_below (nodes sl) k xs @ bs"
  note ok' = sl_okD [OF ok] and tl = above_tail [OF ok b]
  have sub: "set ?ys \<subseteq> set xs" using tl(2) live_split(1) [OF ok] by auto
  have paths: "path (nxt ns' i) 0 (chain ns' i ?ys) NIL" if i: "i < MAX_LEVEL" for i
    by (rule remove_path [OF ok i b sd]) (use nx ok'(9) [OF tl(1)] in auto)
  have low: "height ?ns n \<le> lev" if n: "n \<in> set ?ys" for n
  proof (rule ccontr)
    assume "\<not> height ?ns n \<le> lev"
    then have h: "lev < height ns' n" using sd by (simp add: same_data_def)
    moreover have "height ns' n \<le> level sl" using ok'(9) n sub sd by (auto simp: same_data_def)
    ultimately have "lev < level sl" by simp
    then have nil: "nxt ns' lev 0 = NIL" and "lev < MAX_LEVEL" using lev(3) ok'(2) by auto
    moreover have "n \<in> set (chain ns' lev ?ys)" using h n by (simp add: set_chain)
    then obtain y ys where y: "chain ns' lev ?ys = y # ys" by (cases "chain ns' lev ?ys") auto
    ultimately have "y = NIL" using paths by fastforce
    moreover have "y \<in> set ?ys" using y by (metis list.set_intros(1) mem_Collect_eq set_chain)
    ultimately show False using live_ne_NIL [OF ok] sub by blast
  qed
  have "sorted_wrt (<) (map (nkey ?ns) (key_below ?ns k xs @ t # bs))"
    using ok'(11) tl(7) by simp
  then have "sorted_wrt (<) (map (nkey ns') ?ys)"
    by (simp add: sorted_wrt_append same_data_key [OF sd])
  moreover have "length xs = Suc (length ?ys)"
    using arg_cong [OF tl(7), of length] by simp
  moreover have "\<forall>n\<in>set ?ys. n < length ns' \<and> 1 \<le> height ns' n \<and> height ns' n \<le> lev \<and>
      \<not> is_nan (score (ns' ! n))"
    using low ok'(7,8,10) sub sd by (auto simp: same_data_def)
  moreover have "distinct (0 # ?ys)" using tl(6) by auto
  moreover have "ns' \<noteq> []" using sd ok'(3) by (auto simp: same_data_def)
  ultimately show ?thesis
    unfolding sl_ok_def using paths lev ok' sd
    by (simp add: same_data_key same_data_def del: distinct.simps map_append)
qed

lemma pred_hits_target:
  assumes ok: "sl_ok sl xs" and i: "i < MAX_LEVEL" and b: "key_above (nodes sl) k xs = t # bs"
  shows "nxt (nodes sl) i (pred_at (nodes sl) k xs i) = t \<longleftrightarrow> i < height (nodes sl) t"
proof -
  have "chain (nodes sl) i bs \<noteq> [] \<Longrightarrow> hd (chain (nodes sl) i bs) \<in> set bs"
    by (metis list.set_sel(1) mem_Collect_eq set_chain)
  then show ?thesis
    using pred_next [OF ok i, of k] b above_tail(1,4) [OF ok b] live_ne_NIL [OF ok]
    by (auto simp: chain_Cons split: list.splits)
qed

theorem sl_remove_spec:
  assumes rep: "sl_rep sl S" and s: "\<not> is_nan s"
  shows "\<exists>sl'. sl_remove s m sl = Some ((s, m) \<in> S, sl') \<and> sl_rep sl' (S - {(s, m)}) \<and>
    length (nodes sl') = length (nodes sl)"
proof -
  obtain xs where ok: "sl_ok sl xs" and S: "S = nkey (nodes sl) ` set xs"
    using rep by (auto simp: sl_rep_def)
  let ?ns = "nodes sl" and ?k = "(s, m)"
  note ok' = sl_okD [OF ok]
  define u where "u = map (pred_at ?ns ?k xs) [0..<level sl] @ replicate (MAX_LEVEL - level sl) NIL"
  have fu: "find_update ?ns s m (level sl) 0 (replicate MAX_LEVEL NIL) = Some (pred_at ?ns ?k xs 0, u)"
    unfolding u_def by (rule find_update_top [OF ok])
  let ?x = "pred_at ?ns ?k xs 0"
  have x: "idx ?ns ?x = Some (?ns ! ?x)" "idx (forward (?ns ! ?x)) 0 = Some (nxt ?ns 0 ?x)"
    using pred_ok [OF ok NIL_ge(3), of ?k] by (simp_all add: nxt_def height_def)
  note next0 = first_not_below [OF ok, of ?k]
  show ?thesis
  proof (cases "?k \<in> S")
    case False
    then have "sl_remove s m sl = Some (False, sl)"
      using fu x next0 above_hd_iff [OF ok, of ?k] S live_split(2) [OF ok, of ?k] ok'(7)
      by (auto simp: sl_remove_def f_eq_def nkey_def split: list.splits)
    then show ?thesis using rep False by simp
  next
    case True
    then obtain t bs where b: "key_above ?ns ?k xs = t # bs" and kt: "nkey ?ns t = ?k"
      using above_hd_iff [OF ok, of ?k] S by auto
    note tl = above_tail [OF ok b]
    have take: "take (level sl) u = map (pred_at ?ns ?k xs) [0..<level sl]"
      unfolding u_def by simp
    have "\<exists>ns'. unlink 0 (take (level sl) u) t ?ns = Some ns' \<and> same_data ?ns ns' \<and>
      (\<forall>j n. nxt ns' j n =
         (if 0 \<le> j \<and> j < 0 + length (take (level sl) u) \<and> j < height ?ns t \<and>
             n = take (level sl) u ! (j - 0) then nxt ?ns j t else nxt ?ns j n))"
    proof (rule unlink_spec)
      show "t < length ?ns" using ok'(7) tl(1) .
      fix j assume "j < length (take (level sl) u)"
      then have j: "j < level sl" "j < MAX_LEVEL" "take (level sl) u ! j = pred_at ?ns ?k xs j"
        using take ok'(2) by auto
      moreover have "pred_at ?ns ?k xs j \<noteq> t"
        using tl(3,5) last_Cons_filter_in [of 0 "\<lambda>n. j < height ?ns n" "key_below ?ns ?k xs"]
        unfolding pred_at_def chain_def by fastforce
      ultimately show "take (level sl) u ! j < length ?ns \<and> take (level sl) u ! j \<noteq> t \<and>
          0 + j < height ?ns (take (level sl) u ! j) \<and>
          (nxt ?ns (0 + j) (take (level sl) u ! j) = t \<longleftrightarrow> 0 + j < height ?ns t)"
        using pred_ok [OF ok j(2), of ?k] pred_hits_target [OF ok j(2) b] by simp
    qed
    then obtain ns' where l: "unlink 0 (take (level sl) u) t ?ns = Some ns'"
      and sd: "same_data ?ns ns'"
      and nx: "\<And>j n. nxt ns' j n =
         (if j < level sl \<and> j < height ?ns t \<and> n = pred_at ?ns ?k xs j then nxt ?ns j t else nxt ?ns j n)"
      unfolding take by (auto cong: conj_cong)
    have "level sl \<le> height ns' 0" "ns' \<noteq> []"
      using sd ok'(2,3,5) by (auto simp: same_data_def)
    then obtain lev where lev: "lower_level ns' (level sl) = Some lev" "1 \<le> lev" "lev \<le> level sl"
      "\<And>i. lev \<le> i \<Longrightarrow> i < level sl \<Longrightarrow> nxt ns' i 0 = NIL"
      using lower_level_spec [OF ok'(1)] by blast
    let ?sl = "\<lparr>nodes = ns', level = lev, sl_length = sl_length sl - 1\<rparr>"
    have rem: "sl_remove s m sl = Some (True, ?sl)"
      using fu x next0 b kt l lev(1) ok'(7) [OF tl(1)] live_ne_NIL [OF ok tl(1)] s
      by (simp add: sl_remove_def nkey_def f_cmp_not_nan)
    have ok2: "sl_ok ?sl (key_below ?ns ?k xs @ bs)"
      by (rule sl_ok_removed [OF ok b sd nx lev(2-4)])
    have "nkey ?ns ` set (key_below ?ns ?k xs @ bs) = nkey ?ns ` set xs - {?k}"
    proof -
      have "distinct (map (nkey ?ns) xs)"
        using ok'(11) by (rule strict_sorted_iff [THEN iffD1, THEN conjunct2])
      then have "distinct (map (nkey ?ns) (key_below ?ns ?k xs @ t # bs))" using tl(7) by simp
      moreover have "set xs = insert t (set (key_below ?ns ?k xs @ bs))"
        using tl(7) by (metis Un_insert_right list.simps(15) set_append)
      ultimately show ?thesis using kt by auto
    qed
    then have "sl_rep ?sl (S - {?k})"
      using S by (intro sl_repI [OF ok2]) (simp add: same_data_key [OF sd])
    then show ?thesis using rem sd True by (auto simp: same_data_def)
  qed
qed

subsection \<open>Rank and traversal\<close>

lemma chain_0_path:
  assumes ok: "sl_ok sl xs"
  shows "path (nxt (nodes sl) 0) 0 xs NIL"
  using sl_okD(12) [OF ok NIL_ge(3)] chain_above_0(2) [OF ok] by simp

lemma level0_ptr:
  assumes ok: "sl_ok sl xs"
  shows "idx (nodes sl) 0 = Some (nodes sl ! 0)"
    "idx (forward (nodes sl ! 0)) 0 = Some (nxt (nodes sl) 0 0)"
    "\<And>n. n \<in> set xs \<Longrightarrow> idx (nodes sl) n = Some (nodes sl ! n)"
    "\<And>n. n \<in> set xs \<Longrightarrow> idx (forward (nodes sl ! n)) 0 = Some (nxt (nodes sl) 0 n)"
  using sl_okD(3,5,7,8) [OF ok] NIL_ge(3) by (auto simp: nxt_def height_def Suc_le_eq idx_def)

definition item :: "node list \<Rightarrow> nat \<Rightarrow> string \<times> f64" where
  "item ns n = (member (ns ! n), score (ns ! n))"

lemma iter_from_chain:
  assumes ok: "sl_ok sl xs" and "set ys \<subseteq> set xs" "path (nxt (nodes sl) 0) x ys NIL"
  shows "iter_from (nodes sl) (nxt (nodes sl) 0 x) = Some (map (item (nodes sl)) ys)"
    "chain_from (nodes sl) (nxt (nodes sl) 0 x) = Some ys"
  using assms(2,3)
proof (induction ys arbitrary: x)
  case Nil
  case 1
  with Nil show ?case by (subst iter_from.simps) simp
  case 2
  with Nil show ?case by (subst chain_from.simps) simp
next
  case (Cons y ys)
  have y: "y \<in> set xs \<Longrightarrow> y \<noteq> NIL" by (rule live_ne_NIL [OF ok])
  case 1
  with Cons.IH(1) [of y] y show ?case
    by (subst iter_from.simps) (simp add: level0_ptr [OF ok] item_def)
  case 2
  with Cons.IH(2) [of y] y show ?case
    by (subst chain_from.simps) (simp add: level0_ptr [OF ok])
qed

lemma read_items_chain:
  assumes ok: "sl_ok sl xs" and "set ys \<subseteq> set xs"
  shows "read_items (nodes sl) ys = Some (map (item (nodes sl)) ys)"
  using assms(2) by (induction ys) (auto simp: level0_ptr [OF ok] item_def)

lemma items_sorted:
  "sl_ok sl xs \<Longrightarrow> map (item (nodes sl)) xs = sorted_items (nkey (nodes sl) ` set xs)"
  unfolding sorted_items_def sl_ok_keys_sorted [symmetric]
  by (simp add: item_def nkey_def comp_def)

theorem sl_iter_spec:
  assumes "sl_rep sl S"
  shows "sl_iter sl = Some (sorted_items S)" "sl_iter_rev sl = Some (rev (sorted_items S))"
proof -
  obtain xs where ok: "sl_ok sl xs" and S: "S = nkey (nodes sl) ` set xs"
    using assms by (auto simp: sl_rep_def)
  note it = iter_from_chain [OF ok subset_refl chain_0_path [OF ok]]
  show "sl_iter sl = Some (sorted_items S)"
    using it(1) items_sorted [OF ok] S by (simp add: sl_iter_def level0_ptr [OF ok])
  show "sl_iter_rev sl = Some (rev (sorted_items S))"
    using it(2) items_sorted [OF ok] S read_items_chain [OF ok, of "rev xs"]
    by (simp add: sl_iter_rev_def level0_ptr [OF ok] rev_map [symmetric])
qed

lemma sl_len_spec: "sl_rep sl S \<Longrightarrow> sl_len sl = card S"
proof -
  assume "sl_rep sl S"
  then obtain xs where ok: "sl_ok sl xs" and S: "S = nkey (nodes sl) ` set xs"
    by (auto simp: sl_rep_def)
  have "distinct (map (nkey (nodes sl)) xs)"
    using sl_okD(11) [OF ok] by (simp add: strict_sorted_iff)
  then have "card S = length xs" using S distinct_card [of "map (nkey (nodes sl)) xs"] by simp
  then show ?thesis using sl_okD(13) [OF ok] by (simp add: sl_len_def)
qed

lemma rank_from_chain:
  assumes ok: "sl_ok sl xs" and "set ys \<subseteq> set xs" "path (nxt (nodes sl) 0) x ys NIL"
  shows "rank_from (nodes sl) s m r (nxt (nodes sl) 0 x) =
    Some (case dropWhile (\<lambda>n. nkey (nodes sl) n < (s, m)) ys of [] \<Rightarrow> None
          | b # _ \<Rightarrow> if nkey (nodes sl) b = (s, m)
             then Some (r + length (takeWhile (\<lambda>n. nkey (nodes sl) n < (s, m)) ys)) else None)"
  using assms(2,3)
proof (induction ys arbitrary: x r)
  case Nil
  then show ?case by (subst rank_from.simps) simp
next
  case (Cons y ys)
  let ?c = "key_cmp (score (nodes sl ! y)) (member (nodes sl ! y)) s m"
  have y: "nxt (nodes sl) 0 x = y" "y \<noteq> NIL" "y \<in> set xs"
    using Cons.prems live_ne_NIL [OF ok, of y] by auto
  have IH: "rank_from (nodes sl) s m (r + 1) (nxt (nodes sl) 0 y) = Some (case dropWhile (\<lambda>n. nkey (nodes sl) n < (s, m)) ys of [] \<Rightarrow> None
          | b # _ \<Rightarrow> if nkey (nodes sl) b = (s, m)
             then Some (r + 1 + length (takeWhile (\<lambda>n. nkey (nodes sl) n < (s, m)) ys)) else None)"
    by (rule Cons.IH) (use Cons.prems in auto)
  have unf: "rank_from (nodes sl) s m r y =
      (case ?c of Less \<Rightarrow> rank_from (nodes sl) s m (r + 1) (nxt (nodes sl) 0 y)
       | Equal \<Rightarrow> Some (Some r) | Greater \<Rightarrow> Some None)"
    using y by (subst rank_from.simps) (simp add: level0_ptr [OF ok] split: ordering.splits)
  show ?case
  proof (cases ?c)
    case Less
    then have "nkey (nodes sl) y < (s, m)" by (simp only: key_cmp_iff)
    then show ?thesis using y(1) unf Less IH
      by (cases "dropWhile (\<lambda>n. nkey (nodes sl) n < (s, m)) ys")
         (simp_all del: dropWhile_eq_Nil_conv)
  next
    case Equal
    then have "nkey (nodes sl) y = (s, m)" by (simp only: key_cmp_iff)
    then show ?thesis using y(1) unf Equal by simp
  next
    case Greater
    then have "\<not> nkey (nodes sl) y < (s, m)" "nkey (nodes sl) y \<noteq> (s, m)"
      using key_cmp_iff [of "nodes sl" y s m] by auto
    then show ?thesis using y(1) unf Greater by simp
  qed
qed

theorem sl_rank_of_spec:
  assumes "sl_rep sl S"
  shows "sl_rank_of s m sl = Some (if (s, m) \<in> S then Some (card {k \<in> S. k < (s, m)}) else None)"
proof -
  obtain xs where ok: "sl_ok sl xs" and S: "S = nkey (nodes sl) ` set xs"
    using assms by (auto simp: sl_rep_def)
  let ?ns = "nodes sl" and ?k = "(s, m)"
  have "{k \<in> S. k < ?k} = nkey ?ns ` set (key_below ?ns ?k xs)"
  proof
    have "set xs = set (key_below ?ns ?k xs) \<union> set (key_above ?ns ?k xs)"
      by (simp add: set_append [symmetric] below_above del: set_append)
    then show "{k \<in> S. k < ?k} \<subseteq> nkey ?ns ` set (key_below ?ns ?k xs)"
      using S above_ge [OF sl_okD(11) [OF ok], of _ ?k] by blast
    show "nkey ?ns ` set (key_below ?ns ?k xs) \<subseteq> {k \<in> S. k < ?k}"
      using S live_split(1) [OF ok, of ?k] below_less [of _ ?ns ?k xs] by blast
  qed
  moreover have "card (nkey ?ns ` set (key_below ?ns ?k xs)) = length (key_below ?ns ?k xs)"
  proof -
    have "sorted_wrt (<) (map (nkey ?ns) (key_below ?ns ?k xs @ key_above ?ns ?k xs))"
      using sl_okD(11) [OF ok] by (simp add: below_above del: map_append)
    then have "distinct (map (nkey ?ns) (key_below ?ns ?k xs))"
      by (simp add: sorted_wrt_append strict_sorted_iff)
    then show ?thesis using distinct_card by fastforce
  qed
  ultimately have card: "card {k \<in> S. k < ?k} = length (key_below ?ns ?k xs)" by simp
  have "sl_rank_of s m sl = Some (case key_above ?ns ?k xs of [] \<Rightarrow> None
      | b # _ \<Rightarrow> if nkey ?ns b = ?k then Some (length (key_below ?ns ?k xs)) else None)"
    using rank_from_chain [OF ok subset_refl chain_0_path [OF ok], of s m 0]
    unfolding key_above_def [symmetric] key_below_def [symmetric] add_0
    by (simp add: sl_rank_of_def level0_ptr [OF ok])
  then show ?thesis
    using above_hd_iff [OF ok, of ?k] S card by (cases "key_above ?ns ?k xs") auto
qed

lemma sl_card_bound:
  assumes "sl_rep sl S"
  shows "card S < isize_max"
proof -
  obtain xs where ok: "sl_ok sl xs" and S: "S = nkey (nodes sl) ` set xs"
    using assms by (auto simp: sl_rep_def)
  have "set xs \<subseteq> {1..<length (nodes sl)}" using sl_okD(6,7) [OF ok] by (auto simp: Suc_le_eq intro: gr0I)
  then have "card (set xs) \<le> length (nodes sl) - 1" using card_mono [of "{1..<length (nodes sl)}"] by fastforce
  then have "card S \<le> length (nodes sl) - 1"
    using S card_image_le [of "set xs" "nkey (nodes sl)"] by simp
  moreover have "length (nodes sl) * 56 \<le> isize_max"
    using sl_okD(14) [OF ok] by (simp add: capacity_ok_def node_size_def)
  ultimately show ?thesis using isize_max_def by linarith
qed

subsection \<open>The skip list provides the ordered index\<close>

text \<open>How many more nodes the arena can hold.\<close>

definition sl_room :: "skiplist \<Rightarrow> nat" where
  "sl_room sl = isize_max div node_size - length (nodes sl)"

lemma sl_room_capacity: "0 < sl_room sl \<longleftrightarrow> capacity_ok node_size (Suc (length (nodes sl)))"
proof -
  have "Suc (length (nodes sl)) \<le> isize_max div node_size \<longleftrightarrow>
      Suc (length (nodes sl)) * node_size \<le> isize_max"
    by (rule less_eq_div_iff_mult_less_eq) (simp add: node_size_def)
  then show ?thesis by (simp add: sl_room_def capacity_ok_def Suc_le_eq)
qed

text \<open>
  On a well-formed list \<^theory_text>\<open>None\<close> is a panic and never a search without end: the search for a place always
  returns, and an insertion fails only when the key is new and the arena is full.
\<close>

lemma searches_end: "sl_rep sl S \<Longrightarrow> find_update (nodes sl) s m (level sl) 0 (replicate MAX_LEVEL NIL) \<noteq> None"
  using find_update_top by (fastforce simp: sl_rep_def)

lemma sl_insert_full:
  assumes rep: "sl_rep sl S" and full: "(s, m) \<notin> S" "\<not> capacity_ok node_size (Suc (length (nodes sl)))"
  shows "sl_insert cs s m sl = None"
proof -
  obtain xs where ok: "sl_ok sl xs" and S: "S = nkey (nodes sl) ` set xs"
    using rep by (auto simp: sl_rep_def)
  have push: "vec_push node_size (nodes sl) x = None" for x
    using full by (simp add: vec_push_def)
  let ?ns = "nodes sl" and ?k = "(s, m)"
  let ?x = "pred_at ?ns ?k xs 0"
  have x: "idx ?ns ?x = Some (?ns ! ?x)" "idx (forward (?ns ! ?x)) 0 = Some (nxt ?ns 0 ?x)"
    using pred_ok [OF ok NIL_ge(3), of ?k] by (simp_all add: nxt_def height_def)
  have nodup: "(if nxt ?ns 0 ?x \<noteq> NIL
        then Option.bind (idx ?ns (nxt ?ns 0 ?x)) (\<lambda>n. Some (f_eq (score n) s \<and> member n = m))
        else Some False) = Some False"
    using first_not_below [OF ok, of ?k] above_hd_iff [OF ok, of ?k] full S
      live_split(2) [OF ok, of ?k] sl_okD(7) [OF ok] live_ne_NIL [OF ok]
    by (auto split: list.splits simp: f_eq_def nkey_def)
  show ?thesis
    using find_update_top [OF ok, of s m] x nodup push by (simp add: sl_insert_def Let_def)
qed

lemma sl_insert_panics:
  assumes "sl_rep sl S" "\<not> is_nan s"
  shows "sl_insert cs s m sl = None \<longleftrightarrow> (s, m) \<notin> S \<and> \<not> capacity_ok node_size (Suc (length (nodes sl)))"
  using sl_insert_full [OF assms(1), of s m cs] sl_insert_spec [OF assms, of m cs] by fastforce

lemma sl_insert_rep:
  assumes "sl_rep sl S" "\<not> is_nan s" "sl_insert cs s m sl = Some sl'"
  shows "sl_rep sl' (insert (s, m) S)"
  using sl_insert_spec [OF assms(1,2), of m cs] sl_insert_panics [OF assms(1,2), of cs m] assms(3) by auto

interpretation slx: ordered_index sl_rep sl_room sl_insert sl_remove sl_rank_of sl_iter sl_iter_rev
proof unfold_locales
  fix sl S s m
  show "sl_rep sl S \<Longrightarrow> finite S" by (rule sl_rep_finite)
  show "sl_rep sl S \<Longrightarrow> (s, m) \<in> S \<Longrightarrow> \<not> is_nan s"
    by (auto simp: sl_rep_def nkey_def dest: sl_okD(10))
  show "sl_rep sl S \<Longrightarrow> \<not> is_nan s \<Longrightarrow> 0 < sl_room sl \<Longrightarrow>
      \<exists>sl'. sl_insert cs s m sl = Some sl' \<and> sl_rep sl' (insert (s, m) S) \<and>
        sl_room sl \<le> Suc (sl_room sl')" for cs
    using sl_insert_spec [of sl S s m cs] by (auto simp: sl_room_capacity [symmetric] sl_room_def)
  show "sl_rep sl S \<Longrightarrow> \<not> is_nan s \<Longrightarrow> sl_insert cs s m sl = Some sl' \<Longrightarrow>
      sl_rep sl' (insert (s, m) S)" for cs sl'
    by (rule sl_insert_rep)
  show "sl_rep sl S \<Longrightarrow> \<not> is_nan s \<Longrightarrow>
      \<exists>sl'. sl_remove s m sl = Some ((s, m) \<in> S, sl') \<and> sl_rep sl' (S - {(s, m)}) \<and>
        sl_room sl' = sl_room sl"
    using sl_remove_spec [of sl S s m] by (auto simp: sl_room_def)
  show "sl_rep sl S \<Longrightarrow>
      sl_rank_of s m sl = Some (if (s, m) \<in> S then Some (card {k \<in> S. k < (s, m)}) else None)"
    by (rule sl_rank_of_spec)
  show "sl_rep sl S \<Longrightarrow> sl_iter sl = Some (sorted_items S)"
    "sl_rep sl S \<Longrightarrow> sl_iter_rev sl = Some (rev (sorted_items S))"
    by (rule sl_iter_spec; assumption)+
qed

subsection \<open>Histories\<close>

text \<open>
  Any sequence of insertions and removals, run on the skip list and on the set of keys it stands
  for.
\<close>

datatype sl_op = SlInsert "bool list" f64 string | SlRemove f64 string

fun op_score :: "sl_op \<Rightarrow> f64" where
  "op_score (SlInsert _ s _) = s"
| "op_score (SlRemove s _) = s"

fun sl_run :: "sl_op list \<Rightarrow> skiplist \<Rightarrow> skiplist option" where
  "sl_run [] l = Some l"
| "sl_run (SlInsert coins s m # ops) l = Option.bind (sl_insert coins s m l) (sl_run ops)"
| "sl_run (SlRemove s m # ops) l = Option.bind (sl_remove s m l) (\<lambda>(_, l'). sl_run ops l')"

fun set_run :: "sl_op list \<Rightarrow> (f64 \<times> string) set \<Rightarrow> (f64 \<times> string) set" where
  "set_run [] S = S"
| "set_run (SlInsert _ s m # ops) S = set_run ops (insert (s, m) S)"
| "set_run (SlRemove s m # ops) S = set_run ops (S - {(s, m)})"

lemma sl_run_rep:
  assumes "sl_rep l S" "\<And>p. p \<in> set ops \<Longrightarrow> \<not> is_nan (op_score p)" "length ops \<le> sl_room l"
  shows "\<exists>l'. sl_run ops l = Some l' \<and> sl_rep l' (set_run ops S)"
  using assms
proof (induction ops l arbitrary: S rule: sl_run.induct)
  case (2 coins s m ops l)
  obtain l1 where l1: "sl_insert coins s m l = Some l1" "sl_rep l1 (insert (s, m) S)" "sl_room l \<le> Suc (sl_room l1)"
    using slx.ins_spec [OF "2.prems"(1), of s coins m] "2.prems"(2) [of "SlInsert coins s m"] "2.prems"(3) by auto
  show ?case using "2.IH" [OF l1(1,2)] "2.prems"(2,3) l1(1,3) by auto
next
  case (3 s m ops l)
  obtain l1 where l1: "sl_remove s m l = Some ((s, m) \<in> S, l1)" "sl_rep l1 (S - {(s, m)})" "sl_room l1 = sl_room l"
    using slx.del_spec [OF "3.prems"(1), of s m] "3.prems"(2) [of "SlRemove s m"] by auto
  show ?case using "3.IH" [OF l1(1) refl l1(2)] "3.prems"(2,3) l1(1,3) by auto
qed simp

text \<open>C2: The skip list is an ordered set: after any history of insertions and removals that its node
  arena has room for, whatever random levels were drawn, it has not panicked or looped, forward and
  backward iteration list exactly the keys of the history in order and in reverse order, the length
  is their number, the rank of a key is the number of keys below it, and removal answers whether
  the key was there.\<close>

theorem skiplist_is_ordered_set:
  assumes nan: "\<And>p. p \<in> set ops \<Longrightarrow> \<not> is_nan (op_score p)"
    and room: "length ops < isize_max div node_size"
  shows "\<exists>l. sl_run ops sl_new = Some l \<and>
    (let S = set_run ops {} in
       sl_iter l = Some (sorted_items S) \<and> sl_iter_rev l = Some (rev (sorted_items S)) \<and>
       sl_len l = card S \<and> (sl_is_empty l \<longleftrightarrow> S = {}) \<and>
       (\<forall>s m. sl_rank_of s m l = Some (if (s, m) \<in> S then Some (card {k \<in> S. k < (s, m)}) else None)) \<and>
       (\<forall>s m. \<not> is_nan s \<longrightarrow> (\<exists>l'. sl_remove s m l = Some ((s, m) \<in> S, l'))))"
proof -
  have "length ops \<le> sl_room sl_new" using room by (simp add: sl_room_def sl_new_def)
  then obtain l where l: "sl_run ops sl_new = Some l" "sl_rep l (set_run ops {})"
    using sl_run_rep [OF sl_new_rep nan] by blast
  have "finite (set_run ops {})" by (rule sl_rep_finite [OF l(2)])
  moreover have "\<exists>l'. sl_remove s m l = Some ((s, m) \<in> set_run ops {}, l')" if "\<not> is_nan s" for s m
    using slx.del_spec [OF l(2) that] by blast
  ultimately show ?thesis
    using l(1) slx.asc_spec [OF l(2)] slx.desc_spec [OF l(2)] slx.rank_spec [OF l(2)]
      sl_len_spec [OF l(2)]
    by (auto simp: Let_def sl_is_empty_def sl_len_def)
qed

theorem skiplist_is_ordered_set_witness:
  "\<exists>l. sl_run [SlInsert [True] (Fin 2) ''b'', SlInsert [] (Fin 1) ''a'', SlRemove (Fin 2) ''b''] sl_new = Some l \<and>
     sl_len l = 1"
proof -
  let ?ops = "[SlInsert [True] (Fin 2) ''b'', SlInsert [] (Fin 1) ''a'', SlRemove (Fin 2) ''b'']"
  have "\<not> is_nan (op_score p)" if "p \<in> set ?ops" for p using that by (auto simp: is_nan_def)
  moreover have "set_run ?ops {} = {(Fin 1, ''a'')}" by auto
  ultimately show ?thesis
    using skiplist_is_ordered_set [of ?ops] by (auto simp: Let_def isize_max_def node_size_def simp del: sl_run.simps)
qed

end
