(* ===== verification/Text.thy ===== *)
theory Text imports Prelude "HOL-Library.Code_Target_Nat" begin

text \<open>
  What the program uses of Rust's text handling: UTF-8 validity (\<open>std::str::from_utf8\<close>), the
  replacing decoder (\<open>String::from_utf8_lossy\<close>), \<open>trim\<close>, \<open>split_ascii_whitespace\<close>,
  \<open>to_uppercase\<close>, and the decimal forms of \<open>i64\<close>.  Text is a byte string in UTF-8.
\<close>

definition byte_of :: "char \<Rightarrow> nat" where
  "byte_of c = of_char c"

definition chr :: "nat \<Rightarrow> char" where
  "chr n = char_of n"

lemma byte_of_less [simp]: "byte_of c < 256"
  by (simp add: byte_of_def)

lemma byte_of_chr [simp]: "n < 256 \<Longrightarrow> byte_of (chr n) = n"
  by (simp add: byte_of_def chr_def)

lemma chr_byte_of [simp]: "chr (byte_of c) = c"
  by (simp add: byte_of_def chr_def)

lemma byte_of_eq_iff [simp]: "byte_of c = byte_of d \<longleftrightarrow> c = d"
  by (simp add: byte_of_def)

subsection \<open>UTF-8\<close>

text \<open>The byte at a position, 0 past the end (\<open>safe_get\<close> of the standard library's validator).\<close>

definition nb :: "string \<Rightarrow> nat \<Rightarrow> nat" where
  "nb s i = (if i < length s then byte_of (s ! i) else 0)"

definition cont :: "nat \<Rightarrow> bool" where
  "cont b \<longleftrightarrow> 128 \<le> b \<and> b < 192"

text \<open>The range of the second byte of a three- or four-byte sequence, by its first byte.\<close>

definition second_ok :: "nat \<Rightarrow> nat \<Rightarrow> bool" where
  "second_ok a b \<longleftrightarrow>
     (if a = 224 then 160 \<le> b \<and> b < 192
      else if a = 237 then 128 \<le> b \<and> b < 160
      else if a = 240 then 144 \<le> b \<and> b < 192
      else if a = 244 then 128 \<le> b \<and> b < 144
      else cont b)"

text \<open>
  The first scalar value of a nonempty text: \<open>Inr n\<close>, a well-formed sequence of \<open>n\<close> bytes, or
  \<open>Inl n\<close>, an ill-formed one whose maximal subpart has \<open>n\<close> bytes.
\<close>

definition utf8_head :: "string \<Rightarrow> nat + nat" where
  "utf8_head s =
     (if nb s 0 < 128 then Inr 1
      else if 194 \<le> nb s 0 \<and> nb s 0 < 224 then (if cont (nb s 1) then Inr 2 else Inl 1)
      else if 224 \<le> nb s 0 \<and> nb s 0 < 240 then
        (if second_ok (nb s 0) (nb s 1) then (if cont (nb s 2) then Inr 3 else Inl 2) else Inl 1)
      else if 240 \<le> nb s 0 \<and> nb s 0 < 245 then
        (if second_ok (nb s 0) (nb s 1)
         then (if cont (nb s 2) then (if cont (nb s 3) then Inr 4 else Inl 3) else Inl 2)
         else Inl 1)
      else Inl 1)"

lemma nb_ge: "128 \<le> nb s i \<Longrightarrow> i < length s"
  by (simp add: nb_def split: if_splits)

lemma cont_len: "cont (nb s i) \<Longrightarrow> i < length s"
  by (simp add: cont_def nb_ge)

lemma second_len: "second_ok a (nb s i) \<Longrightarrow> i < length s"
  by (rule nb_ge) (auto simp: second_ok_def cont_def split: if_splits)

lemma nb_take_append: "i < n \<Longrightarrow> n \<le> length s \<Longrightarrow> nb (take n s @ t) i = nb s i"
  by (simp add: nb_def nth_append)

lemma utf8_head_cases:
  "utf8_head s = Inr n \<Longrightarrow> n = 1 \<or> n = 2 \<and> cont (nb s 1) \<or> n = 3 \<and> cont (nb s 2) \<or> n = 4 \<and> cont (nb s 3)"
  "utf8_head s = Inl n \<Longrightarrow> n = 1 \<or> n = 2 \<and> second_ok (nb s 0) (nb s 1) \<or> n = 3 \<and> cont (nb s 2)"
  unfolding utf8_head_def by (simp_all only: split: if_split_asm) simp_all

lemma utf8_head_len:
  assumes "s \<noteq> []"
  shows "utf8_head s = Inr n \<Longrightarrow> n \<le> length s" "utf8_head s = Inl n \<Longrightarrow> n \<le> length s"
  using assms utf8_head_cases [of s n] cont_len [of s 1] cont_len [of s 2] cont_len [of s 3]
    second_len [of "nb s 0" s 1]
  by (auto simp: Suc_le_eq)

definition head_len :: "string \<Rightarrow> nat" where
  "head_len s = (case utf8_head s of Inl n \<Rightarrow> n | Inr n \<Rightarrow> n)"

lemma head_len_pos: "0 < head_len s"
  by (simp add: head_len_def utf8_head_def)

lemma head_len_le: "s \<noteq> [] \<Longrightarrow> head_len s \<le> length s"
  using utf8_head_len [of s] by (simp add: head_len_def split: sum.splits)

function utf8_valid :: "string \<Rightarrow> bool" where
  "utf8_valid s \<longleftrightarrow>
     (if s = [] then True
      else case utf8_head s of Inl n \<Rightarrow> False | Inr n \<Rightarrow> utf8_valid (drop n s))"
  by pat_completeness auto
termination
proof (relation "measure length")
  fix s :: string and n
  assume "s \<noteq> []" "utf8_head s = Inr n"
  then show "(drop n s, s) \<in> measure length"
    using head_len_pos [of s] by (simp add: head_len_def)
qed simp

text \<open>\<open>String::from_utf8_lossy\<close>: each ill-formed maximal subpart becomes U+FFFD.\<close>

definition replacement :: string where
  "replacement = [chr 239, chr 191, chr 189]"

function from_utf8_lossy :: "string \<Rightarrow> string" where
  "from_utf8_lossy s =
     (if s = [] then []
      else (case utf8_head s of Inl n \<Rightarrow> replacement | Inr n \<Rightarrow> take n s) @
           from_utf8_lossy (drop (head_len s) s))"
  by pat_completeness auto
termination
  by (relation "measure length") (use head_len_pos in auto)

declare utf8_valid.simps [simp del] from_utf8_lossy.simps [simp del]

text \<open>\<open>std::str::from_utf8\<close>.\<close>

definition from_utf8 :: "string \<Rightarrow> string option" where
  "from_utf8 b = (if utf8_valid b then Some b else None)"

lemma utf8_valid_Nil [simp]: "utf8_valid []"
  by (subst utf8_valid.simps) simp

lemma from_utf8_lossy_Nil [simp]: "from_utf8_lossy [] = []"
  by (subst from_utf8_lossy.simps) simp

lemma utf8_valid_step:
  "s \<noteq> [] \<Longrightarrow> utf8_head s = Inr n \<Longrightarrow> utf8_valid s \<longleftrightarrow> utf8_valid (drop n s)"
  by (subst utf8_valid.simps) simp

lemma from_utf8_lossy_valid: "utf8_valid s \<Longrightarrow> from_utf8_lossy s = s"
proof (induction s rule: from_utf8_lossy.induct)
  case (1 s)
  show ?case
  proof (cases "s = []")
    case False
    then obtain n where n: "utf8_head s = Inr n" "utf8_valid (drop n s)"
      using "1.prems" by (subst (asm) utf8_valid.simps) (auto split: sum.splits)
    then have "head_len s = n" by (simp add: head_len_def)
    then show ?thesis using False n "1.IH" by (subst from_utf8_lossy.simps) simp
  qed simp
qed

lemma utf8_head_agree:
  assumes "utf8_head s = Inr n" "\<And>i. i < n \<Longrightarrow> nb s' i = nb s i"
  shows "utf8_head s' = Inr n"
proof -
  have "n = 1 \<or> n = 2 \<or> n = 3 \<or> n = 4" using utf8_head_cases(1) [OF assms(1)] by auto
  then have "nb s' 0 = nb s 0" "1 < n \<Longrightarrow> nb s' 1 = nb s 1" "2 < n \<Longrightarrow> nb s' 2 = nb s 2"
    "3 < n \<Longrightarrow> nb s' 3 = nb s 3"
    using assms(2) by auto
  with assms(1) show ?thesis unfolding utf8_head_def
    by (simp only: split: if_split_asm) simp_all
qed

lemma utf8_head_take:
  assumes "utf8_head s = Inr n" "s \<noteq> []"
  shows "utf8_head (take n s @ t) = Inr n"
  by (rule utf8_head_agree [OF assms(1)])
     (use utf8_head_len(1) [OF assms(2,1)] nb_take_append in auto)

lemma utf8_valid_append: "utf8_valid s \<Longrightarrow> utf8_valid t \<Longrightarrow> utf8_valid (s @ t)"
proof (induction s rule: from_utf8_lossy.induct)
  case (1 s)
  show ?case
  proof (cases "s = []")
    case False
    then obtain n where n: "utf8_head s = Inr n" "utf8_valid (drop n s)"
      using "1.prems" by (subst (asm) utf8_valid.simps) (auto split: sum.splits)
    have hl: "head_len s = n" using n by (simp add: head_len_def)
    have le: "n \<le> length s" using head_len_le [OF False] hl by simp
    have "utf8_head (take n s @ (drop n s @ t)) = Inr n" by (rule utf8_head_take [OF n(1) False])
    then have "utf8_head (s @ t) = Inr n" by (simp add: append_assoc [symmetric] del: append_assoc)
    moreover have "utf8_valid (drop n s @ t)" using "1.IH" False hl n "1.prems" by simp
    ultimately show ?thesis
      using utf8_valid_step [of "s @ t" n] False le by simp
  qed (use "1.prems" in simp)
qed

lemma utf8_valid_one: "utf8_head s = Inr n \<Longrightarrow> s \<noteq> [] \<Longrightarrow> utf8_valid (take n s)"
  using utf8_head_take [of s n "[]"] utf8_valid_step [of "take n s" n] by (cases n) auto

lemma utf8_valid_lossy: "utf8_valid (from_utf8_lossy s)"
proof (induction s rule: from_utf8_lossy.induct)
  case (1 s)
  show ?case
  proof (cases "s = []")
    case False
    have "utf8_valid replacement"
      by (subst utf8_valid.simps)
         (simp add: replacement_def utf8_head_def nb_def cont_def second_ok_def)
    then have "utf8_valid (case utf8_head s of Inl n \<Rightarrow> replacement | Inr n \<Rightarrow> take n s)"
      using utf8_valid_one [OF _ False] by (auto split: sum.splits)
    then show ?thesis
      using False "1.IH" by (subst from_utf8_lossy.simps) (auto intro: utf8_valid_append)
  qed simp
qed

text \<open>ASCII text is valid and is its own decoding.\<close>

definition ascii :: "string \<Rightarrow> bool" where
  "ascii s \<longleftrightarrow> (\<forall>c\<in>set s. byte_of c < 128)"

lemma utf8_valid_ascii: "ascii s \<Longrightarrow> utf8_valid s"
proof (induction s)
  case (Cons c s)
  then have "utf8_head (c # s) = Inr 1" by (simp add: utf8_head_def nb_def ascii_def)
  then show ?case using Cons utf8_valid_step [of "c # s" 1] by (simp add: ascii_def)
qed simp

subsection \<open>Decimal integers\<close>

definition digit :: "char \<Rightarrow> nat option" where
  "digit c = (if 48 \<le> byte_of c \<and> byte_of c \<le> 57 then Some (byte_of c - 48) else None)"

fun parse_digits :: "nat \<Rightarrow> string \<Rightarrow> nat option" where
  "parse_digits acc [] = Some acc"
| "parse_digits acc (c # cs) =
     (case digit c of None \<Rightarrow> None | Some d \<Rightarrow> parse_digits (10 * acc + d) cs)"

definition parse_nat :: "string \<Rightarrow> nat option" where
  "parse_nat s = (if s = [] then None else parse_digits 0 s)"

text \<open>\<open>str::parse::<i64>\<close>: an optional sign, at least one digit, and the value in range.\<close>

definition parse_int :: "string \<Rightarrow> int option" where
  "parse_int s =
     (case s of [] \<Rightarrow> None
      | c # cs \<Rightarrow>
          if c = CHR ''-'' then map_option (\<lambda>n. - int n) (parse_nat cs)
          else if c = CHR ''+'' then map_option int (parse_nat cs)
          else map_option int (parse_nat s))"

definition parse_i64_str :: "string \<Rightarrow> int option" where
  "parse_i64_str s =
     (case parse_int s of Some n \<Rightarrow> if in_i64 n then Some n else None | None \<Rightarrow> None)"

fun show_nat :: "nat \<Rightarrow> string" where
  "show_nat n = (if n < 10 then [chr (48 + n)] else show_nat (n div 10) @ [chr (48 + n mod 10)])"

declare show_nat.simps [simp del]

text \<open>\<open>i64::to_string\<close>.\<close>

definition show_int :: "int \<Rightarrow> string" where
  "show_int n = (if n < 0 then CHR ''-'' # show_nat (nat (- n)) else show_nat (nat n))"

lemma digit_chr [simp]: "d < 10 \<Longrightarrow> digit (chr (48 + d)) = Some d"
  by (simp add: digit_def)

lemma parse_digits_append:
  "parse_digits a (xs @ ys) = Option.bind (parse_digits a xs) (\<lambda>b. parse_digits b ys)"
  by (induction xs arbitrary: a) (auto split: option.splits)

lemma parse_show_nat: "parse_digits 0 (show_nat n) = Some n"
proof (induction n rule: show_nat.induct)
  case (1 n)
  show ?case
  proof (cases "n < 10")
    case False
    then show ?thesis using 1
      by (subst show_nat.simps) (simp add: parse_digits_append)
  qed (subst show_nat.simps, simp)
qed

lemma show_nat_digits: "c \<in> set (show_nat n) \<Longrightarrow> 48 \<le> byte_of c \<and> byte_of c \<le> 57"
proof (induction n rule: show_nat.induct)
  case (1 n)
  have "n mod 10 < 10" by simp
  then show ?case using 1
    by (subst (asm) show_nat.simps) (auto split: if_splits)
qed

lemma show_nat_ne [simp]: "show_nat n \<noteq> []"
  by (subst show_nat.simps) simp

lemma parse_nat_show [simp]: "parse_nat (show_nat n) = Some n"
  by (simp add: parse_nat_def parse_show_nat)

lemma parse_int_show [simp]: "parse_int (show_int n) = Some n"
proof (cases "n < 0")
  case True
  then show ?thesis by (simp add: show_int_def parse_int_def)
next
  case False
  obtain c cs where c: "show_nat (nat n) = c # cs" by (cases "show_nat (nat n)") auto
  then have "48 \<le> byte_of c" using show_nat_digits [of c "nat n"] by simp
  then have "c \<noteq> CHR ''-''" "c \<noteq> CHR ''+''" by (auto simp: byte_of_def)
  moreover have "parse_nat (c # cs) = Some (nat n)" by (simp flip: c)
  ultimately show ?thesis using False c by (simp add: show_int_def parse_int_def)
qed

lemma parse_i64_show: "in_i64 n \<Longrightarrow> parse_i64_str (show_int n) = Some n"
  by (simp add: parse_i64_str_def)

lemma show_int_chars: "c \<in> set (show_int n) \<Longrightarrow> c = CHR ''-'' \<or> 48 \<le> byte_of c \<and> byte_of c \<le> 57"
  by (auto simp: show_int_def dest: show_nat_digits split: if_splits)

lemma ascii_show_int: "ascii (show_int n)"
  unfolding ascii_def
proof
  fix c assume "c \<in> set (show_int n)"
  then show "byte_of c < 128" using show_int_chars [of c n] by (auto simp: byte_of_def)
qed

lemma show_int_ne [simp]: "show_int n \<noteq> []"
  by (simp add: show_int_def)

subsection \<open>White space\<close>

text \<open>The number of bytes of the Unicode \<open>White_Space\<close> character a text starts with, 0 if none.\<close>

definition ws_len :: "string \<Rightarrow> nat" where
  "ws_len s =
     (let a = nb s 0; b = nb s 1; c = nb s 2
      in if s = [] then 0
         else if 9 \<le> a \<and> a \<le> 13 \<or> a = 32 then 1
         else if a = 194 \<and> (b = 133 \<or> b = 160) then 2
         else if a = 225 \<and> b = 154 \<and> c = 128 then 3
         else if a = 226 \<and> b = 128 \<and> (128 \<le> c \<and> c \<le> 138 \<or> c = 168 \<or> c = 169 \<or> c = 175) then 3
         else if a = 226 \<and> b = 129 \<and> c = 159 then 3
         else if a = 227 \<and> b = 128 \<and> c = 128 then 3
         else 0)"

lemma ws_len_Nil [simp]: "ws_len [] = 0"
  by (simp add: ws_len_def)

definition ws_suffix :: "string \<Rightarrow> nat" where
  "ws_suffix s =
     (let n = length s
      in if 1 \<le> n \<and> ws_len (drop (n - 1) s) = 1 then 1
         else if 2 \<le> n \<and> ws_len (drop (n - 2) s) = 2 then 2
         else if 3 \<le> n \<and> ws_len (drop (n - 3) s) = 3 then 3
         else 0)"

function trim_start :: "string \<Rightarrow> string" where
  "trim_start s = (if ws_len s = 0 then s else trim_start (drop (ws_len s) s))"
  by pat_completeness auto
termination
proof (relation "measure length")
  fix s :: string
  assume "ws_len s \<noteq> 0"
  then show "(drop (ws_len s) s, s) \<in> measure length" by (cases s) auto
qed simp

function trim_end :: "string \<Rightarrow> string" where
  "trim_end s = (if ws_suffix s = 0 then s else trim_end (take (length s - ws_suffix s) s))"
  by pat_completeness auto
termination
proof (relation "measure length")
  fix s :: string
  assume "ws_suffix s \<noteq> 0"
  then show "(take (length s - ws_suffix s) s, s) \<in> measure length"
    by (cases s) (auto simp: ws_suffix_def)
qed simp

declare trim_start.simps [simp del] trim_end.simps [simp del]

text \<open>\<open>str::trim\<close>.\<close>

definition trim :: "string \<Rightarrow> string" where
  "trim s = trim_end (trim_start s)"

definition is_ascii_ws :: "char \<Rightarrow> bool" where
  "is_ascii_ws c \<longleftrightarrow> byte_of c \<in> {9, 10, 12, 13, 32}"

text \<open>\<open>str::split_ascii_whitespace\<close>; \<open>w\<close> is the word being read.\<close>

fun split_ws :: "string \<Rightarrow> string \<Rightarrow> string list" where
  "split_ws w [] = (if w = [] then [] else [w])"
| "split_ws w (c # cs) =
     (if is_ascii_ws c then (if w = [] then split_ws [] cs else w # split_ws [] cs)
      else split_ws (w @ [c]) cs)"

definition split_ascii_whitespace :: "string \<Rightarrow> string list" where
  "split_ascii_whitespace s = split_ws [] s"

lemma split_ws_no_ws: "w' \<in> set (split_ws w s) \<Longrightarrow> c \<in> set w' \<Longrightarrow> c \<in> set w \<or> \<not> is_ascii_ws c"
  by (induction w s rule: split_ws.induct) (auto split: if_splits)

lemma split_ws_ne: "w' \<in> set (split_ws w s) \<Longrightarrow> w' \<noteq> []"
  by (induction w s rule: split_ws.induct) (auto split: if_splits)

lemma trim_plain:
  assumes "\<And>c. c \<in> set s \<Longrightarrow> 33 \<le> byte_of c \<and> byte_of c < 128"
  shows "trim s = s"
proof -
  have w: "ws_len t = 0" if "set t \<subseteq> set s" for t
  proof (cases t)
    case (Cons c t')
    then show ?thesis using assms [of c] that by (simp add: ws_len_def nb_def)
  qed (simp add: ws_len_def)
  have "set (drop n s) \<subseteq> set s" for n by (rule set_drop_subset)
  then have "ws_suffix s = 0" using w by (simp add: ws_suffix_def Let_def)
  then show ?thesis using w [of s] by (simp add: trim_def trim_start.simps trim_end.simps)
qed

lemma trim_show_int [simp]: "trim (show_int n) = show_int n"
proof (rule trim_plain)
  fix c assume "c \<in> set (show_int n)"
  then show "33 \<le> byte_of c \<and> byte_of c < 128" using show_int_chars [of c n] by (auto simp: byte_of_def)
qed

subsection \<open>Upper case\<close>

definition ascii_upper :: "char \<Rightarrow> char" where
  "ascii_upper c = (if 97 \<le> byte_of c \<and> byte_of c \<le> 122 then chr (byte_of c - 32) else c)"

text \<open>
  \<open>str::to_uppercase\<close>.  The Unicode tables are a parameter: \<open>uc\<close> is the upper-case mapping of
  one scalar value outside ASCII, given and returned in UTF-8.
\<close>

function to_uppercase :: "(string \<Rightarrow> string) \<Rightarrow> string \<Rightarrow> string" where
  "to_uppercase uc s =
     (if s = [] then []
      else (if byte_of (hd s) < 128 then [ascii_upper (hd s)] else uc (take (head_len s) s)) @
           to_uppercase uc (drop (head_len s) s))"
  by pat_completeness auto
termination
  by (relation "measure (\<lambda>(uc, s). length s)") (use head_len_pos in auto)

declare to_uppercase.simps [simp del]

lemma to_uppercase_ascii: "ascii s \<Longrightarrow> to_uppercase uc s = map ascii_upper s"
proof (induction s)
  case Nil
  then show ?case by (simp add: to_uppercase.simps)
next
  case (Cons c s)
  then have "head_len (c # s) = 1" by (simp add: head_len_def utf8_head_def nb_def ascii_def)
  then show ?case using Cons by (subst to_uppercase.simps) (simp add: ascii_def)
qed

end
