(* ===== verification/FloatText.thy ===== *)
theory FloatText imports Float64 Text begin

text \<open>
  The text forms of \<open>f64\<close>: \<open>str::parse::<f64>\<close> with its grammar and correct rounding, and
  \<open>format_float\<close> of \<open>src/db/mod.rs\<close>.
\<close>

subsection \<open>Parsing\<close>

definition ascii_lower :: "char \<Rightarrow> char" where
  "ascii_lower c = (if 65 \<le> byte_of c \<and> byte_of c \<le> 90 then chr (byte_of c + 32) else c)"

definition is_digit :: "char \<Rightarrow> bool" where
  "is_digit c \<longleftrightarrow> digit c \<noteq> None"

text \<open>The exponent part: nothing, or \<open>e\<close> with an optional sign and at least one digit.\<close>

definition parse_exponent :: "string \<Rightarrow> int option" where
  "parse_exponent s =
     (case s of [] \<Rightarrow> Some 0
      | c # cs \<Rightarrow> if c = CHR ''e'' \<or> c = CHR ''E'' then parse_int cs else None)"

definition pow10 :: "int \<Rightarrow> rat" where
  "pow10 e = (if 0 \<le> e then 10 ^ nat e else 1 / 10 ^ nat (- e))"

definition parse_decimal :: "string \<Rightarrow> rat option" where
  "parse_decimal s =
     (let ip = takeWhile is_digit s; r = dropWhile is_digit s;
          dot = (r \<noteq> [] \<and> hd r = CHR ''.'');
          fp = (if dot then takeWhile is_digit (tl r) else []);
          r' = (if dot then dropWhile is_digit (tl r) else r)
      in if ip = [] \<and> fp = [] then None
         else case (parse_nat (ip @ fp), parse_exponent r') of
                (Some n, Some e) \<Rightarrow> Some (of_nat n * pow10 (e - int (length fp)))
              | _ \<Rightarrow> None)"

definition parse_unsigned_f64 :: "bool \<Rightarrow> string \<Rightarrow> f64 option" where
  "parse_unsigned_f64 neg s =
     (let l = map ascii_lower s
      in if l = ''inf'' \<or> l = ''infinity'' then Some (if neg then NegInf else PosInf)
         else if l = ''nan'' then Some NaN
         else case parse_decimal s of None \<Rightarrow> None
              | Some x \<Rightarrow> Some (round_f64 (if neg then - x else x)))"

definition parse_f64_str :: "string \<Rightarrow> f64 option" where
  "parse_f64_str s =
     (case s of [] \<Rightarrow> None
      | c # cs \<Rightarrow> if c = CHR ''-'' then parse_unsigned_f64 True cs
                  else if c = CHR ''+'' then parse_unsigned_f64 False cs
                  else parse_unsigned_f64 False s)"

subsection \<open>Printing\<close>

definition rev_trim :: "char \<Rightarrow> string \<Rightarrow> string" where
  "rev_trim c s = rev (dropWhile (\<lambda>d. d = c) (rev s))"

definition pad_left :: "nat \<Rightarrow> string \<Rightarrow> string" where
  "pad_left n s = replicate (n - length s) (CHR ''0'') @ s"

text \<open>\<open>format!("{:.17}", f)\<close>: the exact value rounded to 17 fractional digits, ties to even.\<close>

definition fixed17 :: "f64 \<Rightarrow> string" where
  "fixed17 f =
     (case f of NaN \<Rightarrow> ''NaN'' | PosInf \<Rightarrow> ''inf'' | NegInf \<Rightarrow> ''-inf''
      | Fin x \<Rightarrow>
          let q = nat (round_half_even (\<bar>x\<bar> * pow10 17))
          in (if x < 0 then ''-'' else '''') @ show_nat (q div 10 ^ 17) @ ''.'' @
             pad_left 17 (show_nat (q mod 10 ^ 17)))"

definition format_float :: "f64 \<Rightarrow> string" where
  "format_float f =
     (case f of
        Fin x \<Rightarrow> if of_int \<lfloor>x\<rfloor> = x \<and> \<bar>x\<bar> < 10 ^ 15 then show_int \<lfloor>x\<rfloor>
                 else rev_trim (CHR ''.'') (rev_trim (CHR ''0'') (fixed17 f))
      | _ \<Rightarrow> rev_trim (CHR ''.'') (rev_trim (CHR ''0'') (fixed17 f)))"

lemma format_float_int: "\<bar>n\<bar> < 10 ^ 15 \<Longrightarrow> format_float (Fin (of_int n)) = show_int n"
proof -
  assume "\<bar>n\<bar> < 10 ^ 15"
  then have "\<bar>of_int n :: rat\<bar> < 10 ^ 15"
    by (metis of_int_abs of_int_less_iff of_int_numeral of_int_power)
  then show ?thesis by (simp add: format_float_def)
qed

end
