(* ===== verification/Errors.thy ===== *)
theory Errors imports Text begin

text \<open>
  The errors of \<open>src/error.rs\<close> with the text the \<open>thiserror\<close> attributes give them, and the
  outcome of an operation: \<open>Ok\<close>, \<open>Err\<close>, or \<open>Panic\<close>, the unwinding that ends the connection's
  task.  An I/O error carries the text it displays.
\<close>

datatype redis_error =
    WrongArity string | NotInteger | NotFloat | WrongType | Generic string | NoSuchKey
  | IndexOutOfRange | SyntaxError | Protocol string | Script string | DbIndexOutOfRange
  | ScoreNaN | Exhausted | SameObject | Io string

fun err_to_string :: "redis_error \<Rightarrow> string" where
  "err_to_string (WrongArity c) = ''ERR wrong number of arguments for '' @ [chr 39] @ c @ [chr 39] @ '' command''"
| "err_to_string NotInteger = ''ERR value is not an integer or out of range''"
| "err_to_string NotFloat = ''ERR value is not a valid float''"
| "err_to_string WrongType = ''WRONGTYPE Operation against a key holding the wrong kind of value''"
| "err_to_string (Generic m) = ''ERR '' @ m"
| "err_to_string NoSuchKey = ''ERR no such key''"
| "err_to_string IndexOutOfRange = ''ERR index out of range''"
| "err_to_string SyntaxError = ''ERR syntax error''"
| "err_to_string (Protocol m) = ''ERR Protocol error: '' @ m"
| "err_to_string (Script m) = ''ERR Lua script error: '' @ m"
| "err_to_string DbIndexOutOfRange = ''ERR DB index is out of range''"
| "err_to_string ScoreNaN = ''ERR NaN is not allowed as a score''"
| "err_to_string Exhausted = ''ERR no more elements''"
| "err_to_string SameObject = ''ERR source and destination objects are the same''"
| "err_to_string (Io m) = m"

datatype 'a res = Ok 'a | Err redis_error | Panic

fun map_res :: "('a \<Rightarrow> 'b) \<Rightarrow> 'a res \<Rightarrow> 'b res" where
  "map_res f (Ok x) = Ok (f x)"
| "map_res f (Err e) = Err e"
| "map_res f Panic = Panic"

fun bind_res :: "'a res \<Rightarrow> ('a \<Rightarrow> 'b res) \<Rightarrow> 'b res" where
  "bind_res (Ok x) f = f x"
| "bind_res (Err e) f = Err e"
| "bind_res Panic f = Panic"

lemma bind_res_Ok_iff: "bind_res r f = Ok y \<longleftrightarrow> (\<exists>x. r = Ok x \<and> f x = Ok y)"
  by (cases r) auto

lemma map_res_Ok_iff: "map_res f r = Ok y \<longleftrightarrow> (\<exists>x. r = Ok x \<and> y = f x)"
  by (cases r) auto

lemma bind_res_cong [fundef_cong]:
  "r = r' \<Longrightarrow> (\<And>x. r' = Ok x \<Longrightarrow> f x = g x) \<Longrightarrow> bind_res r f = bind_res r' g"
  by (cases r') auto

lemma err_to_string_ne: "(\<And>m. e \<noteq> Io m) \<Longrightarrow> err_to_string e \<noteq> []"
  by (cases e) auto

end
