(* ===== verification/ZSet.thy ===== *)
theory ZSet imports SkipListCorrect FloatText Errors begin

text \<open>
  \<open>ZSetInner\<close> and \<open>ScoreBound\<close> of \<open>src/db/mod.rs\<close>: a dictionary from members to scores beside
  a skip list of the same pairs.  The invariant \<open>z_ok\<close> says that the two agree; every operation
  keeps it, and each query is characterised by the dictionary alone.  \<^theory_text>\<open>None\<close> is a panic.
\<close>

subsection \<open>Index normalisation and score bounds\<close>

definition normalize_index :: "int \<Rightarrow> int \<Rightarrow> nat" where
  "normalize_index index len =
     (if len = 0 then 0 else if index < 0 then nat (max (len + index) 0) else nat index)"

record score_bound =
  sb_value :: f64
  exclusive :: bool
  is_neg_inf :: bool
  is_pos_inf :: bool

definition sb_neg_inf :: score_bound where
  "sb_neg_inf = \<lparr>sb_value = NegInf, exclusive = False, is_neg_inf = True, is_pos_inf = False\<rparr>"

definition sb_pos_inf :: score_bound where
  "sb_pos_inf = \<lparr>sb_value = PosInf, exclusive = False, is_neg_inf = False, is_pos_inf = True\<rparr>"

definition sb_inclusive :: "f64 \<Rightarrow> score_bound" where
  "sb_inclusive v = \<lparr>sb_value = v, exclusive = False, is_neg_inf = False, is_pos_inf = False\<rparr>"

definition sb_exclusive :: "f64 \<Rightarrow> score_bound" where
  "sb_exclusive v = \<lparr>sb_value = v, exclusive = True, is_neg_inf = False, is_pos_inf = False\<rparr>"

definition contains :: "score_bound \<Rightarrow> f64 \<Rightarrow> bool" where
  "contains b s =
     (if is_neg_inf b then True
      else if exclusive b then f_lt (sb_value b) s else f_le (sb_value b) s)"

definition contains_upper :: "score_bound \<Rightarrow> f64 \<Rightarrow> bool" where
  "contains_upper b s =
     (if is_pos_inf b then True
      else if exclusive b then f_lt s (sb_value b) else f_le s (sb_value b))"

definition parse_score_bound :: "string \<Rightarrow> bool \<Rightarrow> score_bound res" where
  "parse_score_bound s is_max =
     (if s = ''+inf'' \<or> s = ''+Inf'' \<or> s = ''inf'' then Ok sb_pos_inf
      else if s = ''-inf'' \<or> s = ''-Inf'' then Ok sb_neg_inf
      else if s \<noteq> [] \<and> hd s = CHR ''('' then
        (case parse_f64_str (tl s) of None \<Rightarrow> Err NotFloat | Some v \<Rightarrow> Ok (sb_exclusive v))
      else (case parse_f64_str s of None \<Rightarrow> Err NotFloat | Some v \<Rightarrow> Ok (sb_inclusive v)))"

definition parse_min :: "string \<Rightarrow> score_bound res" where
  "parse_min s = parse_score_bound s False"

definition parse_max :: "string \<Rightarrow> score_bound res" where
  "parse_max s = parse_score_bound s True"

definition in_bounds :: "score_bound \<Rightarrow> score_bound \<Rightarrow> f64 \<Rightarrow> bool" where
  "in_bounds mn mx s \<longleftrightarrow> contains mn s \<and> contains_upper mx s"

subsection \<open>The sorted set\<close>

record zset =
  scores :: "(string, f64) hash_map"
  sl :: skiplist

definition z_new :: zset where
  "z_new = \<lparr>scores = [], sl = sl_new\<rparr>"

definition z_add :: "bool list \<Rightarrow> string \<Rightarrow> f64 \<Rightarrow> zset \<Rightarrow> (bool \<times> zset) option" where
  "z_add coins m s z =
     do { sl1 \<leftarrow> (case hm_get (scores z) m of
                  Some old \<Rightarrow> map_option snd (sl_remove old m (sl z))
                | None \<Rightarrow> Some (sl z));
          let is_new = (hm_get (scores z) m = None);
          let sc = hm_insert m s (scores z);
          sl2 \<leftarrow> sl_insert coins s m sl1;
          Some (is_new, \<lparr>scores = sc, sl = sl2\<rparr>) }"

definition z_remove :: "string \<Rightarrow> zset \<Rightarrow> (bool \<times> zset) option" where
  "z_remove m z =
     (case hm_get (scores z) m of
        Some s \<Rightarrow> do { (_, sl') \<leftarrow> sl_remove s m (sl z);
                      Some (True, \<lparr>scores = hm_remove m (scores z), sl = sl'\<rparr>) }
      | None \<Rightarrow> Some (False, z))"

definition z_score :: "string \<Rightarrow> zset \<Rightarrow> f64 option" where
  "z_score m z = hm_get (scores z) m"

definition z_len :: "zset \<Rightarrow> nat" where
  "z_len z = length (scores z)"

definition z_is_empty :: "zset \<Rightarrow> bool" where
  "z_is_empty z \<longleftrightarrow> scores z = []"

definition z_rank :: "string \<Rightarrow> zset \<Rightarrow> nat option option" where
  "z_rank m z =
     (case hm_get (scores z) m of None \<Rightarrow> Some None | Some s \<Rightarrow> sl_rank_of s m (sl z))"

text \<open>\<open>usize\<close> subtraction: below zero it panics with overflow checks on.\<close>

definition usize_sub :: "nat \<Rightarrow> nat \<Rightarrow> nat option" where
  "usize_sub a b = (if b \<le> a then Some (a - b) else None)"

definition z_revrank :: "string \<Rightarrow> zset \<Rightarrow> nat option option" where
  "z_revrank m z =
     do { r \<leftarrow> z_rank m z;
          case r of None \<Rightarrow> Some None
          | Some rank \<Rightarrow> do { l1 \<leftarrow> usize_sub (z_len z) 1; d \<leftarrow> usize_sub l1 rank; Some (Some d) } }"

definition with_scores :: "bool \<Rightarrow> string \<times> f64 \<Rightarrow> string \<times> f64 option" where
  "with_scores ws p = (fst p, if ws then Some (snd p) else None)"

definition z_range_by_index ::
  "int \<Rightarrow> int \<Rightarrow> bool \<Rightarrow> zset \<Rightarrow> (string \<times> f64 option) list option" where
  "z_range_by_index start stop ws z =
     (let len = wrap_i64 (int (z_len z));
          start = min (normalize_index start len) (as_usize len);
          stop = min (normalize_index stop len) (as_usize (len - 1))
      in if start > stop then Some []
         else do { items \<leftarrow> sl_iter (sl z);
                   Some (map (with_scores ws) (take (stop - start + 1) (drop start items))) })"

definition z_range_by_score ::
  "score_bound \<Rightarrow> score_bound \<Rightarrow> bool \<Rightarrow> nat \<Rightarrow> nat option \<Rightarrow> zset \<Rightarrow> (string \<times> f64 option) list option"
where
  "z_range_by_score mn mx ws offset cnt z =
     do { items \<leftarrow> sl_iter (sl z);
          Some (map (with_scores ws)
            (take (case cnt of None \<Rightarrow> usize_max | Some c \<Rightarrow> c)
              (drop offset (filter (\<lambda>(_, s). contains mn s \<and> contains_upper mx s) items)))) }"

definition z_revrange_by_score ::
  "score_bound \<Rightarrow> score_bound \<Rightarrow> bool \<Rightarrow> nat \<Rightarrow> nat option \<Rightarrow> zset \<Rightarrow> (string \<times> f64 option) list option"
where
  "z_revrange_by_score mx mn ws offset cnt z =
     do { items \<leftarrow> sl_iter_rev (sl z);
          Some (map (with_scores ws)
            (take (case cnt of None \<Rightarrow> usize_max | Some c \<Rightarrow> c)
              (drop offset (filter (\<lambda>(_, s). contains mn s \<and> contains_upper mx s) items)))) }"

definition z_count_by_score :: "score_bound \<Rightarrow> score_bound \<Rightarrow> zset \<Rightarrow> nat option" where
  "z_count_by_score mn mx z =
     do { items \<leftarrow> sl_iter (sl z);
          Some (length (filter (\<lambda>(_, s). contains mn s \<and> contains_upper mx s) items)) }"

text \<open>The loop \<open>for member in to_remove { self.remove(&member); }\<close>.\<close>

fun z_remove_all :: "string list \<Rightarrow> zset \<Rightarrow> zset option" where
  "z_remove_all [] z = Some z"
| "z_remove_all (m # ms) z = do { (_, z') \<leftarrow> z_remove m z; z_remove_all ms z' }"

definition z_remove_by_score :: "score_bound \<Rightarrow> score_bound \<Rightarrow> zset \<Rightarrow> (nat \<times> zset) option" where
  "z_remove_by_score mn mx z =
     do { items \<leftarrow> sl_iter (sl z);
          let to_remove = map fst (filter (\<lambda>(_, s). contains mn s \<and> contains_upper mx s) items);
          z' \<leftarrow> z_remove_all to_remove z;
          Some (length to_remove, z') }"

definition z_remove_by_rank :: "int \<Rightarrow> int \<Rightarrow> zset \<Rightarrow> (nat \<times> zset) option" where
  "z_remove_by_rank start stop z =
     (let len = wrap_i64 (int (z_len z));
          start = min (normalize_index start len) (as_usize len);
          stop = min (normalize_index stop len) (as_usize (len - 1))
      in if start > stop then Some (0, z)
         else do { items \<leftarrow> sl_iter (sl z);
                   let to_remove = map fst (take (stop - start + 1) (drop start items));
                   z' \<leftarrow> z_remove_all to_remove z;
                   Some (length to_remove, z') })"

definition z_pop_min :: "nat \<Rightarrow> zset \<Rightarrow> ((string \<times> f64) list \<times> zset) option" where
  "z_pop_min count z =
     do { items \<leftarrow> sl_iter (sl z);
          let keys = take count items;
          z' \<leftarrow> z_remove_all (map fst keys) z;
          Some (keys, z') }"

definition z_pop_max :: "nat \<Rightarrow> zset \<Rightarrow> ((string \<times> f64) list \<times> zset) option" where
  "z_pop_max count z =
     do { items \<leftarrow> sl_iter_rev (sl z);
          let keys = take count items;
          z' \<leftarrow> z_remove_all (map fst keys) z;
          Some (keys, z') }"

end
