(* ===== verification/ZSetCorrect.thy ===== *)
theory ZSetCorrect imports ZSet begin

text \<open>
  The sorted set keeps dictionary and index in agreement (\<open>z_ok\<close>), and its operations are those
  of a dictionary with an ordered view (\<open>z_items\<close>, the members with their scores in the order
  of score, then member).  The proofs use the skip list only through the interface of
  \<open>OrderedIndex\<close>.
\<close>

definition z_dict :: "zset \<Rightarrow> string \<Rightarrow> f64 option" where
  "z_dict z = hm_get (scores z)"

definition z_ok :: "zset \<Rightarrow> bool" where
  "z_ok z \<longleftrightarrow> hm_wf (scores z) \<and> sl_rep (sl z) (graph (z_dict z))"

definition z_items :: "zset \<Rightarrow> (string \<times> f64) list" where
  "z_items z = sorted_items (graph (z_dict z))"

definition z_room :: "zset \<Rightarrow> nat" where
  "z_room z = sl_room (sl z)"

lemma z_okD: "z_ok z \<Longrightarrow> hm_wf (scores z)" "z_ok z \<Longrightarrow> sl_rep (sl z) (graph (z_dict z))"
  by (auto simp: z_ok_def)

lemma z_new_ok: "z_ok z_new" "z_dict z_new = Map.empty" "z_items z_new = []"
proof -
  show "z_dict z_new = Map.empty" by (auto simp: z_dict_def z_new_def)
  then have g: "graph (z_dict z_new) = {}" by (simp add: graph_def)
  show "z_ok z_new" using sl_new_rep g by (simp add: z_ok_def z_new_def z_dict_def)
  show "z_items z_new = []" by (simp add: z_items_def g sorted_items_def)
qed

lemma finite_z_dict: "finite (dom (z_dict z))"
  by (simp add: z_dict_def hm_dom)

lemma z_items_set: "(m, s) \<in> set (z_items z) \<longleftrightarrow> z_dict z m = Some s"
  by (simp add: z_items_def set_sorted_items finite_graph finite_z_dict)

lemma z_items_distinct: "distinct (map fst (z_items z))" "distinct (z_items z)"
  by (simp_all add: z_items_def distinct_members finite_z_dict distinct_sorted_items)

lemma z_items_length: "z_ok z \<Longrightarrow> length (z_items z) = z_len z"
  by (simp add: z_items_def length_sorted_items card_graph z_len_def z_dict_def hm_length_card z_okD)

text \<open>The order of the items: by score, then by member.\<close>

lemma z_items_sorted: "sorted_wrt (\<lambda>p q. (snd p, fst p) < (snd q, fst q)) (z_items z)"
proof -
  have "sorted_wrt (<) (sorted_list_of_set (graph (z_dict z)))"
    by (rule sorted_list_of_set.strict_sorted_key_list_of_set)
  then show ?thesis
    unfolding z_items_def sorted_items_def sorted_wrt_map case_prod_beta fst_conv snd_conv
    by (simp only: prod.collapse)
qed

lemma z_not_nan: "z_ok z \<Longrightarrow> z_dict z m = Some s \<Longrightarrow> \<not> is_nan s"
  by (rule slx.rep_not_nan [OF z_okD(2), of z s m]) simp_all

subsection \<open>Updates\<close>

lemma z_add_ok:
  assumes ok: "z_ok z" and s: "\<not> is_nan s" and add: "z_add cs m s z = Some (b, z')"
  shows "z_ok z'" "z_dict z' = (z_dict z)(m \<mapsto> s)" "b \<longleftrightarrow> m \<notin> dom (z_dict z)"
proof -
  obtain sl1 sl2 where sl1: "(case z_dict z m of Some old \<Rightarrow> map_option snd (sl_remove old m (sl z))
      | None \<Rightarrow> Some (sl z)) = Some sl1"
    and sl2: "sl_insert cs s m sl1 = Some sl2"
    and z': "z' = \<lparr>scores = hm_insert m s (scores z), sl = sl2\<rparr>" and b: "b \<longleftrightarrow> z_dict z m = None"
    using add by (auto simp: z_add_def z_dict_def bind_eq_Some_conv Let_def)
  show d: "z_dict z' = (z_dict z)(m \<mapsto> s)"
    by (rule ext) (simp add: z' z_dict_def hm_get_insert)
  have "sl_rep sl2 (graph ((z_dict z)(m \<mapsto> s)))"
    by (rule slx.rescore_rep [OF z_okD(2) [OF ok] s sl1 sl2])
  then show "z_ok z'" using d z_okD(1) [OF ok] by (simp add: z_ok_def z')
  show "b \<longleftrightarrow> m \<notin> dom (z_dict z)" using b by auto
qed

lemma z_add_total:
  assumes ok: "z_ok z" and s: "\<not> is_nan s" and room: "0 < z_room z"
  shows "\<exists>b z'. z_add cs m s z = Some (b, z') \<and> z_room z \<le> Suc (z_room z')"
proof -
  obtain sl1 sl2 where "(case z_dict z m of Some old \<Rightarrow> map_option snd (sl_remove old m (sl z))
      | None \<Rightarrow> Some (sl z)) = Some sl1" "sl_insert cs s m sl1 = Some sl2"
    "sl_room (sl z) \<le> Suc (sl_room sl2)"
    using slx.rescore [OF z_okD(2) [OF ok] s, where cs = cs and m = m] room unfolding z_room_def by blast
  then show ?thesis by (simp add: z_add_def z_dict_def z_room_def Let_def)
qed

lemma z_remove_spec:
  assumes ok: "z_ok z"
  shows "\<exists>z'. z_remove m z = Some (m \<in> dom (z_dict z), z') \<and> z_ok z' \<and>
    z_dict z' = (z_dict z)(m := None) \<and> z_room z' = z_room z"
proof (cases "z_dict z m")
  case None
  then have "(z_dict z)(m := None) = z_dict z" by auto
  then show ?thesis using None ok by (auto simp: z_remove_def z_dict_def)
next
  case (Some s)
  obtain sl' where sl': "sl_remove s m (sl z) = Some (True, sl')"
    "sl_rep sl' (graph ((z_dict z)(m := None)))" "sl_room sl' = sl_room (sl z)"
    using slx.unscore [OF z_okD(2) [OF ok] Some] by blast
  have d: "hm_get (hm_remove m (scores z)) = (z_dict z)(m := None)"
    by (rule ext) (simp add: hm_get_remove z_dict_def)
  show ?thesis
    using Some sl' d z_okD(1) [OF ok]
    by (auto simp: z_remove_def z_ok_def z_dict_def z_room_def)
qed

lemma z_remove_all_spec:
  assumes ok: "z_ok z"
  shows "\<exists>z'. z_remove_all ms z = Some z' \<and> z_ok z' \<and>
    z_dict z' = (\<lambda>m. if m \<in> set ms then None else z_dict z m) \<and> z_room z' = z_room z"
  using ok
proof (induction ms arbitrary: z)
  case (Cons m ms)
  obtain z1 where z1: "z_remove m z = Some (m \<in> dom (z_dict z), z1)" "z_ok z1"
    "z_dict z1 = (z_dict z)(m := None)" "z_room z1 = z_room z"
    using z_remove_spec [OF Cons.prems] by blast
  obtain z2 where "z_remove_all ms z1 = Some z2" "z_ok z2"
    "z_dict z2 = (\<lambda>m. if m \<in> set ms then None else z_dict z1 m)" "z_room z2 = z_room z1"
    using Cons.IH [OF z1(2)] by blast
  then show ?case using z1 by auto
qed auto

text \<open>Deleting members filters the ordered view.\<close>

lemma sorted_list_of_set_filter:
  "finite S \<Longrightarrow> sorted_list_of_set {x \<in> S. P x} = filter P (sorted_list_of_set (S :: 'a::linorder set))"
proof -
  assume fin: "finite S"
  have "sorted_list_of_set (set (filter P (sorted_list_of_set S))) = filter P (sorted_list_of_set S)"
    by (rule sorted_list_of_set.idem_if_sorted_distinct) (simp_all add: sorted_wrt_filter)
  moreover have "set (filter P (sorted_list_of_set S)) = {x \<in> S. P x}" using fin by auto
  ultimately show ?thesis by simp
qed

lemma z_items_restrict:
  assumes "z_dict z' = (\<lambda>m. if m \<in> M then None else z_dict z m)"
  shows "z_items z' = filter (\<lambda>p. fst p \<notin> M) (z_items z)"
proof -
  have "graph (z_dict z') = {k \<in> graph (z_dict z). snd k \<notin> M}"
    unfolding assms by (auto simp: graph_def split: if_splits)
  then show ?thesis
    using sorted_list_of_set_filter [OF finite_graph [OF finite_z_dict], where P = "\<lambda>k. snd k \<notin> M"]
    by (simp add: z_items_def sorted_items_def filter_map comp_def case_prod_beta)
qed

lemma filter_complement_take:
  assumes "distinct (map fst xs)"
  shows "filter (\<lambda>p. fst p \<notin> fst ` set (take n xs)) xs = drop n xs"
proof -
  have d: "distinct (map fst (take n xs @ drop n xs))" using assms by simp
  have "filter (\<lambda>p. fst p \<notin> fst ` set (take n xs)) (take n xs @ drop n xs) = drop n xs"
    unfolding filter_append using d
    by (auto simp: filter_empty_conv filter_id_conv simp del: append_take_drop_id)
  then show ?thesis by simp
qed

subsection \<open>Queries\<close>

lemma z_iter_items:
  "z_ok z \<Longrightarrow> sl_iter (sl z) = Some (z_items z)"
  "z_ok z \<Longrightarrow> sl_iter_rev (sl z) = Some (rev (z_items z))"
  unfolding z_items_def by (rule slx.asc_spec slx.desc_spec; rule z_okD(2); assumption)+

lemma bounds_fun:
  "(\<lambda>(m :: string, s). contains mn s \<and> contains_upper mx s) = (\<lambda>p. in_bounds mn mx (snd p))"
  by (auto simp: in_bounds_def)

lemma z_len_card: "z_ok z \<Longrightarrow> z_len z = card (dom (z_dict z))"
  by (simp add: z_len_def z_dict_def hm_length_card z_okD)

lemma z_len_bound: "z_ok z \<Longrightarrow> z_len z < isize_max"
  using sl_card_bound [OF z_okD(2)] by (simp add: z_len_card card_graph)

lemma z_len_i64: "z_ok z \<Longrightarrow> wrap_i64 (int (z_len z)) = int (z_len z)"
  using z_len_bound [of z]
  by (intro wrap_i64_id) (simp add: in_i64_def i64_min_def i64_max_def isize_max_def)

text \<open>Position \<open>card {x \<in> S. x < k}\<close> of the sorted list of \<open>S\<close> holds \<open>k\<close>.\<close>

lemma sorted_list_of_set_rank:
  assumes fin: "finite S" and k: "k \<in> (S :: 'a::linorder set)"
  shows "sorted_list_of_set S ! card {x \<in> S. x < k} = k" "card {x \<in> S. x < k} < card S"
proof -
  let ?xs = "sorted_list_of_set S"
  obtain i where i: "i < length ?xs" "?xs ! i = k"
    using k fin by (metis in_set_conv_nth set_sorted_list_of_set)
  have s: "sorted_wrt (<) ?xs" by (rule sorted_list_of_set.strict_sorted_key_list_of_set)
  have "{x \<in> S. x < k} = set (take i ?xs)"
  proof
    show "{x \<in> S. x < k} \<subseteq> set (take i ?xs)"
    proof
      fix x assume x: "x \<in> {x \<in> S. x < k}"
      then obtain j where j: "j < length ?xs" "?xs ! j = x"
        using fin by (metis (lifting) in_set_conv_nth mem_Collect_eq set_sorted_list_of_set)
      have "\<not> i \<le> j"
      proof
        assume "i \<le> j"
        then have "?xs ! i \<le> ?xs ! j"
          using s i j by (metis le_less order.order_iff_strict sorted_wrt_nth_less)
        then show False using x i j by auto
      qed
      then show "x \<in> set (take i ?xs)"
        using i j by (metis in_set_conv_nth length_take min_less_iff_conj not_le nth_take)
    qed
    show "set (take i ?xs) \<subseteq> {x \<in> S. x < k}"
    proof
      fix x assume x: "x \<in> set (take i ?xs)"
      then obtain j where j: "j < i" "?xs ! j = x"
        by (metis in_set_conv_nth length_take min_less_iff_conj nth_take)
      then have "x < k" using s i by (metis sorted_wrt_nth_less)
      moreover have "x \<in> S" using set_take_subset [of i ?xs] x fin by auto
      ultimately show "x \<in> {x \<in> S. x < k}" by simp
    qed
  qed
  then have "card {x \<in> S. x < k} = i"
    using i distinct_card [of "take i ?xs"] by simp
  then show "?xs ! card {x \<in> S. x < k} = k" "card {x \<in> S. x < k} < card S"
    using i by simp_all
qed

text \<open>The rank of a member is its position in the ordered view.\<close>

lemma z_rank_spec:
  assumes ok: "z_ok z"
  shows "z_dict z m = None \<Longrightarrow> z_rank m z = Some None"
    "z_dict z m = Some s \<Longrightarrow> \<exists>r. z_rank m z = Some (Some r) \<and> r < z_len z \<and> z_items z ! r = (m, s)"
proof -
  show "z_dict z m = None \<Longrightarrow> z_rank m z = Some None" by (simp add: z_rank_def z_dict_def)
  assume d: "z_dict z m = Some s"
  let ?S = "graph (z_dict z)"
  have r: "z_rank m z = Some (Some (card {k \<in> ?S. k < (s, m)}))"
    using slx.member_rank [OF z_okD(2) [OF ok] d] d by (simp add: z_rank_def z_dict_def)
  have fin: "finite ?S" by (simp add: finite_graph finite_z_dict)
  have k: "(s, m) \<in> ?S" using d by simp
  note sl = sorted_list_of_set_rank [OF fin k]
  have len: "card ?S = z_len z" by (simp add: card_graph z_len_card ok)
  have "z_items z ! card {k \<in> ?S. k < (s, m)} = (m, s)"
    using sl by (simp add: z_items_def sorted_items_def)
  then show "\<exists>r. z_rank m z = Some (Some r) \<and> r < z_len z \<and> z_items z ! r = (m, s)"
    using r sl(2) len by auto
qed

lemma z_revrank_spec:
  assumes ok: "z_ok z" and d: "z_dict z m = Some s"
  shows "\<exists>r. z_revrank m z = Some (Some r) \<and> r < z_len z \<and> rev (z_items z) ! r = (m, s)"
proof -
  obtain r where r: "z_rank m z = Some (Some r)" "r < z_len z" "z_items z ! r = (m, s)"
    using z_rank_spec(2) [OF ok d] by blast
  have "rev (z_items z) ! (z_len z - 1 - r) = (m, s)"
    using r z_items_length [OF ok] by (simp add: rev_nth Suc_diff_Suc)
  then show ?thesis using r by (auto simp: z_revrank_def usize_sub_def)
qed

text \<open>
  The slice of a sequence that start and stop indices denote, negative ones counting from the
  end and clamped at the first element.
\<close>

definition clamp_index :: "int \<Rightarrow> nat \<Rightarrow> nat" where
  "clamp_index i n = (if i < 0 then nat (max (int n + i) 0) else nat i)"

definition slice :: "int \<Rightarrow> int \<Rightarrow> 'a list \<Rightarrow> 'a list" where
  "slice start stop xs =
     take (Suc (clamp_index stop (length xs)) - clamp_index start (length xs))
       (drop (clamp_index start (length xs)) xs)"

lemma normalize_clamp: "n \<noteq> 0 \<Longrightarrow> normalize_index i (int n) = clamp_index i n"
  by (simp add: normalize_index_def clamp_index_def)

lemma as_usize_small: "n < isize_max \<Longrightarrow> as_usize (int n) = n"
  "n \<noteq> 0 \<Longrightarrow> n < isize_max \<Longrightarrow> as_usize (int n - 1) = n - 1"
  by (auto simp: as_usize_def isize_max_def)

lemma take_drop_clamp:
  assumes "xs \<noteq> []"
  shows "(if min a (length xs) > min b (length xs - 1) then []
          else take (min b (length xs - 1) - min a (length xs) + 1) (drop (min a (length xs)) xs)) =
    take (Suc b - a) (drop a xs)"
proof (cases "a \<le> b \<and> a < length xs")
  case True
  then show ?thesis by (cases "b < length xs") (auto simp: min_def Suc_diff_le not_less)
next
  case False
  then show ?thesis using assms by (cases xs) (auto simp: min_def)
qed

lemma z_range_by_index_spec:
  assumes ok: "z_ok z"
  shows "z_range_by_index start stop ws z = Some (map (with_scores ws) (slice start stop (z_items z)))"
proof (cases "z_len z = 0")
  case True
  then have "z_items z = []" using z_items_length [OF ok] by simp
  then show ?thesis
    using True by (simp add: z_range_by_index_def slice_def wrap_i64_def normalize_index_def as_usize_def
        z_iter_items [OF ok])
next
  case False
  let ?n = "z_len z" and ?a = "clamp_index start (z_len z)" and ?b = "clamp_index stop (z_len z)"
  have l: "length (z_items z) = ?n" by (rule z_items_length [OF ok])
  have ne: "z_items z \<noteq> []" using False l by auto
  note td = take_drop_clamp [OF ne, where a = ?a and b = ?b, unfolded l]
  show ?thesis
    using False td z_len_bound [OF ok]
    by (auto simp: z_range_by_index_def Let_def z_len_i64 [OF ok] normalize_clamp as_usize_small
        z_iter_items [OF ok] slice_def l)
qed

lemma z_range_by_score_spec:
  "z_ok z \<Longrightarrow> z_range_by_score mn mx ws offset cnt z =
    Some (map (with_scores ws) (take (case cnt of None \<Rightarrow> usize_max | Some c \<Rightarrow> c)
      (drop offset (filter (\<lambda>p. in_bounds mn mx (snd p)) (z_items z)))))"
  by (simp add: z_range_by_score_def z_iter_items bounds_fun)

lemma z_revrange_by_score_spec:
  "z_ok z \<Longrightarrow> z_revrange_by_score mx mn ws offset cnt z =
    Some (map (with_scores ws) (take (case cnt of None \<Rightarrow> usize_max | Some c \<Rightarrow> c)
      (drop offset (rev (filter (\<lambda>p. in_bounds mn mx (snd p)) (z_items z))))))"
  by (simp add: z_revrange_by_score_def z_iter_items bounds_fun rev_filter)

lemma z_count_by_score_spec:
  "z_ok z \<Longrightarrow> z_count_by_score mn mx z =
    Some (card {m. \<exists>s. z_dict z m = Some s \<and> in_bounds mn mx s})"
proof -
  assume ok: "z_ok z"
  let ?f = "filter (\<lambda>p. in_bounds mn mx (snd p)) (z_items z)"
  have "distinct (map fst ?f)" by (rule distinct_map_filter) (rule z_items_distinct)
  then have "length ?f = card (fst ` set ?f)" using distinct_card [of "map fst ?f"] by simp
  moreover have "fst ` set ?f = {m. \<exists>s. z_dict z m = Some s \<and> in_bounds mn mx s}"
    using z_items_set [of _ _ z] by force
  ultimately show ?thesis
    by (simp add: z_count_by_score_def z_iter_items [OF ok] bounds_fun)
qed

subsection \<open>Bulk removals\<close>

lemma z_remove_items:
  assumes ok: "z_ok z"
  shows "\<exists>z'. z_remove_all ms z = Some z' \<and> z_ok z' \<and> z_room z' = z_room z \<and>
    z_items z' = filter (\<lambda>p. fst p \<notin> set ms) (z_items z)"
  using z_remove_all_spec [OF ok, of ms] z_items_restrict by blast

lemma z_pop_min_spec:
  assumes ok: "z_ok z"
  shows "\<exists>z'. z_pop_min c z = Some (take c (z_items z), z') \<and> z_ok z' \<and> z_room z' = z_room z \<and>
    z_items z' = drop c (z_items z)"
  using z_remove_items [OF ok, of "map fst (take c (z_items z))"]
    filter_complement_take [OF z_items_distinct(1), where n = c and z1 = z]
  by (auto simp: z_pop_min_def z_iter_items [OF ok] Let_def)

lemma z_pop_max_spec:
  assumes ok: "z_ok z"
  shows "\<exists>z'. z_pop_max c z = Some (take c (rev (z_items z)), z') \<and> z_ok z' \<and> z_room z' = z_room z \<and>
    rev (z_items z') = drop c (rev (z_items z))"
proof -
  have "distinct (map fst (rev (z_items z)))"
    using z_items_distinct(1) by (simp add: rev_map [symmetric])
  then have "filter (\<lambda>p. fst p \<notin> fst ` set (take c (rev (z_items z)))) (rev (z_items z)) =
      drop c (rev (z_items z))" by (rule filter_complement_take)
  then show ?thesis
    using z_remove_items [OF ok, of "map fst (take c (rev (z_items z)))"]
    by (auto simp: z_pop_max_def z_iter_items [OF ok] Let_def rev_filter [symmetric])
qed

lemma z_remove_by_score_spec:
  assumes ok: "z_ok z"
  shows "\<exists>z'. z_remove_by_score mn mx z =
      Some (length (filter (\<lambda>p. in_bounds mn mx (snd p)) (z_items z)), z') \<and> z_ok z' \<and>
    z_room z' = z_room z \<and> z_items z' = filter (\<lambda>p. \<not> in_bounds mn mx (snd p)) (z_items z)"
proof -
  let ?f = "filter (\<lambda>p. in_bounds mn mx (snd p)) (z_items z)"
  have "filter (\<lambda>p. fst p \<notin> fst ` set ?f) (z_items z) = filter (\<lambda>p. \<not> in_bounds mn mx (snd p)) (z_items z)"
  proof (rule filter_cong [OF refl])
    fix p assume p: "p \<in> set (z_items z)"
    have "q = p" if "q \<in> set (z_items z)" "fst q = fst p" for q
      using that p z_items_distinct(1) [of z] by (metis distinct_map inj_onD)
    then show "fst p \<notin> fst ` set ?f \<longleftrightarrow> \<not> in_bounds mn mx (snd p)" using p by force
  qed
  then show ?thesis
    using z_remove_items [OF ok, of "map fst ?f"]
    by (auto simp: z_remove_by_score_def z_iter_items [OF ok] Let_def bounds_fun)
qed

lemma remove_by_rank_slice:
  assumes ok: "z_ok z"
  shows "z_remove_by_rank start stop z =
    map_option (\<lambda>z'. (length (slice start stop (z_items z)), z'))
      (z_remove_all (map fst (slice start stop (z_items z))) z)"
proof (cases "z_len z = 0")
  case True
  then have "z_items z = []" using z_items_length [OF ok] by simp
  then show ?thesis
    using True by (simp add: z_remove_by_rank_def slice_def wrap_i64_def normalize_index_def as_usize_def
        z_iter_items [OF ok])
next
  case False
  let ?n = "z_len z" and ?a = "clamp_index start (z_len z)" and ?b = "clamp_index stop (z_len z)"
  have l: "length (z_items z) = ?n" by (rule z_items_length [OF ok])
  have ne: "z_items z \<noteq> []" using False l by auto
  have td: "slice start stop (z_items z) =
      (if min ?a ?n > min ?b (?n - 1) then []
       else take (min ?b (?n - 1) - min ?a ?n + 1) (drop (min ?a ?n) (z_items z)))"
    using take_drop_clamp [OF ne, where a = ?a and b = ?b, unfolded l] by (simp add: slice_def l)
  show ?thesis
    unfolding td using False z_len_bound [OF ok]
    by (cases "z_remove_all (map fst (take (min ?b (?n - 1) - min ?a ?n + 1) (drop (min ?a ?n) (z_items z)))) z")
      (auto simp: z_remove_by_rank_def Let_def z_len_i64 [OF ok] normalize_clamp as_usize_small
        z_iter_items [OF ok] l)
qed

lemma z_remove_by_rank_spec:
  assumes ok: "z_ok z"
  shows "\<exists>z'. z_remove_by_rank start stop z = Some (length (slice start stop (z_items z)), z') \<and>
    z_ok z' \<and> z_room z' = z_room z \<and>
    z_items z' = filter (\<lambda>p. p \<notin> set (slice start stop (z_items z))) (z_items z)"
proof -
  let ?s = "slice start stop (z_items z)"
  have sub: "set ?s \<subseteq> set (z_items z)" unfolding slice_def by (meson set_drop_subset set_take_subset subset_trans)
  have "fst p \<in> fst ` set ?s \<longleftrightarrow> p \<in> set ?s" if "p \<in> set (z_items z)" for p
    using sub that z_items_distinct(1) [of z] by (auto simp: distinct_map inj_on_def)
  then have "filter (\<lambda>p. fst p \<notin> set (map fst ?s)) (z_items z) = filter (\<lambda>p. p \<notin> set ?s) (z_items z)"
    by (simp cong: filter_cong)
  then show ?thesis
    using z_remove_items [OF ok, of "map fst ?s"] by (auto simp: remove_by_rank_slice [OF ok])
qed

end
