(* ===== verification/LogicalDb.thy ===== *)
theory LogicalDb imports ZSetCorrect begin

text \<open>
  \<open>RudisObject\<close> and \<open>LogicalDb\<close> of \<open>src/db/mod.rs\<close>: the values, one logical database with its
  expiry table, and the primitive accesses.  An \<open>Instant\<close> is a number of nanoseconds; \<open>now\<close>, the
  value \<open>Instant::now()\<close> returns, is an argument, read once per operation.  A mutable reference
  into the table is modelled by the value it refers to and a write back with \<open>ldb_put\<close>.
\<close>

datatype rudis_object =
    Str string
  | OList "string list"
  | OHash "(string, string) hash_map"
  | OSet "string list"
  | OZSet zset

fun type_name :: "rudis_object \<Rightarrow> string" where
  "type_name (Str _) = ''string''"
| "type_name (OList _) = ''list''"
| "type_name (OHash _) = ''hash''"
| "type_name (OSet _) = ''set''"
| "type_name (OZSet _) = ''zset''"

record logical_db =
  data :: "(string, rudis_object) hash_map"
  expiry :: "(string, nat) hash_map"

definition ldb_default :: logical_db where
  "ldb_default = \<lparr>data = [], expiry = []\<rparr>"

text \<open>
  \<open>Instant + Duration\<close>: an \<open>Instant\<close> holds at most \<open>i64::MAX\<close> seconds, and the sum panics beyond.
\<close>

definition instant_max :: nat where
  "instant_max = 9223372036854775808 * 1000000000 - 1"

definition instant_add :: "nat \<Rightarrow> nat \<Rightarrow> nat option" where
  "instant_add t d = (if t + d \<le> instant_max then Some (t + d) else None)"

definition from_secs :: "nat \<Rightarrow> nat" where "from_secs s = s * 1000000000"
definition from_millis :: "nat \<Rightarrow> nat" where "from_millis m = m * 1000000"
definition as_secs :: "nat \<Rightarrow> nat" where "as_secs d = d div 1000000000"
definition as_millis :: "nat \<Rightarrow> nat" where "as_millis d = d div 1000000"

subsection \<open>Accesses\<close>

definition ldb_get :: "nat \<Rightarrow> logical_db \<Rightarrow> string \<Rightarrow> rudis_object option" where
  "ldb_get now l key =
     (case hm_get (expiry l) key of
        Some e \<Rightarrow> if now \<ge> e then None else hm_get (data l) key
      | None \<Rightarrow> hm_get (data l) key)"

definition ldb_is_expired :: "nat \<Rightarrow> logical_db \<Rightarrow> string \<Rightarrow> bool" where
  "ldb_is_expired now l key =
     (case hm_get (expiry l) key of Some e \<Rightarrow> now \<ge> e | None \<Rightarrow> False)"

definition ldb_get_mut :: "nat \<Rightarrow> string \<Rightarrow> logical_db \<Rightarrow> rudis_object option \<times> logical_db" where
  "ldb_get_mut now key l =
     (if ldb_is_expired now l key
      then (None, l\<lparr>data := hm_remove key (data l), expiry := hm_remove key (expiry l)\<rparr>)
      else (hm_get (data l) key, l))"

definition ldb_put :: "string \<Rightarrow> rudis_object \<Rightarrow> logical_db \<Rightarrow> logical_db" where
  "ldb_put key v l = l\<lparr>data := hm_insert key v (data l)\<rparr>"

definition ldb_remove :: "string \<Rightarrow> logical_db \<Rightarrow> rudis_object option \<times> logical_db" where
  "ldb_remove key l =
     (hm_get (data l) key, l\<lparr>expiry := hm_remove key (expiry l), data := hm_remove key (data l)\<rparr>)"

definition ldb_insert :: "string \<Rightarrow> rudis_object \<Rightarrow> logical_db \<Rightarrow> logical_db" where
  "ldb_insert key v l =
     l\<lparr>expiry := hm_remove key (expiry l), data := hm_insert key v (data l)\<rparr>"

text \<open>\<open>data.entry(key).or_insert(v)\<close>: the value at the key, inserted first when absent.\<close>

definition ldb_entry :: "string \<Rightarrow> rudis_object \<Rightarrow> logical_db \<Rightarrow> rudis_object \<times> logical_db" where
  "ldb_entry key v l =
     (case hm_get (data l) key of Some x \<Rightarrow> (x, l) | None \<Rightarrow> (v, ldb_put key v l))"

definition ldb_set_expiry :: "nat \<Rightarrow> string \<Rightarrow> nat \<Rightarrow> logical_db \<Rightarrow> bool res \<times> logical_db" where
  "ldb_set_expiry now key dur l =
     (if hm_contains (data l) key
      then case instant_add now dur of
             None \<Rightarrow> (Panic, l)
           | Some e \<Rightarrow> (Ok True, l\<lparr>expiry := hm_insert key e (expiry l)\<rparr>)
      else (Ok False, l))"

definition ldb_set_expiry_at :: "string \<Rightarrow> nat \<Rightarrow> logical_db \<Rightarrow> bool \<times> logical_db" where
  "ldb_set_expiry_at key e l =
     (if hm_contains (data l) key then (True, l\<lparr>expiry := hm_insert key e (expiry l)\<rparr>)
      else (False, l))"

definition ldb_ttl_ms :: "nat \<Rightarrow> string \<Rightarrow> logical_db \<Rightarrow> int option" where
  "ldb_ttl_ms now key l =
     (if \<not> hm_contains (data l) key then Some (- 2)
      else case hm_get (expiry l) key of
             None \<Rightarrow> Some (- 1)
           | Some e \<Rightarrow> if now \<ge> e then Some (- 2)
                       else Some (wrap_i64 (int (as_millis (e - now)))))"

definition ldb_persist :: "string \<Rightarrow> logical_db \<Rightarrow> bool \<times> logical_db" where
  "ldb_persist key l =
     (hm_contains (expiry l) key, l\<lparr>expiry := hm_remove key (expiry l)\<rparr>)"

fun remove_keys :: "string list \<Rightarrow> logical_db \<Rightarrow> logical_db" where
  "remove_keys [] l = l"
| "remove_keys (k # ks) l =
     remove_keys ks (l\<lparr>data := hm_remove k (data l), expiry := hm_remove k (expiry l)\<rparr>)"

definition ldb_evict_expired :: "nat \<Rightarrow> logical_db \<Rightarrow> logical_db" where
  "ldb_evict_expired now l =
     remove_keys (map fst (filter (\<lambda>(_, e). now \<ge> e) (expiry l))) l"

definition ldb_clear :: "logical_db \<Rightarrow> logical_db" where
  "ldb_clear l = l\<lparr>data := [], expiry := []\<rparr>"

subsection \<open>Well-formed databases\<close>

fun obj_ok :: "rudis_object \<Rightarrow> bool" where
  "obj_ok (OHash h) = hm_wf h"
| "obj_ok (OSet s) = distinct s"
| "obj_ok (OZSet z) = z_ok z"
| "obj_ok _ = True"

definition ldb_ok :: "logical_db \<Rightarrow> bool" where
  "ldb_ok l \<longleftrightarrow> hm_wf (data l) \<and> hm_wf (expiry l) \<and>
     dom (hm_get (expiry l)) \<subseteq> dom (hm_get (data l)) \<and>
     (\<forall>k v. hm_get (data l) k = Some v \<longrightarrow> obj_ok v)"

named_theorems ldb_defs "the definitions of the primitive accesses"
lemmas [ldb_defs] = ldb_get_mut_def ldb_put_def ldb_remove_def ldb_insert_def ldb_entry_def
  ldb_set_expiry_def ldb_set_expiry_at_def ldb_persist_def ldb_clear_def

named_theorems keeps_ok "operations keep a logical database well-formed"

lemma ldb_okI:
  assumes "hm_wf (data l)" "hm_wf (expiry l)"
    and "\<And>k. hm_get (expiry l) k \<noteq> None \<Longrightarrow> hm_get (data l) k \<noteq> None"
    and "\<And>k v. hm_get (data l) k = Some v \<Longrightarrow> obj_ok v"
  shows "ldb_ok l"
  unfolding ldb_ok_def using assms by (auto simp: domIff)

lemma ldb_okD:
  assumes "ldb_ok l"
  shows "hm_wf (data l)" "hm_wf (expiry l)"
    "hm_get (expiry l) k = Some e \<Longrightarrow> \<exists>v. hm_get (data l) k = Some v"
    "hm_get (data l) k = Some v \<Longrightarrow> obj_ok v"
  using assms unfolding ldb_ok_def by (auto simp: domIff)

lemma ldb_default_ok: "ldb_ok ldb_default"
  by (rule ldb_okI) (auto simp: ldb_default_def)

lemma ldb_put_ok [keeps_ok]: "ldb_ok l \<Longrightarrow> obj_ok v \<Longrightarrow> ldb_ok (ldb_put key v l)"
  by (rule ldb_okI) (auto simp: ldb_put_def hm_get_insert ldb_okD split: if_splits)

lemma ldb_insert_ok [keeps_ok]: "ldb_ok l \<Longrightarrow> obj_ok v \<Longrightarrow> ldb_ok (ldb_insert key v l)"
  by (rule ldb_okI)
     (auto simp: ldb_insert_def hm_get_insert hm_get_remove ldb_okD split: if_splits)

lemma drop_key_ok:
  "ldb_ok l \<Longrightarrow> ldb_ok (l\<lparr>data := hm_remove key (data l), expiry := hm_remove key (expiry l)\<rparr>)"
  by (rule ldb_okI) (auto simp: hm_get_remove ldb_okD split: if_splits)

lemma ldb_remove_ok [keeps_ok]: "ldb_ok l \<Longrightarrow> ldb_ok (snd (ldb_remove key l))"
  by (rule ldb_okI) (auto simp: ldb_remove_def hm_get_remove ldb_okD split: if_splits)

lemma ldb_get_mut_ok [keeps_ok]: "ldb_ok l \<Longrightarrow> ldb_ok (snd (ldb_get_mut now key l))"
  using drop_key_ok [of l key] by (simp add: ldb_get_mut_def)

lemma ldb_entry_ok [keeps_ok]: "ldb_ok l \<Longrightarrow> obj_ok v \<Longrightarrow> ldb_ok (snd (ldb_entry key v l))"
  by (auto simp: ldb_entry_def ldb_put_ok split: option.splits)

lemma set_expiry_key_ok:
  "ldb_ok l \<Longrightarrow> hm_contains (data l) key \<Longrightarrow> ldb_ok (l\<lparr>expiry := hm_insert key e (expiry l)\<rparr>)"
  by (rule ldb_okI) (auto simp: hm_get_insert hm_contains_def ldb_okD split: if_splits)

lemma ldb_set_expiry_ok [keeps_ok]: "ldb_ok l \<Longrightarrow> ldb_ok (snd (ldb_set_expiry now key d l))"
  using set_expiry_key_ok [of l key] by (auto simp: ldb_set_expiry_def split: option.splits)

lemma ldb_set_expiry_at_ok [keeps_ok]: "ldb_ok l \<Longrightarrow> ldb_ok (snd (ldb_set_expiry_at key t l))"
  using set_expiry_key_ok [of l key] by (auto simp: ldb_set_expiry_at_def)

lemma ldb_persist_ok [keeps_ok]: "ldb_ok l \<Longrightarrow> ldb_ok (snd (ldb_persist key l))"
  by (rule ldb_okI) (auto simp: ldb_persist_def hm_get_remove ldb_okD split: if_splits)

lemma ldb_clear_ok [keeps_ok]: "ldb_ok (ldb_clear l)"
  by (rule ldb_okI) (auto simp: ldb_clear_def)

lemma remove_keys_ok: "ldb_ok l \<Longrightarrow> ldb_ok (remove_keys ks l)"
  by (induction ks arbitrary: l) (auto intro: drop_key_ok)

lemma ldb_evict_ok [keeps_ok]: "ldb_ok l \<Longrightarrow> ldb_ok (ldb_evict_expired now l)"
  by (simp add: ldb_evict_expired_def remove_keys_ok)

subsection \<open>What the accesses do, key by key\<close>

lemma ldb_get_put:
  "ldb_get now (ldb_put k v l) k' =
     (if k' = k then (if ldb_is_expired now l k then None else Some v) else ldb_get now l k')"
  by (auto simp: ldb_get_def ldb_put_def hm_get_insert ldb_is_expired_def split: option.splits)

lemma ldb_get_insert:
  "ldb_get now (ldb_insert k v l) k' = (if k' = k then Some v else ldb_get now l k')"
  by (auto simp: ldb_get_def ldb_insert_def hm_get_insert hm_get_remove split: option.splits)

lemma ldb_get_remove:
  "ldb_get now (snd (ldb_remove k l)) k' = (if k' = k then None else ldb_get now l k')"
  by (auto simp: ldb_get_def ldb_remove_def hm_get_remove split: option.splits)

lemma ldb_get_get_mut:
  "ldb_get now (snd (ldb_get_mut now k l)) k' = ldb_get now l k'"
  "fst (ldb_get_mut now k l) = ldb_get now l k"
  by (auto simp: ldb_get_def ldb_get_mut_def hm_get_remove ldb_is_expired_def split: option.splits)

lemma remove_keys_get:
  "hm_get (data (remove_keys ks l)) k = (if k \<in> set ks then None else hm_get (data l) k)"
  "hm_get (expiry (remove_keys ks l)) k = (if k \<in> set ks then None else hm_get (expiry l) k)"
  by (induction ks arbitrary: l) (auto simp: hm_get_remove)

text \<open>The background eviction is invisible: no later read can tell whether it ran.\<close>

lemma evicted_keys:
  "hm_wf e \<Longrightarrow> k \<in> set (map fst (filter (\<lambda>(_, x). now \<ge> x) e)) \<longleftrightarrow>
     (\<exists>x. hm_get e k = Some x \<and> now \<ge> x)"
  by (auto simp: hm_get_in_set) force

lemma ldb_get_evict:
  assumes ok: "ldb_ok l" and later: "now \<le> now'"
  shows "ldb_get now' (ldb_evict_expired now l) k = ldb_get now' l k"
  using later
  by (auto simp: ldb_get_def ldb_evict_expired_def remove_keys_get evicted_keys [OF ldb_okD(2) [OF ok]]
      simp del: set_map split: option.splits)

lemma evict_data:
  assumes ok: "ldb_ok l"
  shows "hm_get (data (ldb_evict_expired now l)) k = ldb_get now l k"
  by (auto simp: ldb_get_def ldb_evict_expired_def remove_keys_get evicted_keys [OF ldb_okD(2) [OF ok]]
      simp del: set_map split: option.splits)

end
