(* ===== verification/Database.thy ===== *)
theory Database imports LogicalDb begin

text \<open>
  \<open>Database\<close> of \<open>src/db/mod.rs\<close>: the vector of logical databases, the shape its methods share, and
  the well-formedness they all keep.  A method takes the index of a logical database; it answers
  \<open>DbIndexOutOfRange\<close> when there is none, and otherwise runs on that logical database alone.  A
  method that fails still returns the database it leaves.
\<close>

record database =
  dbs :: "logical_db list"

definition database_new :: "nat \<Rightarrow> database" where
  "database_new n = \<lparr>dbs = replicate n ldb_default\<rparr>"

text \<open>\<open>self.db(i)?\<close> and \<open>self.db_mut(i)?\<close>, followed by the rest of the method.\<close>

definition read_db :: "nat \<Rightarrow> database \<Rightarrow> (logical_db \<Rightarrow> 'a res) \<Rightarrow> 'a res" where
  "read_db i d f = (if i < length (dbs d) then f (dbs d ! i) else Err DbIndexOutOfRange)"

definition with_db ::
    "nat \<Rightarrow> database \<Rightarrow> (logical_db \<Rightarrow> 'a res \<times> logical_db) \<Rightarrow> 'a res \<times> database" where
  "with_db i d f =
     (if i < length (dbs d)
      then case f (dbs d ! i) of (r, l) \<Rightarrow> (r, d\<lparr>dbs := (dbs d)[i := l]\<rparr>)
      else (Err DbIndexOutOfRange, d))"

text \<open>
  The methods that create a missing value share \<open>data.entry(key).or_insert(v)\<close> and a match on the
  kind of the value; \<open>goc\<close> is that step, \<open>mk\<close> the constructor of the kind, and \<open>f\<close> what the method
  does with the value.
\<close>

definition on_entry ::
    "(string \<Rightarrow> logical_db \<Rightarrow> 'a res \<times> logical_db) \<Rightarrow> ('a \<Rightarrow> rudis_object) \<Rightarrow> string \<Rightarrow>
     ('a \<Rightarrow> 'b res \<times> 'a) \<Rightarrow> logical_db \<Rightarrow> 'b res \<times> logical_db" where
  "on_entry goc mk key f l =
     (case goc key l of
        (Ok x, l1) \<Rightarrow> (case f x of (r, x') \<Rightarrow> (r, ldb_put key (mk x') l1))
      | (Err e, l1) \<Rightarrow> (Err e, l1)
      | (Panic, l1) \<Rightarrow> (Panic, l1))"

text \<open>\<open>if v.is_empty() { ldb.remove(key); }\<close>\<close>

definition drop_if :: "bool \<Rightarrow> string \<Rightarrow> logical_db \<Rightarrow> logical_db" where
  "drop_if b key l = (if b then snd (ldb_remove key l) else l)"

text \<open>
  The methods that change a stored value, whatever its deadline, match on \<open>data.get_mut(key)\<close> and
  drop the key when they leave the value empty; \<open>un\<close> is the match, \<open>none_left\<close> the test.  A panic
  inside leaves before the test.
\<close>

definition on_stored ::
    "(rudis_object \<Rightarrow> 'a option) \<Rightarrow> ('a \<Rightarrow> rudis_object) \<Rightarrow> ('a \<Rightarrow> bool) \<Rightarrow> 'b res \<Rightarrow> string \<Rightarrow>
     ('a \<Rightarrow> 'b res \<times> 'a) \<Rightarrow> logical_db \<Rightarrow> 'b res \<times> logical_db" where
  "on_stored un mk none_left absent key f l =
     (case hm_get (data l) key of
        None \<Rightarrow> (absent, l)
      | Some v \<Rightarrow>
          (case un v of
             None \<Rightarrow> (Err WrongType, l)
           | Some x \<Rightarrow>
               (case f x of (r, x') \<Rightarrow>
                 (r, drop_if (r \<noteq> Panic \<and> none_left x') key (ldb_put key (mk x') l)))))"

subsection \<open>Well-formed databases and local operations\<close>

definition db_ok :: "database \<Rightarrow> bool" where
  "db_ok d \<longleftrightarrow> (\<forall>l\<in>set (dbs d). ldb_ok l)"

lemma database_new_ok: "db_ok (database_new n)"
  by (simp add: db_ok_def database_new_def ldb_default_ok)

lemma db_ok_nth: "db_ok d \<Longrightarrow> i < length (dbs d) \<Longrightarrow> ldb_ok (dbs d ! i)"
  by (simp add: db_ok_def)

text \<open>What a logical database holds at a key, value and deadline.\<close>

definition slot :: "logical_db \<Rightarrow> string \<Rightarrow> rudis_object option \<times> nat option" where
  "slot l k = (hm_get (data l) k, hm_get (expiry l) k)"

lemma ldb_get_slot: "slot l k = slot l' k \<Longrightarrow> ldb_get now l k = ldb_get now l' k"
  by (auto simp: slot_def ldb_get_def split: option.splits)

lemma slot_accesses:
  "slot (ldb_put key v l) k = (if k = key then (Some v, hm_get (expiry l) key) else slot l k)"
  "slot (ldb_insert key v l) k = (if k = key then (Some v, None) else slot l k)"
  "slot (snd (ldb_remove key l)) k = (if k = key then (None, None) else slot l k)"
  "slot (drop_if b key l) k = (if b \<and> k = key then (None, None) else slot l k)"
  by (auto simp: slot_def ldb_put_def ldb_insert_def ldb_remove_def drop_if_def
      hm_get_insert hm_get_remove)

lemma get_drop_put:
  "hm_get (data (drop_if b key (ldb_put key v l))) key = (if b then None else Some v)"
  by (simp add: drop_if_def ldb_remove_def ldb_put_def hm_get_insert hm_get_remove)

lemma slot_others:
  "k \<noteq> key \<Longrightarrow> slot (snd (ldb_get_mut now key l)) k = slot l k"
  "k \<noteq> key \<Longrightarrow> slot (snd (ldb_entry key v l)) k = slot l k"
  "k \<noteq> key \<Longrightarrow> slot (snd (ldb_set_expiry now key t l)) k = slot l k"
  "k \<noteq> key \<Longrightarrow> slot (snd (ldb_set_expiry_at key e l)) k = slot l k"
  "k \<noteq> key \<Longrightarrow> slot (snd (ldb_persist key l)) k = slot l k"
  by (auto simp: slot_def ldb_defs hm_get_insert hm_get_remove split: option.splits)

lemma drop_if_ok [keeps_ok]: "ldb_ok l \<Longrightarrow> ldb_ok (drop_if b key l)"
  by (simp add: drop_if_def ldb_remove_ok)

text \<open>
  A step on one logical database is local to the keys \<open>K\<close> when it keeps it well-formed and leaves
  the value and the deadline of every other key alone.
\<close>

definition local_step :: "string set \<Rightarrow> (logical_db \<Rightarrow> 'a res \<times> logical_db) \<Rightarrow> bool" where
  "local_step K f \<longleftrightarrow>
     (\<forall>l. (ldb_ok l \<longrightarrow> ldb_ok (snd (f l))) \<and> (\<forall>k. k \<notin> K \<longrightarrow> slot (snd (f l)) k = slot l k))"

lemma local_stepI:
  assumes "\<And>l. ldb_ok l \<Longrightarrow> ldb_ok (snd (f l))"
    and "\<And>l k. k \<notin> K \<Longrightarrow> slot (snd (f l)) k = slot l k"
  shows "local_step K f"
  using assms by (simp add: local_step_def)

lemma local_stepD:
  assumes "local_step K f"
  shows "ldb_ok l \<Longrightarrow> ldb_ok (snd (f l))" "k \<notin> K \<Longrightarrow> slot (snd (f l)) k = slot l k"
  using assms by (auto simp: local_step_def)

text \<open>
  A change of the whole database that stays within the keys \<open>K\<close> of logical database \<open>i\<close>: it keeps
  the database well-formed, the number of logical databases, and the value and deadline everywhere else.
\<close>

definition touches :: "nat \<Rightarrow> string set \<Rightarrow> database \<Rightarrow> database \<Rightarrow> bool" where
  "touches i K d d' \<longleftrightarrow>
     (db_ok d \<longrightarrow> db_ok d') \<and> length (dbs d') = length (dbs d) \<and>
     (\<forall>j k. j < length (dbs d) \<and> (j \<noteq> i \<or> k \<notin> K) \<longrightarrow> slot (dbs d' ! j) k = slot (dbs d ! j) k)"

lemma touches_refl [simp, intro]: "touches i K d d"
  by (simp add: touches_def)

lemma touches_trans: "touches i K d d1 \<Longrightarrow> touches i K d1 d2 \<Longrightarrow> touches i K d d2"
  by (auto simp: touches_def)

lemma touches_ok: "touches i K d d' \<Longrightarrow> db_ok d \<Longrightarrow> db_ok d'"
  by (simp add: touches_def)

text \<open>
  The contract of a method that works on one logical database and a set of keys, and what follows
  from it for the whole database.
\<close>

locale keyed_op =
  fixes run :: "nat \<Rightarrow> database \<Rightarrow> 'a res \<times> database" and K :: "string set"
  assumes on_one_db: "\<exists>f. local_step K f \<and> (\<forall>i d. run i d = with_db i d f)"
begin

lemma keeps_db_ok:
  assumes ok: "db_ok d" shows "db_ok (snd (run i d))"
proof -
  obtain f where f: "local_step K f" "\<And>i d. run i d = with_db i d f" using on_one_db by auto
  show ?thesis
    using ok local_stepD(1) [OF f(1) db_ok_nth [OF ok, of i]]
    by (auto simp: f(2) with_db_def db_ok_def split: prod.splits
        dest!: set_update_subset_insert [THEN subsetD])
qed

lemma other_key:
  assumes other: "j \<noteq> i \<or> k \<notin> K" and j: "j < length (dbs d)"
  shows "slot (dbs (snd (run i d)) ! j) k = slot (dbs d ! j) k"
proof -
  obtain f where f: "local_step K f" "\<And>i d. run i d = with_db i d f" using on_one_db by auto
  show ?thesis
  proof (cases "i < length (dbs d)")
    case True
    then show ?thesis
      using other j local_stepD(2) [OF f(1), of k]
      by (cases "j = i") (auto simp: f(2) with_db_def case_prod_beta)
  qed (simp add: f(2) with_db_def)
qed

lemma same_dbs: "length (dbs (snd (run i d))) = length (dbs d)"
proof -
  obtain f where "\<And>i d. run i d = with_db i d f" using on_one_db by auto
  then show ?thesis by (auto simp: with_db_def split: prod.splits)
qed

lemma stays: "touches i K d (snd (run i d))"
  using keeps_db_ok other_key same_dbs by (auto simp: touches_def)

lemma no_such_db: "\<not> i < length (dbs d) \<Longrightarrow> run i d = (Err DbIndexOutOfRange, d)"
  using on_one_db by (auto simp: with_db_def)

text \<open>So a read of another key, or of another logical database, does not notice the method.\<close>

lemma other_read:
  assumes "j \<noteq> i \<or> k \<notin> K"
  shows "read_db j (snd (run i d)) (\<lambda>l. Ok (ldb_get now l k)) = read_db j d (\<lambda>l. Ok (ldb_get now l k))"
proof (cases "j < length (dbs d)")
  case True
  then show ?thesis
    using ldb_get_slot [OF other_key [OF assms True]] by (simp add: read_db_def same_dbs)
qed (simp add: read_db_def same_dbs)

end

lemma keyed_opI:
  assumes "local_step K f" and "\<And>i d. run i d = with_db i d f"
  shows "keyed_op run K"
  by unfold_locales (use assms in auto)

subsection \<open>Results of methods\<close>

text \<open>What a client that reads at time \<open>now\<close> finds at a key of logical database \<open>i\<close>.\<close>

definition view :: "nat \<Rightarrow> database \<Rightarrow> nat \<Rightarrow> string \<Rightarrow> rudis_object option" where
  "view now d i k = ldb_get now (dbs d ! i) k"

lemma with_db_in:
  "i < length (dbs d) \<Longrightarrow>
   with_db i d f = (fst (f (dbs d ! i)), d\<lparr>dbs := (dbs d)[i := snd (f (dbs d ! i))]\<rparr>)"
  by (simp add: with_db_def case_prod_beta)

lemma read_db_in: "i < length (dbs d) \<Longrightarrow> read_db i d f = f (dbs d ! i)"
  by (simp add: read_db_def)

lemma view_with_db:
  "i < length (dbs d) \<Longrightarrow> view now (snd (with_db i d f)) i k = ldb_get now (snd (f (dbs d ! i))) k"
  by (simp add: with_db_in view_def)

lemma fst_with_db: "i < length (dbs d) \<Longrightarrow> fst (with_db i d f) = fst (f (dbs d ! i))"
  by (simp add: with_db_in)

text \<open>A database with one logical database that holds the given values, none with a deadline.\<close>

definition one_db :: "(string \<times> rudis_object) list \<Rightarrow> database" where
  "one_db kvs = \<lparr>dbs = [\<lparr>data = kvs, expiry = []\<rparr>]\<rparr>"

lemma one_db_simps:
  "length (dbs (one_db kvs)) = 1" "data (dbs (one_db kvs) ! 0) = kvs" "expiry (dbs (one_db kvs) ! 0) = []"
  "view now (one_db kvs) 0 k = map_of kvs k" "hm_get kvs k = map_of kvs k"
  by (simp_all add: one_db_def view_def ldb_get_def hm_get_def)

lemma one_db_ok: "distinct (map fst kvs) \<Longrightarrow> (\<And>k v. (k, v) \<in> set kvs \<Longrightarrow> obj_ok v) \<Longrightarrow> db_ok (one_db kvs)"
  by (auto simp: db_ok_def one_db_def hm_wf_def hm_get_def intro!: ldb_okI dest: map_of_SomeD)

lemmas db_simps = with_db_in read_db_in view_with_db fst_with_db case_prod_beta

subsection \<open>Steps on a value of one kind\<close>

text \<open>
  A kind of value: its constructor \<open>mk\<close>, the match \<open>un\<close> on it, and the values of the kind that are
  well-formed.
\<close>

locale value_shape =
  fixes un :: "rudis_object \<Rightarrow> 'a option" and mk :: "'a \<Rightarrow> rudis_object" and good :: "'a \<Rightarrow> bool"
  assumes un_iff: "un v = Some x \<longleftrightarrow> v = mk x"
    and mk_good: "obj_ok (mk x) = good x"
begin

lemma un_mk [simp]: "un (mk x) = Some x"
  by (simp add: un_iff)

lemma put_put: "ldb_put key v (ldb_put key w l) = ldb_put key v l"
  by (simp add: ldb_put_def hm_insert_def update_last)

lemma stored_there:
  "hm_get (data l) key = Some (mk x) \<Longrightarrow>
   on_stored un mk none_left absent key f l =
     (fst (f x), drop_if (fst (f x) \<noteq> Panic \<and> none_left (snd (f x))) key (ldb_put key (mk (snd (f x))) l))"
  by (simp add: on_stored_def case_prod_beta)

lemma stored_absent:
  "hm_get (data l) key = None \<Longrightarrow> on_stored un mk none_left absent key f l = (absent, l)"
  by (simp add: on_stored_def)

lemma stored_other:
  "hm_get (data l) key = Some v \<Longrightarrow> un v = None \<Longrightarrow> on_stored un mk none_left absent key f l = (Err WrongType, l)"
  by (simp add: on_stored_def)

lemma kind_cases:
  obtains (there) x where "hm_get (data l) key = Some (mk x)"
  | (absent) "hm_get (data l) key = None"
  | (other) v where "hm_get (data l) key = Some v" "un v = None"
  by (cases "hm_get (data l) key"; cases "un (the (hm_get (data l) key))") (auto simp: un_iff)

lemma stored_local:
  assumes keep: "\<And>x. good x \<Longrightarrow> good (snd (f x))"
  shows "local_step {key} (on_stored un mk none_left absent key f)"
proof (rule local_stepI)
  fix l assume ok: "ldb_ok l"
  show "ldb_ok (snd (on_stored un mk none_left absent key f l))"
  proof (cases rule: kind_cases [of l key])
    case (there x)
    then show ?thesis
      using ldb_okD(4) [OF ok there] keep
      by (simp add: stored_there drop_if_ok ldb_put_ok [OF ok] mk_good)
  qed (simp_all add: stored_absent stored_other ok)
next
  fix l k assume "k \<notin> {key}"
  then show "slot (snd (on_stored un mk none_left absent key f l)) k = slot l k"
    by (cases rule: kind_cases [of l key])
       (simp_all add: stored_there stored_absent stored_other slot_accesses)
qed

end

text \<open>
  The contract of the \<open>get_or_create\<close> functions: the value at the key when it is of the kind, an
  inserted empty value when there is none, and \<open>WrongType\<close> with nothing changed otherwise.
\<close>

locale value_kind = value_shape un mk good
  for un :: "rudis_object \<Rightarrow> 'a option" and mk :: "'a \<Rightarrow> rudis_object" and good :: "'a \<Rightarrow> bool" +
  fixes goc :: "string \<Rightarrow> logical_db \<Rightarrow> 'a res \<times> logical_db" and fresh :: 'a
  assumes goc_there: "hm_get (data l) key = Some (mk x) \<Longrightarrow> goc key l = (Ok x, l)"
    and goc_absent: "hm_get (data l) key = None \<Longrightarrow> goc key l = (Ok fresh, ldb_put key (mk fresh) l)"
    and goc_other: "hm_get (data l) key = Some v \<Longrightarrow> un v = None \<Longrightarrow> goc key l = (Err WrongType, l)"
    and fresh_good: "good fresh"
begin

lemma entry_there:
  "hm_get (data l) key = Some (mk x) \<Longrightarrow>
   on_entry goc mk key f l = (fst (f x), ldb_put key (mk (snd (f x))) l)"
  by (simp add: on_entry_def goc_there split: prod.splits)

lemma entry_absent:
  "hm_get (data l) key = None \<Longrightarrow>
   on_entry goc mk key f l = (fst (f fresh), ldb_put key (mk (snd (f fresh))) l)"
  by (simp add: on_entry_def goc_absent put_put split: prod.splits)

lemma entry_other:
  "hm_get (data l) key = Some v \<Longrightarrow> un v = None \<Longrightarrow> on_entry goc mk key f l = (Err WrongType, l)"
  by (simp add: on_entry_def goc_other)

lemma entry_local:
  assumes keep: "\<And>x. good x \<Longrightarrow> good (snd (f x))"
  shows "local_step {key} (on_entry goc mk key f)"
proof (rule local_stepI)
  fix l assume ok: "ldb_ok l"
  show "ldb_ok (snd (on_entry goc mk key f l))"
  proof (cases rule: kind_cases [of l key])
    case (there x)
    then show ?thesis
      using ldb_okD(4) [OF ok there] keep by (simp add: entry_there ldb_put_ok [OF ok] mk_good)
  next
    case absent
    then show ?thesis using keep [OF fresh_good] by (simp add: entry_absent ldb_put_ok [OF ok] mk_good)
  qed (simp add: entry_other ok)
next
  fix l k assume "k \<notin> {key}"
  then show "slot (snd (on_entry goc mk key f l)) k = slot l k"
    by (cases rule: kind_cases [of l key]) (simp_all add: entry_there entry_absent entry_other slot_accesses)
qed

end

end
