(* ===== verification/Keyspace.thy ===== *)
theory Keyspace imports Database begin

text \<open>
  The generic key operations of \<open>Database\<close> in \<open>src/db/mod.rs\<close> (existence, deletion, renaming,
  listing with a glob pattern, flushing) and the operations on deadlines.  \<open>now\<close> is the monotonic
  clock, \<open>wall\<close> the system clock in nanoseconds since the epoch, and \<open>pick\<close> the random choice of
  the \<open>rand\<close> crate.
\<close>

subsection \<open>Glob patterns\<close>

fun glob_match :: "string \<Rightarrow> string \<Rightarrow> bool" where
  "glob_match [] [] \<longleftrightarrow> True"
| "glob_match [] (c # s) \<longleftrightarrow> False"
| "glob_match (p # ps) [] \<longleftrightarrow> p = CHR ''*'' \<and> glob_match ps []"
| "glob_match (p # ps) (c # s) \<longleftrightarrow>
     (if p = CHR ''*'' then glob_match ps (c # s) \<or> glob_match (p # ps) s
      else if p = CHR ''?'' then glob_match ps s
      else if p = c then glob_match ps s
      else False)"

text \<open>The strings a pattern denotes.\<close>

fun glob_lang :: "string \<Rightarrow> string set" where
  "glob_lang [] = {[]}"
| "glob_lang (p # ps) =
     (if p = CHR ''*'' then {u @ v |u v. v \<in> glob_lang ps}
      else if p = CHR ''?'' then {c # v |c v. v \<in> glob_lang ps}
      else {p # v |v. v \<in> glob_lang ps})"

lemma star_lang:
  "s \<in> {u @ v |u v. v \<in> L} \<longleftrightarrow> s \<in> L \<or> (s \<noteq> [] \<and> tl s \<in> {u @ v |u v. v \<in> L})"
proof
  assume "s \<in> {u @ v |u v. v \<in> L}"
  then obtain u v where "s = u @ v" "v \<in> L" by auto
  then show "s \<in> L \<or> (s \<noteq> [] \<and> tl s \<in> {u @ v |u v. v \<in> L})" by (cases u) auto
next
  assume "s \<in> L \<or> (s \<noteq> [] \<and> tl s \<in> {u @ v |u v. v \<in> L})"
  then show "s \<in> {u @ v |u v. v \<in> L}"
  proof
    assume "s \<in> L" then show ?thesis by (auto intro: exI [of _ "[]"])
  next
    assume *: "s \<noteq> [] \<and> tl s \<in> {u @ v |u v. v \<in> L}"
    then obtain u v where "tl s = u @ v" "v \<in> L" by auto
    then have "s = (hd s # u) @ v" using * by (cases s) auto
    then show ?thesis using \<open>v \<in> L\<close> by blast
  qed
qed

lemma glob_match_lang: "glob_match p s \<longleftrightarrow> s \<in> glob_lang p"
proof (induction p s rule: glob_match.induct)
  case (4 p ps c s)
  show ?case
  proof (cases "p = CHR ''*''")
    case True
    then show ?thesis using 4 star_lang [of "c # s" "glob_lang ps"] by auto
  qed (use 4 in auto)
qed auto

subsection \<open>Keys\<close>

definition exists_keys :: "nat \<Rightarrow> nat \<Rightarrow> database \<Rightarrow> string list \<Rightarrow> int res" where
  "exists_keys now i d keys =
     read_db i d (\<lambda>l. Ok (wrap_i64 (int (length (filter (\<lambda>k. ldb_get now l k \<noteq> None) keys)))))"

fun del_keys :: "string list \<Rightarrow> logical_db \<Rightarrow> nat \<times> logical_db" where
  "del_keys [] l = (0, l)"
| "del_keys (k # ks) l =
     (case ldb_remove k l of (v, l1) \<Rightarrow>
       (case del_keys ks l1 of (n, l2) \<Rightarrow> (if v \<noteq> None then Suc n else n, l2)))"

definition del :: "nat \<Rightarrow> database \<Rightarrow> string list \<Rightarrow> int res \<times> database" where
  "del i d keys =
     with_db i d (\<lambda>l. case del_keys keys l of (n, l1) \<Rightarrow> (Ok (wrap_i64 (int n)), l1))"

definition type_of :: "nat \<Rightarrow> nat \<Rightarrow> database \<Rightarrow> string \<Rightarrow> string res" where
  "type_of now i d key =
     read_db i d (\<lambda>l. case ldb_get now l key of None \<Rightarrow> Ok ''none'' | Some v \<Rightarrow> Ok (type_name v))"

definition rename :: "nat \<Rightarrow> database \<Rightarrow> string \<Rightarrow> string \<Rightarrow> unit res \<times> database" where
  "rename i d src dst =
     with_db i d (\<lambda>l. case ldb_remove src l of
        (None, l1) \<Rightarrow> (Err NoSuchKey, l1)
      | (Some v, l1) \<Rightarrow> (Ok (), ldb_insert dst v l1))"

definition renamenx :: "nat \<Rightarrow> nat \<Rightarrow> database \<Rightarrow> string \<Rightarrow> string \<Rightarrow> bool res \<times> database" where
  "renamenx now i d src dst =
     with_db i d (\<lambda>l.
       if ldb_get now l dst \<noteq> None then (Ok False, l)
       else case ldb_remove src l of
              (None, l1) \<Rightarrow> (Err NoSuchKey, l1)
            | (Some v, l1) \<Rightarrow> (Ok True, ldb_insert dst v l1))"

definition not_expired :: "nat \<Rightarrow> logical_db \<Rightarrow> string \<Rightarrow> bool" where
  "not_expired now l k = (case hm_get (expiry l) k of Some e \<Rightarrow> now < e | None \<Rightarrow> True)"

definition keys :: "nat \<Rightarrow> nat \<Rightarrow> database \<Rightarrow> string \<Rightarrow> string list res" where
  "keys now i d pattern =
     read_db i d (\<lambda>l. Ok (filter (\<lambda>k. not_expired now l k \<and> glob_match pattern k) (hm_keys (data l))))"

definition dbsize :: "nat \<Rightarrow> nat \<Rightarrow> database \<Rightarrow> nat res" where
  "dbsize now i d =
     read_db i d (\<lambda>l. Ok (length (filter (not_expired now l) (hm_keys (data l)))))"

definition flushdb :: "nat \<Rightarrow> database \<Rightarrow> unit res \<times> database" where
  "flushdb i d = with_db i d (\<lambda>l. (Ok (), ldb_clear l))"

definition flushall :: "database \<Rightarrow> database" where
  "flushall d = d\<lparr>dbs := map ldb_clear (dbs d)\<rparr>"

definition randomkey ::
    "(string list \<Rightarrow> string) \<Rightarrow> nat \<Rightarrow> nat \<Rightarrow> database \<Rightarrow> string option res" where
  "randomkey pick now i d =
     read_db i d (\<lambda>l. let ks = filter (not_expired now l) (hm_keys (data l))
                      in Ok (if ks = [] then None else Some (pick ks)))"

subsection \<open>Deadlines\<close>

definition expire :: "nat \<Rightarrow> nat \<Rightarrow> database \<Rightarrow> string \<Rightarrow> int \<Rightarrow> bool res \<times> database" where
  "expire now i d key secs =
     with_db i d (\<lambda>l.
       if secs < 0 then (case ldb_remove key l of (v, l1) \<Rightarrow> (Ok (v \<noteq> None), l1))
       else ldb_set_expiry now key (from_secs (as_usize secs)) l)"

definition pexpire :: "nat \<Rightarrow> nat \<Rightarrow> database \<Rightarrow> string \<Rightarrow> int \<Rightarrow> bool res \<times> database" where
  "pexpire now i d key ms =
     with_db i d (\<lambda>l.
       if ms < 0 then (case ldb_remove key l of (v, l1) \<Rightarrow> (Ok (v \<noteq> None), l1))
       else ldb_set_expiry now key (from_millis (as_usize ms)) l)"

text \<open>
  A deadline given on the system clock; \<open>UNIX_EPOCH + duration\<close> and \<open>Instant::now() + diff\<close> panic
  when the sum does not fit.
\<close>

definition expire_at_target ::
    "nat \<Rightarrow> nat \<Rightarrow> string \<Rightarrow> nat \<Rightarrow> logical_db \<Rightarrow> bool res \<times> logical_db" where
  "expire_at_target now wall key target l =
     (if target > instant_max then (Panic, l)
      else if target \<le> wall then (case ldb_remove key l of (v, l1) \<Rightarrow> (Ok (v \<noteq> None), l1))
      else case instant_add now (target - wall) of
             None \<Rightarrow> (Panic, l)
           | Some e \<Rightarrow> (case ldb_set_expiry_at key e l of (b, l1) \<Rightarrow> (Ok b, l1)))"

definition expireat :: "nat \<Rightarrow> nat \<Rightarrow> nat \<Rightarrow> database \<Rightarrow> string \<Rightarrow> int \<Rightarrow> bool res \<times> database" where
  "expireat now wall i d key ts =
     with_db i d (expire_at_target now wall key (from_secs (as_usize ts)))"

definition pexpireat :: "nat \<Rightarrow> nat \<Rightarrow> nat \<Rightarrow> database \<Rightarrow> string \<Rightarrow> int \<Rightarrow> bool res \<times> database" where
  "pexpireat now wall i d key ts =
     with_db i d (expire_at_target now wall key (from_millis (as_usize ts)))"

definition pttl :: "nat \<Rightarrow> nat \<Rightarrow> database \<Rightarrow> string \<Rightarrow> int res" where
  "pttl now i d key =
     read_db i d (\<lambda>l. Ok (case ldb_ttl_ms now key l of None \<Rightarrow> - 2 | Some ms \<Rightarrow> ms))"

definition ttl :: "nat \<Rightarrow> nat \<Rightarrow> database \<Rightarrow> string \<Rightarrow> int res" where
  "ttl now i d key = bind_res (pttl now i d key) (\<lambda>ms. Ok (if ms \<ge> 0 then ms div 1000 else ms))"

definition persist :: "nat \<Rightarrow> database \<Rightarrow> string \<Rightarrow> bool res \<times> database" where
  "persist i d key = with_db i d (\<lambda>l. case ldb_persist key l of (b, l1) \<Rightarrow> (Ok b, l1))"

definition evict_expired :: "nat \<Rightarrow> database \<Rightarrow> database" where
  "evict_expired now d = d\<lparr>dbs := map (ldb_evict_expired now) (dbs d)\<rparr>"

subsection \<open>Locality\<close>

lemma del_keys_ok: "ldb_ok l \<Longrightarrow> ldb_ok (snd (del_keys ks l))"
proof (induction ks arbitrary: l)
  case (Cons k ks)
  show ?case using Cons.IH [OF ldb_remove_ok [OF Cons.prems, of k]] by (simp add: case_prod_beta)
qed simp

lemma del_keys_slot: "slot (snd (del_keys ks l)) k = (if k \<in> set ks then (None, None) else slot l k)"
proof (induction ks arbitrary: l)
  case (Cons a ks)
  show ?case using Cons.IH [of "snd (ldb_remove a l)"] by (simp add: slot_accesses case_prod_beta)
qed simp

lemma local_del: "local_step (set ks) (\<lambda>l. case del_keys ks l of (n, l1) \<Rightarrow> (g n, l1))"
  by (rule local_stepI) (simp_all add: case_prod_beta del_keys_ok del_keys_slot)

lemma local_remove_or:
  "local_step {key} f \<Longrightarrow>
   local_step {key} (\<lambda>l. if b then (case ldb_remove key l of (v, l1) \<Rightarrow> (g v, l1)) else f l)"
  by (rule local_stepI) (auto simp: case_prod_beta slot_accesses ldb_remove_ok dest: local_stepD)

lemma local_set_expiry: "local_step {key} (ldb_set_expiry now key t)"
  by (rule local_stepI) (auto simp: slot_others ldb_set_expiry_ok)

lemma local_expire_at: "local_step {key} (expire_at_target now wall key t)"
  by (rule local_stepI)
     (auto simp: expire_at_target_def case_prod_beta slot_others slot_accesses keeps_ok
       split: option.splits)

lemma local_persist: "local_step {key} (\<lambda>l. case ldb_persist key l of (b, l1) \<Rightarrow> (Ok b, l1))"
  by (rule local_stepI) (simp_all add: case_prod_beta slot_others ldb_persist_ok)

lemma remove_insert_ok:
  "ldb_ok l \<Longrightarrow> ldb_remove src l = (Some v, l1) \<Longrightarrow> ldb_ok (ldb_insert dst v l1)"
  using ldb_remove_ok [of l src] ldb_okD(4) [of l src v]
  by (auto simp: ldb_remove_def intro: ldb_insert_ok)

lemma local_rename:
  "local_step {src, dst} (\<lambda>l. case ldb_remove src l of
        (None, l1) \<Rightarrow> (Err NoSuchKey, l1)
      | (Some v, l1) \<Rightarrow> (Ok u, ldb_insert dst v l1))"
proof (rule local_stepI)
  fix l assume ok: "ldb_ok l"
  then show "ldb_ok (snd (case ldb_remove src l of (None, l1) \<Rightarrow> (Err NoSuchKey, l1)
      | (Some v, l1) \<Rightarrow> (Ok u, ldb_insert dst v l1)))"
    using ldb_remove_ok [OF ok, of src] remove_insert_ok [OF ok]
    by (auto split: prod.splits option.splits)
next
  fix l k assume "k \<notin> {src, dst}"
  then show "slot (snd (case ldb_remove src l of (None, l1) \<Rightarrow> (Err NoSuchKey, l1)
      | (Some v, l1) \<Rightarrow> (Ok u, ldb_insert dst v l1))) k = slot l k"
    by (auto simp: slot_def ldb_remove_def ldb_insert_def hm_get_remove hm_get_insert
        split: option.splits)
qed

lemma local_if: "local_step K f \<Longrightarrow> local_step K (\<lambda>l. if b l then (r, l) else f l)"
  by (rule local_stepI) (auto dest: local_stepD)

interpretation del: keyed_op "\<lambda>i d. del i d ks" "set ks" for ks
  by (rule keyed_opI [OF local_del del_def])

interpretation rename: keyed_op "\<lambda>i d. rename i d src dst" "{src, dst}" for src dst
  by (rule keyed_opI [OF local_rename rename_def])

interpretation renamenx: keyed_op "\<lambda>i d. renamenx now i d src dst" "{src, dst}" for now src dst
  by (rule keyed_opI [OF local_if [OF local_rename] renamenx_def])

interpretation expire: keyed_op "\<lambda>i d. expire now i d key secs" "{key}" for now key secs
  by (rule keyed_opI [OF local_remove_or [OF local_set_expiry] expire_def])

interpretation pexpire: keyed_op "\<lambda>i d. pexpire now i d key ms" "{key}" for now key ms
  by (rule keyed_opI [OF local_remove_or [OF local_set_expiry] pexpire_def])

interpretation expireat: keyed_op "\<lambda>i d. expireat now wall i d key ts" "{key}" for now wall key ts
  by (rule keyed_opI [OF local_expire_at expireat_def])

interpretation pexpireat: keyed_op "\<lambda>i d. pexpireat now wall i d key ts" "{key}" for now wall key ts
  by (rule keyed_opI [OF local_expire_at pexpireat_def])

interpretation persist: keyed_op "\<lambda>i d. persist i d key" "{key}" for key
  by (rule keyed_opI [OF local_persist persist_def])

interpretation flushdb: keyed_op flushdb UNIV
  by (rule keyed_opI [OF _ flushdb_def]) (simp add: local_step_def ldb_clear_ok)

subsection \<open>What the key operations do\<close>

lemma not_expired_get: "ldb_get now l k \<noteq> None \<longleftrightarrow> hm_get (data l) k \<noteq> None \<and> not_expired now l k"
  by (auto simp: ldb_get_def not_expired_def split: option.splits)

lemma live_keys:
  assumes "ldb_ok l"
  shows "set (filter (not_expired now l) (hm_keys (data l))) = dom (ldb_get now l)"
    and "distinct (filter (not_expired now l) (hm_keys (data l)))"
  using ldb_okD(1) [OF assms] not_expired_get [of now l]
  by (auto simp: hm_keys_set hm_wf_def hm_keys_def [symmetric] dom_def)

text \<open>C25: \<open>KEYS\<close> lists, each once, exactly the keys a client can see whose name the pattern denotes,
  where \<open>*\<close> denotes every string and \<open>?\<close> every single byte.\<close>

theorem keys_spec:
  assumes ok: "db_ok d" and i: "i < length (dbs d)"
  shows "\<exists>ks. keys now i d pattern = Ok ks \<and> distinct ks \<and>
    set ks = {k. view now d i k \<noteq> None \<and> k \<in> glob_lang pattern}"
proof (intro exI conjI)
  let ?l = "dbs d ! i"
  have ok': "ldb_ok ?l" using ok i by (rule db_ok_nth)
  let ?ks = "filter (glob_match pattern) (filter (not_expired now ?l) (hm_keys (data ?l)))"
  show "keys now i d pattern = Ok ?ks" using i by (simp add: keys_def db_simps conj_commute)
  show "distinct ?ks" using live_keys(2) [OF ok', of now] by (rule distinct_filter)
  show "set ?ks = {k. view now d i k \<noteq> None \<and> k \<in> glob_lang pattern}"
    using live_keys(1) [OF ok', of now] by (auto simp: view_def glob_match_lang)
qed

theorem keys_spec_witness:
  "\<exists>ks. keys 0 0 (one_db [(''ab'', Str ''x''), (''c'', Str ''y'')]) ''a?'' = Ok ks \<and> distinct ks \<and>
     set ks = {k. view 0 (one_db [(''ab'', Str ''x''), (''c'', Str ''y'')]) 0 k \<noteq> None \<and> k \<in> glob_lang ''a?''}"
  by (rule keys_spec) (auto simp: one_db_simps intro!: one_db_ok)

lemma dbsize_spec:
  "db_ok d \<Longrightarrow> i < length (dbs d) \<Longrightarrow> dbsize now i d = Ok (card {k. view now d i k \<noteq> None})"
  using live_keys [OF db_ok_nth, of d i now] distinct_card [of "filter (not_expired now (dbs d ! i)) (hm_keys (data (dbs d ! i)))"]
  by (simp add: dbsize_def db_simps view_def dom_def)

lemma del_keys_count:
  "fst (del_keys ks l) = card (set ks \<inter> dom (hm_get (data l)))"
proof (induction ks arbitrary: l)
  case (Cons k ks)
  let ?D = "dom (hm_get (data l))"
  have dom: "dom (hm_get (data (snd (ldb_remove k l)))) = ?D - {k}"
    by (auto simp: ldb_remove_def hm_get_remove split: if_splits)
  have "insert k (set ks) \<inter> ?D = (if k \<in> ?D then insert k (set ks \<inter> (?D - {k})) else set ks \<inter> (?D - {k}))"
    by auto
  then show ?case
    using Cons.IH [of "snd (ldb_remove k l)"] unfolding dom
    by (auto simp: case_prod_beta ldb_remove_def domIff)
qed simp

lemma rename_step:
  assumes "hm_get (data l) src = Some v"
  shows "ldb_get now (ldb_insert dst v (snd (ldb_remove src l))) k =
     (if k = dst then Some v else if k = src then None else ldb_get now l k)"
  by (simp add: ldb_get_insert ldb_get_remove)

text \<open>C29: \<open>RENAME\<close> of a stored key moves its value to the new name without a deadline, removes the
  old name, and leaves every other key alone; with no stored key it fails with \<open>NoSuchKey\<close> and
  nothing a client can read changes.\<close>

theorem rename_spec:
  assumes i: "i < length (dbs d)"
  shows "fst (rename i d src dst) =
      (if hm_contains (data (dbs d ! i)) src then Ok () else Err NoSuchKey) \<and>
    view now (snd (rename i d src dst)) i =
      (case hm_get (data (dbs d ! i)) src of
         None \<Rightarrow> view now d i
       | Some v \<Rightarrow> (view now d i)(src := None, dst \<mapsto> v))"
  using i
  by (auto simp: rename_def db_simps hm_contains_def ldb_remove_def fun_eq_iff view_def
      ldb_get_insert ldb_get_def ldb_insert_def hm_get_insert hm_get_remove split: option.splits)

theorem rename_spec_witness:
  "view 0 (snd (rename 0 (one_db [(''a'', Str ''x'')]) ''a'' ''b'')) 0 ''b'' = Some (Str ''x'')"
  using rename_spec [of 0 "one_db [(''a'', Str ''x'')]" "''a''" "''b''" 0] by (simp add: one_db_simps)

subsection \<open>What the deadlines do\<close>

text \<open>C30: After a successful \<open>EXPIRE\<close> or \<open>PEXPIRE\<close> with a duration that is not negative, the key keeps
  its value for exactly that long: a later read finds it until the deadline and nothing from the
  deadline on.\<close>

theorem expire_visible:
  assumes i: "i < length (dbs d)" and s: "0 \<le> s" "in_i64 s"
    and ran: "(fst (expire now i d key s) = Ok True \<and> d' = snd (expire now i d key s) \<and> dur = nat s * 1000000000) \<or>
      (fst (pexpire now i d key s) = Ok True \<and> d' = snd (pexpire now i d key s) \<and> dur = nat s * 1000000)"
  shows "view later d' i key =
    (if later < now + dur then hm_get (data (dbs d ! i)) key else None)"
  using i s ran
  by (auto simp: expire_def pexpire_def db_simps as_usize_id from_secs_def from_millis_def view_def
      ldb_set_expiry_def instant_add_def ldb_get_def hm_get_insert split: if_splits)

theorem expire_visible_witness:
  "view 10000000004 (snd (expire 5 0 (one_db [(''a'', Str ''x'')]) ''a'' 10)) 0 ''a'' = Some (Str ''x'')"
proof -
  have "fst (expire 5 0 (one_db [(''a'', Str ''x'')]) ''a'' 10) = Ok True"
    by (simp add: expire_def db_simps ldb_set_expiry_def one_db_simps hm_contains_def instant_add_def
        from_secs_def as_usize_def instant_max_def)
  then show ?thesis
    using expire_visible [of 0 "one_db [(''a'', Str ''x'')]" 10 5 "''a''"
        "snd (expire 5 0 (one_db [(''a'', Str ''x'')]) ''a'' 10)" 10000000000 10000000004]
    by (simp add: one_db_simps in_i64_def i64_min_def i64_max_def)
qed

lemma millis_bound: "t \<le> 9223372036854775807 * 1000000 \<Longrightarrow> in_i64 (int (as_millis t))"
  by (auto simp: as_millis_def in_i64_def i64_min_def i64_max_def div_le_mono)

text \<open>C31: \<open>TTL\<close> answers the whole seconds left until the deadline when it is less than 2^63 milliseconds
  away, -1 for a key with no deadline, and -2 for a key that is missing or past its deadline.\<close>

theorem ttl_spec:
  assumes i: "i < length (dbs d)"
    and near: "\<And>e. hm_get (expiry (dbs d ! i)) key = Some e \<Longrightarrow> e - now \<le> 9223372036854775807 * 1000000"
  shows "ttl now i d key = Ok (case view now d i key of
      None \<Rightarrow> - 2
    | Some v \<Rightarrow> (case hm_get (expiry (dbs d ! i)) key of
         None \<Rightarrow> - 1 | Some e \<Rightarrow> int ((e - now) div 1000000000)))"
proof (cases "hm_get (expiry (dbs d ! i)) key")
  case None
  then show ?thesis
    using i by (auto simp: ttl_def pttl_def db_simps ldb_ttl_ms_def view_def ldb_get_def
        hm_contains_def split: option.splits)
next
  case (Some e)
  have "wrap_i64 (int (as_millis (e - now))) = int (as_millis (e - now))"
    by (rule wrap_i64_id [OF millis_bound [OF near [OF Some]]])
  moreover have "int (as_millis t) div 1000 = int (t div 1000000000)" for t
    by (simp add: as_millis_def zdiv_int div_mult2_eq [symmetric] flip: zdiv_int)
  ultimately show ?thesis
    using i Some by (auto simp: ttl_def pttl_def db_simps ldb_ttl_ms_def view_def ldb_get_def
        hm_contains_def split: option.splits)
qed

theorem ttl_spec_witness:
  "ttl 5 0 (one_db [(''a'', Str ''x'')]) ''a'' = Ok (- 1)"
  using ttl_spec [of 0 "one_db [(''a'', Str ''x'')]" "''a''" 5] by (simp add: one_db_simps)

text \<open>The background eviction is invisible: whatever it removes, no read at that time or later can
  tell whether it ran, and afterwards no expired key is stored.\<close>

theorem evict_invisible:
  assumes ok: "db_ok d" and i: "i < length (dbs d)"
  shows "db_ok (evict_expired now d) \<and>
    (\<forall>later k. now \<le> later \<longrightarrow> view later (evict_expired now d) i k = view later d i k) \<and>
    (\<forall>k. hm_get (data (dbs (evict_expired now d) ! i)) k = view now d i k)"
  using ok i ldb_get_evict [OF db_ok_nth [OF ok i], of now] evict_data [OF db_ok_nth [OF ok i], of now]
  by (auto simp: evict_expired_def db_ok_def view_def ldb_evict_ok)

theorem evict_invisible_witness:
  "view 7 (evict_expired 5 (one_db [(''a'', Str ''x'')])) 0 ''a'' = Some (Str ''x'')"
  using evict_invisible [OF one_db_ok, of "[(''a'', Str ''x'')]" 0 5] by (simp add: one_db_simps)

end
