(* ===== verification/DbString.thy ===== *)
theory DbString imports Keyspace begin

text \<open>
  The string operations of \<open>Database\<close> in \<open>src/db/mod.rs\<close>.  The operations that go through
  \<open>data.entry(key)\<close> (append, the increments, setrange) look at the stored value whatever its
  deadline; the others look at the value a client can see.
\<close>

subsection \<open>Reading and writing\<close>

definition str_get :: "nat \<Rightarrow> nat \<Rightarrow> database \<Rightarrow> string \<Rightarrow> string option res" where
  "str_get now i d key =
     read_db i d (\<lambda>l. case ldb_get now l key of
        None \<Rightarrow> Ok None | Some (Str v) \<Rightarrow> Ok (Some v) | _ \<Rightarrow> Err WrongType)"

text \<open>\<open>ldb.insert(key, value); if let Some(dur) = expire { ldb.set_expiry(&key, dur); }\<close>\<close>

definition insert_str ::
    "nat \<Rightarrow> string \<Rightarrow> string \<Rightarrow> nat option \<Rightarrow> 'a \<Rightarrow> logical_db \<Rightarrow> 'a res \<times> logical_db" where
  "insert_str now key value dur r l =
     (case dur of
        None \<Rightarrow> (Ok r, ldb_insert key (Str value) l)
      | Some t \<Rightarrow> (case ldb_set_expiry now key t (ldb_insert key (Str value) l) of
                    (b, l1) \<Rightarrow> (map_res (\<lambda>_. r) b, l1)))"

definition str_set ::
    "nat \<Rightarrow> nat \<Rightarrow> database \<Rightarrow> string \<Rightarrow> string \<Rightarrow> nat option \<Rightarrow> unit res \<times> database" where
  "str_set now i d key value dur = with_db i d (insert_str now key value dur ())"

definition str_setnx :: "nat \<Rightarrow> nat \<Rightarrow> database \<Rightarrow> string \<Rightarrow> string \<Rightarrow> bool res \<times> database" where
  "str_setnx now i d key value =
     with_db i d (\<lambda>l. if ldb_get now l key \<noteq> None then (Ok False, l)
                      else (Ok True, ldb_insert key (Str value) l))"

definition str_setxx ::
    "nat \<Rightarrow> nat \<Rightarrow> database \<Rightarrow> string \<Rightarrow> string \<Rightarrow> nat option \<Rightarrow> bool res \<times> database" where
  "str_setxx now i d key value dur =
     with_db i d (\<lambda>l. if ldb_get now l key = None then (Ok False, l)
                      else insert_str now key value dur True l)"

definition str_getset ::
    "nat \<Rightarrow> nat \<Rightarrow> database \<Rightarrow> string \<Rightarrow> string \<Rightarrow> string option res \<times> database" where
  "str_getset now i d key value =
     (case str_get now i d key of
        Ok old \<Rightarrow> (case str_set now i d key value None of (r, d1) \<Rightarrow> (map_res (\<lambda>_. old) r, d1))
      | Err e \<Rightarrow> (Err e, d)
      | Panic \<Rightarrow> (Panic, d))"

definition str_getdel :: "nat \<Rightarrow> database \<Rightarrow> string \<Rightarrow> string option res \<times> database" where
  "str_getdel i d key =
     with_db i d (\<lambda>l. case ldb_remove key l of
        (None, l1) \<Rightarrow> (Ok None, l1)
      | (Some (Str v), l1) \<Rightarrow> (Ok (Some v), l1)
      | (Some other, l1) \<Rightarrow> (Err WrongType, ldb_insert key other l1))"

definition un_str :: "rudis_object \<Rightarrow> string option" where
  "un_str v = (case v of Str s \<Rightarrow> Some s | _ \<Rightarrow> None)"

text \<open>\<open>data.entry(key).or_insert(Str(init))\<close> and the match on its kind.\<close>

definition entry_str :: "string \<Rightarrow> string \<Rightarrow> logical_db \<Rightarrow> string res \<times> logical_db" where
  "entry_str init key l =
     (case ldb_entry key (Str init) l of (Str v, l1) \<Rightarrow> (Ok v, l1) | (_, l1) \<Rightarrow> (Err WrongType, l1))"

definition str_append :: "nat \<Rightarrow> database \<Rightarrow> string \<Rightarrow> string \<Rightarrow> nat res \<times> database" where
  "str_append i d key val =
     with_db i d (on_entry (entry_str '''') Str key (\<lambda>v. (Ok (length (v @ val)), v @ val)))"

definition str_strlen :: "nat \<Rightarrow> nat \<Rightarrow> database \<Rightarrow> string \<Rightarrow> nat res" where
  "str_strlen now i d key =
     read_db i d (\<lambda>l. case ldb_get now l key of
        None \<Rightarrow> Ok 0 | Some (Str v) \<Rightarrow> Ok (length v) | _ \<Rightarrow> Err WrongType)"

subsection \<open>Increments\<close>

text \<open>The new integer \<open>INCRBY\<close> and \<open>HINCRBY\<close> compute from the stored bytes.\<close>

definition incr_value :: "string \<Rightarrow> int \<Rightarrow> int res" where
  "incr_value v delta =
     (case from_utf8 v of None \<Rightarrow> Err NotInteger
      | Some s \<Rightarrow> (case parse_i64_str (trim s) of None \<Rightarrow> Err NotInteger
         | Some n \<Rightarrow> (case checked_add_i64 n delta of
              None \<Rightarrow> Err (Generic ''ERR increment or decrement would overflow'')
            | Some r \<Rightarrow> Ok r)))"

definition str_incr :: "nat \<Rightarrow> database \<Rightarrow> string \<Rightarrow> int \<Rightarrow> int res \<times> database" where
  "str_incr i d key delta =
     with_db i d (on_entry (entry_str ''0'') Str key (\<lambda>v.
       case incr_value v delta of Ok r \<Rightarrow> (Ok r, show_int r) | Err e \<Rightarrow> (Err e, v) | Panic \<Rightarrow> (Panic, v)))"

definition parse_float_value :: "string \<Rightarrow> f64 res" where
  "parse_float_value v =
     (case from_utf8 v of None \<Rightarrow> Err NotFloat
      | Some s \<Rightarrow> (case parse_f64_str (trim s) of None \<Rightarrow> Err NotFloat | Some n \<Rightarrow> Ok n))"

definition str_incr_float :: "nat \<Rightarrow> database \<Rightarrow> string \<Rightarrow> f64 \<Rightarrow> f64 res \<times> database" where
  "str_incr_float i d key delta =
     with_db i d (on_entry (entry_str ''0'') Str key (\<lambda>v.
       case parse_float_value v of
         Ok n \<Rightarrow> (let r = f_add n delta in
                   if is_nan r \<or> is_infinite r
                   then (Err (Generic ''ERR increment would produce NaN or Infinity''), v)
                   else (Ok r, format_float r))
       | Err e \<Rightarrow> (Err e, v) | Panic \<Rightarrow> (Panic, v)))"

subsection \<open>Ranges\<close>

definition str_getrange :: "nat \<Rightarrow> nat \<Rightarrow> database \<Rightarrow> string \<Rightarrow> int \<Rightarrow> int \<Rightarrow> string res" where
  "str_getrange now i d key start stop =
     read_db i d (\<lambda>l. case ldb_get now l key of
        None \<Rightarrow> Ok ''''
      | Some (Str v) \<Rightarrow>
          (let len = wrap_i64 (int (length v));
               s = normalize_index start len;
               e = min (normalize_index stop len) (nat (max (len - 1) 0))
           in if s > e \<or> s \<ge> length v then Ok ''''
              else Ok (take (min e (length v - 1) + 1 - s) (drop s v)))
      | _ \<Rightarrow> Err WrongType)"

text \<open>
  \<open>offset + val.len()\<close> wraps; \<open>resize\<close> panics beyond the capacity of a vector, and the slice
  panics when its end is before its start or past the vector.
\<close>

definition setrange_value :: "nat \<Rightarrow> string \<Rightarrow> string \<Rightarrow> nat res \<times> string" where
  "setrange_value offset val v =
     (let needed = (offset + length val) mod (usize_max + 1)
      in if length v < needed \<and> \<not> capacity_ok 1 needed then (Panic, v)
         else let v1 = (if length v < needed then v @ replicate (needed - length v) (chr 0) else v)
              in if offset \<le> needed \<and> needed \<le> length v1
                 then (Ok (length v1), take offset v1 @ val @ drop needed v1)
                 else (Panic, v1))"

definition str_setrange :: "nat \<Rightarrow> database \<Rightarrow> string \<Rightarrow> nat \<Rightarrow> string \<Rightarrow> nat res \<times> database" where
  "str_setrange i d key offset val =
     with_db i d (on_entry (entry_str '''') Str key (setrange_value offset val))"

subsection \<open>Several keys\<close>

fun insert_pairs :: "(string \<times> string) list \<Rightarrow> logical_db \<Rightarrow> logical_db" where
  "insert_pairs [] l = l"
| "insert_pairs ((k, v) # ps) l = insert_pairs ps (ldb_insert k (Str v) l)"

definition mset_pairs :: "nat \<Rightarrow> database \<Rightarrow> (string \<times> string) list \<Rightarrow> unit res \<times> database" where
  "mset_pairs i d pairs = with_db i d (\<lambda>l. (Ok (), insert_pairs pairs l))"

definition mget :: "nat \<Rightarrow> nat \<Rightarrow> database \<Rightarrow> string list \<Rightarrow> string option list res" where
  "mget now i d ks =
     read_db i d (\<lambda>l. Ok (map (\<lambda>k. case ldb_get now l k of Some (Str v) \<Rightarrow> Some v | _ \<Rightarrow> None) ks))"

definition msetnx :: "nat \<Rightarrow> nat \<Rightarrow> database \<Rightarrow> (string \<times> string) list \<Rightarrow> bool res \<times> database" where
  "msetnx now i d pairs =
     with_db i d (\<lambda>l. if \<exists>p\<in>set pairs. ldb_get now l (fst p) \<noteq> None then (Ok False, l)
                      else (Ok True, insert_pairs pairs l))"

subsection \<open>Locality\<close>

interpretation str0: value_kind un_str Str "\<lambda>_. True" "entry_str init" init for init
  by unfold_locales (auto simp: entry_str_def ldb_entry_def un_str_def split: rudis_object.splits)

lemma insert_str_slot:
  "slot (snd (insert_str now key v dur r l)) k =
     (if k = key then (Some (Str v), case dur of None \<Rightarrow> None | Some t \<Rightarrow> instant_add now t) else slot l k)"
  by (auto simp: insert_str_def slot_def ldb_defs hm_get_insert hm_get_remove hm_contains_def case_prod_beta
      split: option.splits)

lemma local_insert_str: "local_step {key} (insert_str now key v dur r)"
proof (rule local_stepI)
  show "ldb_ok l \<Longrightarrow> ldb_ok (snd (insert_str now key v dur r l))" for l
    by (auto simp: insert_str_def case_prod_beta keeps_ok split: option.splits)
qed (simp add: insert_str_slot)

lemma local_insert: "obj_ok v \<Longrightarrow> local_step {key} (\<lambda>l. (r, ldb_insert key v l))"
  by (rule local_stepI) (simp_all add: ldb_insert_ok slot_accesses)

lemma insert_pairs_get:
  "ldb_get now (insert_pairs ps l) k =
     (case map_of (rev ps) k of Some v \<Rightarrow> Some (Str v) | None \<Rightarrow> ldb_get now l k)"
proof (induction ps arbitrary: l)
  case (Cons p ps)
  obtain a v where "p = (a, v)" by fastforce
  then show ?case using Cons.IH [of "ldb_insert a (Str v) l"]
    by (auto simp: ldb_get_insert map_add_def split: option.splits)
qed simp

lemma local_insert_pairs: "local_step (fst ` set ps) (\<lambda>l. (r, insert_pairs ps l))"
proof (rule local_stepI)
  show "ldb_ok l \<Longrightarrow> ldb_ok (snd (r, insert_pairs ps l))" for l
    by (induction ps l rule: insert_pairs.induct) (auto simp: ldb_insert_ok)
  show "k \<notin> fst ` set ps \<Longrightarrow> slot (snd (r, insert_pairs ps l)) k = slot l k" for l k
    by (induction ps l rule: insert_pairs.induct) (auto simp: slot_accesses)
qed

lemma local_getdel:
  "local_step {key} (\<lambda>l. case ldb_remove key l of
        (None, l1) \<Rightarrow> (Ok None, l1)
      | (Some (Str v), l1) \<Rightarrow> (Ok (Some v), l1)
      | (Some other, l1) \<Rightarrow> (Err WrongType, ldb_insert key other l1))"
proof (rule local_stepI)
  fix l assume ok: "ldb_ok l"
  show "ldb_ok (snd (case ldb_remove key l of
        (None, l1) \<Rightarrow> (Ok None, l1)
      | (Some (Str v), l1) \<Rightarrow> (Ok (Some v), l1)
      | (Some other, l1) \<Rightarrow> (Err WrongType, ldb_insert key other l1)))"
    using ldb_remove_ok [OF ok, of key] remove_insert_ok [OF ok]
    by (auto split: prod.splits option.splits rudis_object.splits)
qed (auto simp: slot_def ldb_remove_def ldb_insert_def hm_get_remove hm_get_insert
    split: option.splits rudis_object.splits)

lemma getset_step:
  "str_getset now i d key value =
     with_db i d (\<lambda>l. case ldb_get now l key of
        None \<Rightarrow> insert_str now key value None None l
      | Some (Str v) \<Rightarrow> insert_str now key value None (Some v) l
      | _ \<Rightarrow> (Err WrongType, l))"
  by (auto simp: str_getset_def str_get_def str_set_def read_db_def with_db_def insert_str_def
      list_update_id split: option.splits rudis_object.splits)

lemma local_getset:
  "local_step {key} (\<lambda>l. case ldb_get now l key of
        None \<Rightarrow> insert_str now key value None None l
      | Some (Str v) \<Rightarrow> insert_str now key value None (Some v) l
      | _ \<Rightarrow> (Err WrongType, l))"
  by (rule local_stepI)
     (auto simp: insert_str_slot local_stepD(1) [OF local_insert_str] split: option.splits rudis_object.splits)

interpretation str_set: keyed_op "\<lambda>i d. str_set now i d key v dur" "{key}" for now key v dur
  by (rule keyed_opI [OF local_insert_str str_set_def])

interpretation str_setnx: keyed_op "\<lambda>i d. str_setnx now i d key v" "{key}" for now key v
  by (rule keyed_opI [OF local_if [OF local_insert] str_setnx_def]) simp

interpretation str_setxx: keyed_op "\<lambda>i d. str_setxx now i d key v dur" "{key}" for now key v dur
  by (rule keyed_opI [OF local_if [OF local_insert_str] str_setxx_def])

interpretation str_getset: keyed_op "\<lambda>i d. str_getset now i d key v" "{key}" for now key v
  by (rule keyed_opI [OF local_getset getset_step])

interpretation str_getdel: keyed_op "\<lambda>i d. str_getdel i d key" "{key}" for key
  by (rule keyed_opI [OF local_getdel str_getdel_def])

interpretation str_append: keyed_op "\<lambda>i d. str_append i d key v" "{key}" for key v
  by (rule keyed_opI [OF str0.entry_local str_append_def]) simp

interpretation str_incr: keyed_op "\<lambda>i d. str_incr i d key n" "{key}" for key n
  by (rule keyed_opI [OF str0.entry_local str_incr_def]) simp

interpretation str_incr_float: keyed_op "\<lambda>i d. str_incr_float i d key x" "{key}" for key x
  by (rule keyed_opI [OF str0.entry_local str_incr_float_def]) simp

interpretation str_setrange: keyed_op "\<lambda>i d. str_setrange i d key off v" "{key}" for key off v
  by (rule keyed_opI [OF str0.entry_local str_setrange_def]) simp

interpretation mset_pairs: keyed_op "\<lambda>i d. mset_pairs i d ps" "fst ` set ps" for ps
  by (rule keyed_opI [OF local_insert_pairs mset_pairs_def])

interpretation msetnx: keyed_op "\<lambda>i d. msetnx now i d ps" "fst ` set ps" for now ps
  by (rule keyed_opI [OF local_if [OF local_insert_pairs] msetnx_def])

subsection \<open>What the string operations do\<close>

text \<open>C32: What \<open>SET\<close> stores, \<open>GET\<close> returns byte for byte until the deadline it set, and nothing from
  the deadline on.\<close>

theorem str_set_get:
  assumes i: "i < length (dbs d)" and ran: "fst (str_set now i d key v dur) = Ok ()"
  shows "str_get later i (snd (str_set now i d key v dur)) key =
    Ok (case dur of None \<Rightarrow> Some v | Some t \<Rightarrow> if later < now + t then Some v else None)"
  using i ran
  by (auto simp: str_set_def str_get_def db_simps insert_str_def ldb_get_def ldb_set_expiry_def
      ldb_insert_def hm_contains_def hm_get_insert hm_get_remove instant_add_def
      split: option.splits if_splits)

theorem str_set_get_witness:
  "str_get 12 0 (snd (str_set 3 0 (database_new 1) ''k'' ''v'' (Some 10))) ''k'' = Ok (Some ''v'')"
proof -
  have "fst (str_set 3 0 (database_new 1) ''k'' ''v'' (Some 10)) = Ok ()"
    by (simp add: str_set_def database_new_def db_simps insert_str_def ldb_set_expiry_def ldb_insert_def
        hm_contains_def hm_get_insert instant_add_def instant_max_def)
  then show ?thesis
    using str_set_get [of 0 "database_new 1" 3 "''k''" "''v''" "Some 10" 12] by (simp add: database_new_def)
qed

text \<open>\<open>MSETNX\<close> is all or nothing: it answers true exactly when a client sees none of its keys, and
  then stores every pair (the last one of a repeated key); otherwise it changes nothing.\<close>

theorem msetnx_atomic:
  assumes i: "i < length (dbs d)"
  shows "if \<exists>k\<in>fst ` set ps. view now d i k \<noteq> None
    then msetnx now i d ps = (Ok False, d)
    else fst (msetnx now i d ps) = Ok True \<and>
      view now (snd (msetnx now i d ps)) i = view now d i ++ map_of (map (map_prod id Str) (rev ps))"
proof -
  have m: "map_of (map (map_prod id Str) qs) k = map_option Str (map_of qs k)" for qs :: "(string \<times> string) list" and k
    by (induction qs) auto
  show ?thesis
    using i
    by (auto simp: msetnx_def db_simps view_def fun_eq_iff insert_pairs_get map_add_def m
        list_update_id split: option.splits)
qed

theorem msetnx_atomic_witness:
  "msetnx 0 0 (one_db [(''a'', Str ''x'')]) [(''b'', ''1''), (''a'', ''2'')] =
     (Ok False, one_db [(''a'', Str ''x'')])"
  using msetnx_atomic [of 0 "one_db [(''a'', Str ''x'')]" "[(''b'', ''1''), (''a'', ''2'')]" 0]
  by (simp add: one_db_simps)

text \<open>The integer a counter holds, seen as \<open>INCR\<close> sees it.\<close>

definition stored_int :: "logical_db \<Rightarrow> string \<Rightarrow> int option" where
  "stored_int l key =
     (case hm_get (data l) key of
        None \<Rightarrow> Some 0
      | Some (Str v) \<Rightarrow> if utf8_valid v then parse_i64_str (trim v) else None
      | _ \<Rightarrow> None)"

lemma incr_value_eq:
  "incr_value v n =
     (case (if utf8_valid v then parse_i64_str (trim v) else None) of
        None \<Rightarrow> Err NotInteger
      | Some m \<Rightarrow> if in_i64 (m + n) then Ok (m + n)
                  else Err (Generic ''ERR increment or decrement would overflow''))"
  by (simp add: incr_value_def from_utf8_def checked_add_i64_def split: option.splits)

lemma parse_zero [simp]: "parse_i64_str (trim ''0'') = Some 0" "utf8_valid ''0''"
proof -
  have z: "show_int 0 = ''0''" by code_simp
  show "parse_i64_str (trim ''0'') = Some 0"
    using parse_i64_show [of 0] by (simp add: z [symmetric] in_i64_def i64_min_def i64_max_def)
  show "utf8_valid ''0''" using utf8_valid_ascii [OF ascii_show_int [of 0]] by (simp add: z)
qed

lemma stored_show: "utf8_valid (show_int n)" "in_i64 n \<Longrightarrow> parse_i64_str (trim (show_int n)) = Some n"
  by (simp_all add: parse_i64_show utf8_valid_ascii ascii_show_int)

text \<open>C20: \<open>INCRBY\<close> and \<open>DECRBY\<close> are checked addition on the counter a key holds, a missing key holding
  0: in range the answer and the new counter are the exact sum, out of range the operation fails
  and the counter keeps its value.\<close>

theorem str_incr_counter:
  assumes i: "i < length (dbs d)" and n: "stored_int (dbs d ! i) key = Some n"
  shows "fst (str_incr i d key delta) =
      (if in_i64 (n + delta) then Ok (n + delta)
       else Err (Generic ''ERR increment or decrement would overflow'')) \<and>
    stored_int (dbs (snd (str_incr i d key delta)) ! i) key =
      Some (if in_i64 (n + delta) then n + delta else n)"
  using i n
  by (cases rule: str0.kind_cases [of "dbs d ! i" key])
     (auto simp: str_incr_def db_simps str0.entry_there str0.entry_absent incr_value_eq stored_int_def
       ldb_put_def hm_get_insert stored_show parse_i64_show
       split: option.splits rudis_object.splits if_splits)

theorem str_incr_counter_witness:
  "fst (str_incr 0 (database_new 1) ''hits'' 9223372036854775807) = Ok 9223372036854775807"
  using str_incr_counter [of 0 "database_new 1" "''hits''" 0 9223372036854775807]
  by (simp add: database_new_def ldb_default_def stored_int_def in_i64_def i64_min_def i64_max_def)

text \<open>\<open>GETRANGE\<close> returns the bytes between the two positions, both included, a negative position
  counting from the end and one before the first byte meaning the first byte.\<close>

theorem str_getrange_slice:
  assumes i: "i < length (dbs d)" and v: "view now d i key = Some (Str v)" and small: "length v \<le> isize_max"
  shows "str_getrange now i d key start stop = Ok (slice start stop v)"
proof (cases "v = []")
  case True
  then show ?thesis
    using i v by (simp add: str_getrange_def db_simps view_def slice_def wrap_i64_def normalize_index_def)
next
  case False
  have w: "wrap_i64 (int (length v)) = int (length v)"
    using small by (intro wrap_i64_id) (simp add: in_i64_def i64_min_def i64_max_def isize_max_def)
  let ?a = "clamp_index start (length v)" and ?b = "clamp_index stop (length v)" and ?n = "length v - 1"
  have n: "nat (max (int (length v) - 1) 0) = ?n" "nat (int (length v) - 1) = length v - Suc 0"
    using False by (cases v; simp)+
  have "str_getrange now i d key start stop = Ok (if ?a > min ?b ?n \<or> ?a \<ge> length v then []
      else take (min (min ?b ?n) ?n + 1 - ?a) (drop ?a v))"
    using i v False by (simp add: str_getrange_def db_simps view_def w normalize_clamp Let_def n)
  also have "\<dots> = Ok (take (Suc ?b - ?a) (drop ?a v))"
    using False by (cases "?b < length v") (auto simp: min_def not_less Suc_diff_le)
  finally show ?thesis by (simp add: slice_def)
qed

theorem str_getrange_slice_witness:
  "str_getrange 0 0 (one_db [(''k'', Str ''hello'')]) ''k'' (- 3) (- 1) = Ok ''llo''"
  using str_getrange_slice [of 0 "one_db [(''k'', Str ''hello'')]" 0 "''k''" "''hello''" "- 3" "- 1"]
  by (simp add: one_db_simps isize_max_def slice_def clamp_index_def)

text \<open>\<open>SETRANGE\<close> overwrites the bytes from the offset on, pads a gap before it with zero bytes, and
  keeps the bytes behind what it writes; the answer is the new length.\<close>

theorem str_setrange_bytes:
  assumes i: "i < length (dbs d)" and fits: "offset + length val \<le> isize_max"
    and v: "hm_get (data (dbs d ! i)) key = (if v = [] then None else Some (Str v))"
  shows "\<exists>w. str_setrange i d key offset val =
        (Ok (length w), d\<lparr>dbs := (dbs d)[i := ldb_put key (Str w) (dbs d ! i)]\<rparr>) \<and>
      length w = max (length v) (offset + length val) \<and>
      (\<forall>p < length w. w ! p = (if offset \<le> p \<and> p < offset + length val then val ! (p - offset)
         else if p < length v then v ! p else chr 0))"
proof -
  let ?n = "offset + length val"
  let ?w0 = "v @ replicate (?n - length v) (chr 0)"
  let ?w = "take offset ?w0 @ val @ drop ?n ?w0"
  have m: "?n mod (usize_max + 1) = ?n" using fits by (simp add: isize_max_def usize_max_def)
  have step: "setrange_value offset val v = (Ok (length ?w), ?w)"
    unfolding setrange_value_def m Let_def using fits by (auto simp: capacity_ok_def)
  have entry: "on_entry (entry_str '''') Str key f (dbs d ! i) =
      (fst (f v), ldb_put key (Str (snd (f v))) (dbs d ! i))" for f :: "string \<Rightarrow> nat res \<times> string"
    using v by (cases "v = []") (simp_all add: str0.entry_there str0.entry_absent)
  have run: "str_setrange i d key offset val =
      (Ok (length ?w), d\<lparr>dbs := (dbs d)[i := ldb_put key (Str ?w) (dbs d ! i)]\<rparr>)"
    using i entry [of "setrange_value offset val"] unfolding step
    by (simp add: str_setrange_def db_simps)
  have "\<forall>p < length ?w. ?w ! p = (if offset \<le> p \<and> p < ?n then val ! (p - offset)
         else if p < length v then v ! p else chr 0)"
    by (auto simp: nth_append split: split_min)
  then show ?thesis using run by (intro exI [of _ ?w]) auto
qed

theorem str_setrange_bytes_witness:
  "\<exists>w. fst (str_setrange 0 (one_db [(''k'', Str ''hello'')]) ''k'' 3 ''XYZ'') = Ok (length w) \<and> w ! 3 = CHR ''X''"
proof -
  obtain w where w: "str_setrange 0 (one_db [(''k'', Str ''hello'')]) ''k'' 3 ''XYZ'' =
        (Ok (length w), (one_db [(''k'', Str ''hello'')])\<lparr>dbs := (dbs (one_db [(''k'', Str ''hello'')]))
          [0 := ldb_put ''k'' (Str w) (dbs (one_db [(''k'', Str ''hello'')]) ! 0)]\<rparr>)"
      "length w = max (length ''hello'') (3 + length ''XYZ'')"
      "\<forall>p < length w. w ! p = (if 3 \<le> p \<and> p < 3 + length ''XYZ'' then ''XYZ'' ! (p - 3)
         else if p < length ''hello'' then ''hello'' ! p else chr 0)"
    using str_setrange_bytes [of 0 "one_db [(''k'', Str ''hello'')]" 3 "''XYZ''" "''k''" "''hello''"]
    by (auto simp: one_db_simps isize_max_def)
  then show ?thesis by (intro exI [of _ w]) simp
qed

end
