(* ===== verification/DbList.thy ===== *)
theory DbList imports DbString "HOL-Library.Multiset" begin

text \<open>
  The list operations of \<open>Database\<close> in \<open>src/db/mod.rs\<close>.  A \<open>VecDeque\<close> is a list.  \<open>LPUSHX\<close>,
  \<open>RPUSHX\<close>, \<open>LSET\<close>, \<open>LINSERT\<close> and \<open>LREM\<close> reach the value through \<open>get_mut\<close>, which drops an expired
  key; pushes, pops, trims and moves look at the stored value.
\<close>

subsection \<open>Reaching a list\<close>

definition un_list :: "rudis_object \<Rightarrow> string list option" where
  "un_list v = (case v of OList xs \<Rightarrow> Some xs | _ \<Rightarrow> None)"

definition get_list :: "nat \<Rightarrow> nat \<Rightarrow> database \<Rightarrow> string \<Rightarrow> string list option res" where
  "get_list now i d key =
     read_db i d (\<lambda>l. case ldb_get now l key of
        None \<Rightarrow> Ok None | Some (OList xs) \<Rightarrow> Ok (Some xs) | _ \<Rightarrow> Err WrongType)"

text \<open>\<open>get_list_mut\<close> and the match on its result: \<open>absent\<close> is the answer when there is no list.\<close>

definition get_list_mut ::
    "nat \<Rightarrow> 'b res \<Rightarrow> string \<Rightarrow> (string list \<Rightarrow> 'b res \<times> string list) \<Rightarrow> logical_db \<Rightarrow> 'b res \<times> logical_db"
where
  "get_list_mut now absent key f l =
     (case ldb_get_mut now key l of
        (None, l1) \<Rightarrow> (absent, l1)
      | (Some (OList xs), l1) \<Rightarrow> (case f xs of (r, xs') \<Rightarrow> (r, ldb_put key (OList xs') l1))
      | (_, l1) \<Rightarrow> (Err WrongType, l1))"

definition get_or_create_list :: "string \<Rightarrow> logical_db \<Rightarrow> string list res \<times> logical_db" where
  "get_or_create_list key l =
     (case ldb_entry key (OList []) l of (OList xs, l1) \<Rightarrow> (Ok xs, l1) | (_, l1) \<Rightarrow> (Err WrongType, l1))"

subsection \<open>Pushes and pops\<close>

fun push_fronts :: "string list \<Rightarrow> string list \<Rightarrow> string list" where
  "push_fronts [] xs = xs"
| "push_fronts (v # vs) xs = push_fronts vs (v # xs)"

fun push_backs :: "string list \<Rightarrow> string list \<Rightarrow> string list" where
  "push_backs [] xs = xs"
| "push_backs (v # vs) xs = push_backs vs (xs @ [v])"

definition lpush :: "nat \<Rightarrow> database \<Rightarrow> string \<Rightarrow> string list \<Rightarrow> nat res \<times> database" where
  "lpush i d key vs =
     with_db i d (on_entry get_or_create_list OList key
       (\<lambda>xs. let ys = push_fronts vs xs in (Ok (length ys), ys)))"

definition rpush :: "nat \<Rightarrow> database \<Rightarrow> string \<Rightarrow> string list \<Rightarrow> nat res \<times> database" where
  "rpush i d key vs =
     with_db i d (on_entry get_or_create_list OList key
       (\<lambda>xs. let ys = push_backs vs xs in (Ok (length ys), ys)))"

definition lpushx :: "nat \<Rightarrow> nat \<Rightarrow> database \<Rightarrow> string \<Rightarrow> string list \<Rightarrow> nat res \<times> database" where
  "lpushx now i d key vs =
     with_db i d (get_list_mut now (Ok 0) key (\<lambda>xs. let ys = push_fronts vs xs in (Ok (length ys), ys)))"

definition rpushx :: "nat \<Rightarrow> nat \<Rightarrow> database \<Rightarrow> string \<Rightarrow> string list \<Rightarrow> nat res \<times> database" where
  "rpushx now i d key vs =
     with_db i d (get_list_mut now (Ok 0) key (\<lambda>xs. let ys = push_backs vs xs in (Ok (length ys), ys)))"

text \<open>The loops of \<open>lpop\<close> and \<open>rpop\<close>: what was popped, in order, and what is left.\<close>

fun pop_fronts :: "nat \<Rightarrow> 'a list \<Rightarrow> 'a list \<times> 'a list" where
  "pop_fronts 0 xs = ([], xs)"
| "pop_fronts (Suc n) [] = ([], [])"
| "pop_fronts (Suc n) (x # xs) = (case pop_fronts n xs of (ps, ys) \<Rightarrow> (x # ps, ys))"

fun pop_backs :: "nat \<Rightarrow> 'a list \<Rightarrow> 'a list \<times> 'a list" where
  "pop_backs 0 xs = ([], xs)"
| "pop_backs (Suc n) xs =
     (if xs = [] then ([], []) else case pop_backs n (butlast xs) of (ps, ys) \<Rightarrow> (last xs # ps, ys))"

text \<open>The size of a \<open>Vec<u8>\<close>; \<open>Vec::with_capacity(count)\<close> panics past the capacity of a vector.\<close>

definition vec_size :: nat where "vec_size = 24"

definition lpop :: "nat \<Rightarrow> database \<Rightarrow> string \<Rightarrow> nat \<Rightarrow> string list res \<times> database" where
  "lpop i d key cnt =
     with_db i d (on_stored un_list OList (\<lambda>xs. xs = []) (Ok []) key (\<lambda>xs.
       if \<not> capacity_ok vec_size cnt then (Panic, xs)
       else case pop_fronts cnt xs of (ps, ys) \<Rightarrow> (Ok ps, ys)))"

definition rpop :: "nat \<Rightarrow> database \<Rightarrow> string \<Rightarrow> nat \<Rightarrow> string list res \<times> database" where
  "rpop i d key cnt =
     with_db i d (on_stored un_list OList (\<lambda>xs. xs = []) (Ok []) key (\<lambda>xs.
       if \<not> capacity_ok vec_size cnt then (Panic, xs)
       else case pop_backs cnt xs of (ps, ys) \<Rightarrow> (Ok ps, ys)))"

subsection \<open>Reading\<close>

definition llen :: "nat \<Rightarrow> nat \<Rightarrow> database \<Rightarrow> string \<Rightarrow> nat res" where
  "llen now i d key =
     bind_res (get_list now i d key) (\<lambda>r. Ok (case r of None \<Rightarrow> 0 | Some xs \<Rightarrow> length xs))"

definition lrange :: "nat \<Rightarrow> nat \<Rightarrow> database \<Rightarrow> string \<Rightarrow> int \<Rightarrow> int \<Rightarrow> string list res" where
  "lrange now i d key start stop =
     bind_res (get_list now i d key) (\<lambda>r. case r of
       None \<Rightarrow> Ok []
     | Some xs \<Rightarrow>
         (let len = wrap_i64 (int (length xs));
              s = normalize_index start len;
              e = min (normalize_index stop len) (nat (max (len - 1) 0))
          in if s > length xs \<or> (len > 0 \<and> s > e) then Ok []
             else Ok (take (e - s + 1) (drop s xs))))"

definition lindex :: "nat \<Rightarrow> nat \<Rightarrow> database \<Rightarrow> string \<Rightarrow> int \<Rightarrow> string option res" where
  "lindex now i d key index =
     bind_res (get_list now i d key) (\<lambda>r. case r of
       None \<Rightarrow> Ok None
     | Some xs \<Rightarrow> Ok (idx xs (normalize_index index (wrap_i64 (int (length xs))))))"

subsection \<open>Changing elements\<close>

definition lset :: "nat \<Rightarrow> nat \<Rightarrow> database \<Rightarrow> string \<Rightarrow> int \<Rightarrow> string \<Rightarrow> unit res \<times> database" where
  "lset now i d key index v =
     with_db i d (get_list_mut now (Err NoSuchKey) key (\<lambda>xs.
       case set_idx xs (normalize_index index (wrap_i64 (int (length xs)))) v of
         Some ys \<Rightarrow> (Ok (), ys) | None \<Rightarrow> (Err IndexOutOfRange, xs)))"

fun position :: "'a \<Rightarrow> 'a list \<Rightarrow> nat option" where
  "position v [] = None"
| "position v (x # xs) = (if x = v then Some 0 else map_option Suc (position v xs))"

definition linsert ::
    "nat \<Rightarrow> nat \<Rightarrow> database \<Rightarrow> string \<Rightarrow> bool \<Rightarrow> string \<Rightarrow> string \<Rightarrow> int res \<times> database" where
  "linsert now i d key before pivot v =
     with_db i d (get_list_mut now (Ok (- 1)) key (\<lambda>xs.
       case position pivot xs of
         Some pos \<Rightarrow>
           (let p = (if before then pos else pos + 1); ys = take p xs @ v # drop p xs
            in (Ok (wrap_i64 (int (length ys))), ys))
       | None \<Rightarrow> (Ok (- 1), xs)))"

text \<open>\<open>retain\<close> with a count of removals left, from the front: what is kept and how many went.\<close>

fun retain_front :: "nat \<Rightarrow> string \<Rightarrow> string list \<Rightarrow> string list \<times> nat" where
  "retain_front n v [] = ([], 0)"
| "retain_front n v (x # xs) =
     (if n > 0 \<and> x = v then (case retain_front (n - 1) v xs of (ys, r) \<Rightarrow> (ys, Suc r))
      else case retain_front n v xs of (ys, r) \<Rightarrow> (x # ys, r))"

text \<open>The loop from the last index down that marks what a negative count removes.\<close>

fun mark_back :: "nat \<Rightarrow> string \<Rightarrow> string list \<Rightarrow> nat \<Rightarrow> bool list \<Rightarrow> nat \<Rightarrow> bool list \<times> nat" where
  "mark_back 0 v xs n kept r = (kept, r)"
| "mark_back (Suc i) v xs n kept r =
     (if n > 0 \<and> xs ! i = v then mark_back i v xs (n - 1) (kept[i := False]) (Suc r)
      else mark_back i v xs n kept r)"

definition lrem_value :: "int \<Rightarrow> string \<Rightarrow> string list \<Rightarrow> string list \<times> nat" where
  "lrem_value cnt v xs =
     (if cnt = 0 then (filter (\<lambda>e. e \<noteq> v) xs, length (filter (\<lambda>e. e = v) xs))
      else if cnt > 0 then retain_front (as_usize cnt) v xs
      else case mark_back (length xs) v xs (nat \<bar>cnt\<bar>) (replicate (length xs) True) 0 of
             (kept, r) \<Rightarrow> (map fst (filter snd (zip xs kept)), r))"

definition lrem :: "nat \<Rightarrow> nat \<Rightarrow> database \<Rightarrow> string \<Rightarrow> int \<Rightarrow> string \<Rightarrow> nat res \<times> database" where
  "lrem now i d key cnt v =
     with_db i d (get_list_mut now (Ok 0) key (\<lambda>xs.
       case lrem_value cnt v xs of (ys, r) \<Rightarrow> (Ok r, ys)))"

definition ltrim :: "nat \<Rightarrow> database \<Rightarrow> string \<Rightarrow> int \<Rightarrow> int \<Rightarrow> unit res \<times> database" where
  "ltrim i d key start stop =
     with_db i d (on_stored un_list OList (\<lambda>xs. xs = []) (Ok ()) key (\<lambda>xs.
       let len = wrap_i64 (int (length xs));
           s = normalize_index start len;
           e = min (normalize_index stop len) (nat (max (len - 1) 0))
       in (Ok (), if s > length xs \<or> (len > 0 \<and> s > e) then []
                  else take (e - s + 1) (drop s xs))))"

subsection \<open>Moves\<close>

definition pop_side :: "bool \<Rightarrow> 'a list \<Rightarrow> 'a option \<times> 'a list" where
  "pop_side left xs =
     (if xs = [] then (None, [])
      else if left then (Some (hd xs), tl xs) else (Some (last xs), butlast xs))"

definition push_side :: "bool \<Rightarrow> 'a \<Rightarrow> 'a list \<Rightarrow> 'a list" where
  "push_side left x xs = (if left then x # xs else xs @ [x])"

definition move_step :: "string \<Rightarrow> string \<Rightarrow> bool \<Rightarrow> bool \<Rightarrow> logical_db \<Rightarrow> string option res \<times> logical_db" where
  "move_step src dst src_left dst_left l =
     (if src = dst then
        on_stored un_list OList (\<lambda>_. False) (Ok None) src (\<lambda>xs.
          case pop_side src_left xs of
            (None, ys) \<Rightarrow> (Ok None, ys)
          | (Some x, ys) \<Rightarrow> (Ok (Some x), push_side dst_left x ys)) l
      else
        case on_stored un_list OList (\<lambda>xs. xs = []) (Ok None) src (\<lambda>xs.
               case pop_side src_left xs of (e, ys) \<Rightarrow> (Ok e, ys)) l of
          (Ok (Some x), l1) \<Rightarrow>
            on_entry get_or_create_list OList dst (\<lambda>ys. (Ok (Some x), push_side dst_left x ys)) l1
        | (r, l1) \<Rightarrow> (r, l1))"

definition lmove ::
    "nat \<Rightarrow> database \<Rightarrow> string \<Rightarrow> string \<Rightarrow> bool \<Rightarrow> bool \<Rightarrow> string option res \<times> database" where
  "lmove i d src dst src_left dst_left = with_db i d (move_step src dst src_left dst_left)"

subsection \<open>Locality\<close>

interpretation lists: value_kind un_list OList "\<lambda>_. True" get_or_create_list "[]"
  by unfold_locales
     (auto simp: get_or_create_list_def ldb_entry_def un_list_def split: rudis_object.splits)

lemma list_mut_slot:
  "k \<noteq> key \<Longrightarrow> slot (snd (get_list_mut now absent key f l)) k = slot l k"
  by (auto simp: get_list_mut_def ldb_get_mut_def slot_accesses case_prod_beta
      split: option.splits rudis_object.splits)
     (auto simp: slot_def hm_get_remove)

lemma local_list_mut: "local_step {key} (get_list_mut now absent key f)"
proof (rule local_stepI)
  fix l assume ok: "ldb_ok l"
  obtain v l1 where m: "ldb_get_mut now key l = (v, l1)" by fastforce
  then have "ldb_ok l1" using ldb_get_mut_ok [OF ok, of now key] by simp
  then show "ldb_ok (snd (get_list_mut now absent key f l))"
    by (auto simp: get_list_mut_def m ldb_put_ok case_prod_beta split: option.splits rudis_object.splits)
qed (simp add: list_mut_slot)

lemma local_move: "local_step {src, dst} (move_step src dst a b)"
proof (rule local_stepI)
  let ?pop = "\<lambda>xs. case pop_side a xs of (e, ys) \<Rightarrow> (Ok e, ys)"
  let ?rot = "\<lambda>xs. case pop_side a xs of
            (None, ys) \<Rightarrow> (Ok None, ys) | (Some x, ys) \<Rightarrow> (Ok (Some x), push_side b x ys)"
  let ?take = "on_stored un_list OList (\<lambda>xs. xs = []) (Ok None) src ?pop"
  have rot: "local_step {src} (on_stored un_list OList (\<lambda>_. False) (Ok None) src ?rot)"
    by (rule lists.stored_local) simp
  have pop: "local_step {src} ?take" by (rule lists.stored_local) simp
  have put: "local_step {dst} (on_entry get_or_create_list OList dst (\<lambda>ys. (Ok (Some x), push_side b x ys)))"
    for x :: string by (rule lists.entry_local) simp
  show "ldb_ok (snd (move_step src dst a b l))" if ok: "ldb_ok l" for l
    using local_stepD(1) [OF rot ok] local_stepD(1) [OF pop ok] local_stepD(1) [OF put]
    by (auto simp: move_step_def split: prod.splits res.splits option.splits)
  show "slot (snd (move_step src dst a b l)) k = slot l k" if k: "k \<notin> {src, dst}" for l k
    using k local_stepD(2) [OF rot, of k l] local_stepD(2) [OF pop, of k l] local_stepD(2) [OF put, of k]
    by (auto simp: move_step_def split: prod.splits res.splits option.splits)
qed

interpretation lpush: keyed_op "\<lambda>i d. lpush i d key vs" "{key}" for key vs
  by (rule keyed_opI [OF lists.entry_local lpush_def]) simp

interpretation rpush: keyed_op "\<lambda>i d. rpush i d key vs" "{key}" for key vs
  by (rule keyed_opI [OF lists.entry_local rpush_def]) simp

interpretation lpushx: keyed_op "\<lambda>i d. lpushx now i d key vs" "{key}" for now key vs
  by (rule keyed_opI [OF local_list_mut lpushx_def])

interpretation rpushx: keyed_op "\<lambda>i d. rpushx now i d key vs" "{key}" for now key vs
  by (rule keyed_opI [OF local_list_mut rpushx_def])

interpretation lpop: keyed_op "\<lambda>i d. lpop i d key n" "{key}" for key n
  by (rule keyed_opI [OF lists.stored_local lpop_def]) simp

interpretation rpop: keyed_op "\<lambda>i d. rpop i d key n" "{key}" for key n
  by (rule keyed_opI [OF lists.stored_local rpop_def]) simp

interpretation lset: keyed_op "\<lambda>i d. lset now i d key n v" "{key}" for now key n v
  by (rule keyed_opI [OF local_list_mut lset_def])

interpretation linsert: keyed_op "\<lambda>i d. linsert now i d key b p v" "{key}" for now key b p v
  by (rule keyed_opI [OF local_list_mut linsert_def])

interpretation lrem: keyed_op "\<lambda>i d. lrem now i d key n v" "{key}" for now key n v
  by (rule keyed_opI [OF local_list_mut lrem_def])

interpretation ltrim: keyed_op "\<lambda>i d. ltrim i d key a b" "{key}" for key a b
  by (rule keyed_opI [OF lists.stored_local ltrim_def]) simp

interpretation lmove: keyed_op "\<lambda>i d. lmove i d src dst a b" "{src, dst}" for src dst a b
  by (rule keyed_opI [OF local_move lmove_def])

subsection \<open>What the list operations do\<close>

lemma push_fronts_rev: "push_fronts vs xs = rev vs @ xs"
  by (induction vs xs rule: push_fronts.induct) auto

lemma push_backs_append: "push_backs vs xs = xs @ vs"
  by (induction vs xs rule: push_backs.induct) auto

lemma pop_fronts_take: "pop_fronts n xs = (take n xs, drop n xs)"
  by (induction n xs rule: pop_fronts.induct) auto

lemma pop_backs_take: "pop_backs n xs = (take n (rev xs), take (length xs - n) xs)"
proof (induction n xs rule: pop_backs.induct)
  case (2 n xs)
  then show ?case by (cases xs rule: rev_cases) auto
qed simp

text \<open>The list at a key, a missing key holding the empty one, and what a key holds for a list.\<close>

definition list_at :: "logical_db \<Rightarrow> string \<Rightarrow> string list option" where
  "list_at l key =
     (case hm_get (data l) key of None \<Rightarrow> Some [] | Some v \<Rightarrow> un_list v)"

definition holds_list :: "database \<Rightarrow> nat \<Rightarrow> string \<Rightarrow> string list \<Rightarrow> bool" where
  "holds_list d i key xs \<longleftrightarrow>
     hm_get (data (dbs d ! i)) key = (if xs = [] then None else Some (OList xs))"

lemma list_at_cases:
  assumes "list_at l key = Some xs"
  obtains "hm_get (data l) key = None" "xs = []" | "hm_get (data l) key = Some (OList xs)"
  using assms by (auto simp: list_at_def lists.un_iff split: option.splits)

text \<open>C33: Lists are double-ended queues: pushes add at their end in the order given, pops take from
  their end in order, and a list that becomes empty is removed from the keyspace.\<close>

theorem list_push_pop:
  assumes i: "i < length (dbs d)" and xs: "list_at (dbs d ! i) key = Some xs"
    and vs: "vs \<noteq> []" and n: "capacity_ok vec_size n"
  shows "(let r = lpush i d key vs in
       fst r = Ok (length vs + length xs) \<and> holds_list (snd r) i key (rev vs @ xs)) \<and>
    (let r = rpush i d key vs in
       fst r = Ok (length vs + length xs) \<and> holds_list (snd r) i key (xs @ vs)) \<and>
    (let r = lpop i d key n in
       fst r = Ok (take n xs) \<and> holds_list (snd r) i key (drop n xs)) \<and>
    (let r = rpop i d key n in
       fst r = Ok (take n (rev xs)) \<and> holds_list (snd r) i key (take (length xs - n) xs))"
  using xs
proof (cases rule: list_at_cases)
  case 1
  then show ?thesis
    using i vs n by (simp add: lpush_def rpush_def lpop_def rpop_def db_simps Let_def holds_list_def
      lists.entry_absent lists.stored_absent push_fronts_rev push_backs_append ldb_put_def hm_get_insert)
next
  case 2
  then show ?thesis
    using i vs n by (simp add: lpush_def rpush_def lpop_def rpop_def db_simps Let_def holds_list_def
      lists.entry_there lists.stored_there push_fronts_rev push_backs_append pop_fronts_take pop_backs_take
      get_drop_put) (simp add: ldb_put_def hm_get_insert)
qed

theorem list_push_pop_witness:
  "fst (lpop 0 (one_db [(''q'', OList [''a'', ''b''])]) ''q'' 1) = Ok [''a''] \<and>
   fst (rpush 0 (one_db [(''q'', OList [''a'', ''b''])]) ''q'' [''c'']) = Ok 3"
  using list_push_pop [of 0 "one_db [(''q'', OList [''a'', ''b''])]" "''q''" "[''a'', ''b'']" "[''c'']" 1]
  by (simp add: one_db_simps list_at_def capacity_ok_def vec_size_def isize_max_def Let_def)

lemma nat_max_zero [simp]: "nat (max x 0) = nat x"
  by (simp add: max_def)

lemma list_slice:
  assumes small: "length xs \<le> isize_max"
  shows "(let len = wrap_i64 (int (length xs));
              s = normalize_index start len;
              e = min (normalize_index stop len) (nat (max (len - 1) 0))
          in if s > length xs \<or> (len > 0 \<and> s > e) then []
             else take (e - s + 1) (drop s xs)) = slice start stop xs"
proof (cases "xs = []")
  case True
  then show ?thesis by (simp add: wrap_i64_def slice_def normalize_index_def)
next
  case False
  have w: "wrap_i64 (int (length xs)) = int (length xs)"
    using small by (intro wrap_i64_id) (simp add: in_i64_def i64_min_def i64_max_def isize_max_def)
  have n: "nat (max (int (length xs) - 1) 0) = length xs - 1" "nat (int (length xs) - 1) = length xs - Suc 0"
    using False by (cases xs; simp)+
  let ?a = "clamp_index start (length xs)" and ?b = "clamp_index stop (length xs)"
  show ?thesis
    using False
    by (cases "?b < length xs") (auto simp: w n normalize_clamp Let_def slice_def min_def not_less Suc_diff_le)
qed

text \<open>C34: \<open>LRANGE\<close> returns the slice two positions denote, and \<open>LTRIM\<close> keeps exactly that slice,
  removing the key when nothing is left; negative positions cnt from the end and one before the
  first element means the first element.\<close>

theorem lrange_ltrim_slice:
  assumes i: "i < length (dbs d)" and live: "view now d i key = Some (OList xs)"
    and small: "length xs \<le> isize_max"
  shows "lrange now i d key start stop = Ok (slice start stop xs) \<and>
    fst (ltrim i d key start stop) = Ok () \<and>
    holds_list (snd (ltrim i d key start stop)) i key (slice start stop xs)"
proof -
  have there: "hm_get (data (dbs d ! i)) key = Some (OList xs)"
    using live by (auto simp: view_def ldb_get_def split: option.splits if_splits)
  show ?thesis
    using i live unfolding list_slice [OF small, symmetric]
    by (simp add: lrange_def get_list_def ltrim_def db_simps view_def lists.stored_there [OF there]
        holds_list_def get_drop_put Let_def)
qed

theorem lrange_ltrim_slice_witness:
  "lrange 0 0 (one_db [(''q'', OList [''a'', ''b'', ''c''])]) ''q'' (- 2) (- 1) = Ok [''b'', ''c'']"
  using lrange_ltrim_slice [of 0 "one_db [(''q'', OList [''a'', ''b'', ''c''])]" 0 "''q''"
      "[''a'', ''b'', ''c'']" "- 2" "- 1"]
  by (simp add: one_db_simps isize_max_def slice_def clamp_index_def)

subsection \<open>Removing, inserting and moving\<close>

lemma retain_front_spec:
  "retain_front n v xs = (ys, r) \<Longrightarrow>
   \<exists>p s. xs = p @ s \<and> ys = filter (\<lambda>x. x \<noteq> v) p @ s \<and> r = count_list p v \<and> r \<le> n \<and>
     (r < n \<longrightarrow> v \<notin> set s)"
proof (induction n v xs arbitrary: ys r rule: retain_front.induct)
  case (2 n v x xs)
  show ?case
  proof (cases "n > 0 \<and> x = v")
    case True
    then obtain ys' r' where e: "retain_front (n - 1) v xs = (ys', r')" "ys = ys'" "r = Suc r'"
      using 2(3) by (auto split: prod.splits)
    from 2(1) [OF True e(1)] obtain p s where "xs = p @ s \<and> ys' = filter (\<lambda>x. x \<noteq> v) p @ s \<and>
      r' = count_list p v \<and> r' \<le> n - 1 \<and> (r' < n - 1 \<longrightarrow> v \<notin> set s)" by blast
    then show ?thesis using True e(2,3) by (intro exI [of _ "x # p"] exI [of _ s]) auto
  next
    case False
    then obtain ys' where e: "retain_front n v xs = (ys', r)" "ys = x # ys'"
      using 2(3) by (auto split: prod.splits)
    from 2(2) [OF False e(1)] obtain p s where ih: "xs = p @ s \<and> ys' = filter (\<lambda>x. x \<noteq> v) p @ s \<and>
      r = count_list p v \<and> r \<le> n \<and> (r < n \<longrightarrow> v \<notin> set s)" by blast
    show ?thesis
    proof (cases "x = v")
      case True
      then have "n = 0" using False by simp
      then show ?thesis using ih e(2) True
        by (intro exI [of _ "[]"] exI [of _ "x # xs"]) (auto simp: count_list_0_iff filter_id_conv)
    next
      case xv: False
      then show ?thesis using ih e(2) by (intro exI [of _ "x # p"] exI [of _ s]) auto
    qed
  qed
qed auto

lemma mark_back_retain:
  assumes "i \<le> length xs" "retain_front n v (rev (take i xs)) = (ys, m)"
  shows "\<exists>kept. mark_back i v xs n (replicate i True @ ks) r = (kept, r + m) \<and>
    map fst (filter snd (zip xs kept)) = rev ys @ map fst (filter snd (zip (drop i xs) ks))"
  using assms
proof (induction i arbitrary: n ks r ys m)
  case (Suc i)
  have t: "take (Suc i) xs = take i xs @ [xs ! i]" "drop i xs = xs ! i # drop (Suc i) xs"
    using Suc.prems(1) by (simp_all add: take_Suc_idx Cons_nth_drop_Suc)
  have rep: "replicate (Suc i) True @ ks = replicate i True @ True # ks"
    by (simp add: replicate_app_Cons_same)
  have upd: "(replicate i True @ True # ks)[i := False] = replicate i True @ False # ks"
    by (simp add: list_update_append)
  show ?case
  proof (cases "n > 0 \<and> xs ! i = v")
    case True
    then obtain m' where e: "retain_front (n - 1) v (rev (take i xs)) = (ys, m')" "m = Suc m'"
      using Suc.prems(2) by (auto simp: t split: prod.splits)
    show ?thesis
      using Suc.IH [OF _ e(1), of "False # ks" "Suc r"] Suc.prems(1) True e(2)
      by (auto simp: rep upd t simp del: replicate_Suc)
  next
    case False
    then obtain ys' where e: "retain_front n v (rev (take i xs)) = (ys', m)" "ys = xs ! i # ys'"
      using Suc.prems(2) by (auto simp: t split: prod.splits)
    show ?thesis
      using Suc.IH [OF _ e(1), of "True # ks" r] Suc.prems(1) False e(2)
      by (auto simp: rep t simp del: replicate_Suc)
  qed
qed auto

lemma lrem_negative:
  assumes "cnt < 0"
  shows "lrem_value cnt v xs = map_prod rev id (retain_front (nat (- cnt)) v (rev xs))"
proof -
  obtain ys m where r: "retain_front (nat (- cnt)) v (rev xs) = (ys, m)" by fastforce
  show ?thesis
    using mark_back_retain [of "length xs" xs "nat (- cnt)" v ys m "[]" 0] assms r
    by (auto simp: lrem_value_def)
qed

lemma count_filter: "length (filter (\<lambda>e. e = v) xs) = count_list xs v"
  by (induction xs) auto

lemma lrem_value_spec:
  assumes r: "lrem_value cnt v xs = (ys, r)" and c: "in_i64 cnt"
  shows "(cnt > 0 \<longrightarrow> (\<exists>p s. xs = p @ s \<and> ys = filter (\<lambda>x. x \<noteq> v) p @ s \<and> r = count_list p v \<and>
             r \<le> nat cnt \<and> (r < nat cnt \<longrightarrow> v \<notin> set s))) \<and>
    (cnt < 0 \<longrightarrow> (\<exists>p s. xs = p @ s \<and> ys = p @ filter (\<lambda>x. x \<noteq> v) s \<and> r = count_list s v \<and>
             r \<le> nat (- cnt) \<and> (r < nat (- cnt) \<longrightarrow> v \<notin> set p))) \<and>
    (cnt = 0 \<longrightarrow> ys = filter (\<lambda>x. x \<noteq> v) xs \<and> r = count_list xs v)"
proof (intro conjI impI)
  assume "cnt > 0"
  then show "\<exists>p s. xs = p @ s \<and> ys = filter (\<lambda>x. x \<noteq> v) p @ s \<and> r = count_list p v \<and>
             r \<le> nat cnt \<and> (r < nat cnt \<longrightarrow> v \<notin> set s)"
    using r c retain_front_spec [of "nat cnt" v xs ys r] by (simp add: lrem_value_def as_usize_id)
next
  assume neg: "cnt < 0"
  then have "retain_front (nat (- cnt)) v (rev xs) = (rev ys, r)"
    using r lrem_negative [OF neg, of v xs] by (cases "retain_front (nat (- cnt)) v (rev xs)") auto
  from retain_front_spec [OF this] obtain p s where ps: "rev xs = p @ s" "rev ys = filter (\<lambda>x. x \<noteq> v) p @ s"
    "r = count_list p v" "r \<le> nat (- cnt)" "r < nat (- cnt) \<longrightarrow> v \<notin> set s" by blast
  have "xs = rev s @ rev p" "ys = rev s @ filter (\<lambda>x. x \<noteq> v) (rev p)"
    using arg_cong [OF ps(1), of rev] arg_cong [OF ps(2), of rev] by (simp_all add: rev_filter)
  then show "\<exists>p s. xs = p @ s \<and> ys = p @ filter (\<lambda>x. x \<noteq> v) s \<and> r = count_list s v \<and>
             r \<le> nat (- cnt) \<and> (r < nat (- cnt) \<longrightarrow> v \<notin> set p)"
    using ps(3-5) by (intro exI [of _ "rev s"] exI [of _ "rev p"]) simp
qed (use r in \<open>auto simp: lrem_value_def count_filter\<close>)

text \<open>\<open>LREM\<close> with a positive count removes the occurrences of the value in a shortest prefix that holds
  that many (or all of them when there are fewer), with a negative count it does the same from the
  tail, and with 0 it removes every occurrence; the answer is the number removed, and the list stays
  in the keyspace even when nothing is left of it.\<close>

theorem lrem_occurrences:
  assumes i: "i < length (dbs d)" and live: "view now d i key = Some (OList xs)" and c: "in_i64 cnt"
  shows "\<exists>ys r. fst (lrem now i d key cnt v) = Ok r \<and>
    hm_get (data (dbs (snd (lrem now i d key cnt v)) ! i)) key = Some (OList ys) \<and>
    (cnt > 0 \<longrightarrow> (\<exists>p s. xs = p @ s \<and> ys = filter (\<lambda>x. x \<noteq> v) p @ s \<and> r = count_list p v \<and>
             r \<le> nat cnt \<and> (r < nat cnt \<longrightarrow> v \<notin> set s))) \<and>
    (cnt < 0 \<longrightarrow> (\<exists>p s. xs = p @ s \<and> ys = p @ filter (\<lambda>x. x \<noteq> v) s \<and> r = count_list s v \<and>
             r \<le> nat (- cnt) \<and> (r < nat (- cnt) \<longrightarrow> v \<notin> set p))) \<and>
    (cnt = 0 \<longrightarrow> ys = filter (\<lambda>x. x \<noteq> v) xs \<and> r = count_list xs v)"
proof -
  obtain ys r where e: "lrem_value cnt v xs = (ys, r)" by fastforce
  have m: "fst (ldb_get_mut now key (dbs d ! i)) = Some (OList xs)"
    using live by (simp add: ldb_get_get_mut view_def)
  have "fst (lrem now i d key cnt v) = Ok r \<and>
    hm_get (data (dbs (snd (lrem now i d key cnt v)) ! i)) key = Some (OList ys)"
    using i m e by (simp add: lrem_def db_simps get_list_mut_def ldb_put_def hm_get_insert split: prod.splits)
  then show ?thesis using lrem_value_spec [OF e c] by blast
qed

theorem lrem_occurrences_witness:
  "\<exists>ys r. fst (lrem 0 0 (one_db [(''q'', OList [''a'', ''b'', ''a''])]) ''q'' 0 ''a'') = Ok r \<and>
     ys = [''b''] \<and> r = 2"
  using lrem_occurrences [of 0 "one_db [(''q'', OList [''a'', ''b'', ''a''])]" 0 "''q''"
      "[''a'', ''b'', ''a'']" 0 "''a''"]
  by (auto simp: one_db_simps in_i64_def i64_min_def i64_max_def)

lemma position_spec:
  "position v xs = Some p \<Longrightarrow> p < length xs \<and> xs ! p = v \<and> v \<notin> set (take p xs)"
  "position v xs = None \<Longrightarrow> v \<notin> set xs"
  by (induction xs arbitrary: p) (auto split: if_splits)

lemma position_split:
  "p \<notin> set as \<Longrightarrow> position p (as @ p # bs) = Some (length as)"
  by (induction as) auto

text \<open>\<open>LINSERT\<close> puts the value right before or right after the first occurrence of the pivot and
  answers the new length; without the pivot it answers -1 and the list keeps its elements.\<close>

theorem linsert_spec:
  assumes i: "i < length (dbs d)" and live: "view now d i key = Some (OList (as @ p # bs))"
    and first: "p \<notin> set as" and small: "length as + length bs + 2 \<le> isize_max"
  shows "fst (linsert now i d key before p v) = Ok (int (length as + length bs + 2)) \<and>
    view now (snd (linsert now i d key before p v)) i key =
      Some (OList (if before then as @ v # p # bs else as @ p # v # bs))"
proof -
  obtain l1 where m: "ldb_get_mut now key (dbs d ! i) = (Some (OList (as @ p # bs)), l1)"
    using live ldb_get_get_mut(2) [of now key "dbs d ! i"]
    by (cases "ldb_get_mut now key (dbs d ! i)") (simp add: view_def)
  have "\<not> ldb_is_expired now l1 key"
    using m by (auto simp: ldb_get_mut_def split: if_splits)
  moreover have "wrap_i64 (2 + (int (length as) + int (length bs))) = 2 + (int (length as) + int (length bs))"
    using small by (intro wrap_i64_id) (simp add: in_i64_def i64_min_def i64_max_def isize_max_def)
  ultimately show ?thesis
    using i by (simp add: linsert_def db_simps get_list_mut_def m position_split [OF first] Let_def
        view_def ldb_get_put algebra_simps)
qed

theorem linsert_spec_witness:
  "fst (linsert 0 0 (one_db [(''q'', OList [''a'', ''b'', ''a''])]) ''q'' True ''b'' ''x'') = Ok 4"
  using linsert_spec [of 0 "one_db [(''q'', OList [''a'', ''b'', ''a''])]" 0 "''q''"
      "[''a'']" "''b''" "[''a'']" True "''x''"]
  by (simp add: one_db_simps isize_max_def)

text \<open>C21: \<open>LMOVE\<close> between two lists, or into a missing key, loses and invents no element: the element
  it answers leaves its end of the source and arrives at its end of the destination, and the
  elements of both lists together stay the same.\<close>

theorem lmove_conserves:
  assumes i: "i < length (dbs d)" and src: "hm_get (data (dbs d ! i)) src = Some (OList xs)"
    and ne: "xs \<noteq> []" and diff: "src \<noteq> dst" and dst: "list_at (dbs d ! i) dst = Some ys"
  shows "\<exists>x xs' ys'. fst (lmove i d src dst a b) = Ok (Some x) \<and>
    x = (if a then hd xs else last xs) \<and> xs' = (if a then tl xs else butlast xs) \<and>
    ys' = (if b then x # ys else ys @ [x]) \<and>
    holds_list (snd (lmove i d src dst a b)) i src xs' \<and>
    holds_list (snd (lmove i d src dst a b)) i dst ys' \<and>
    mset xs' + mset ys' = mset xs + mset ys"
proof -
  let ?l = "dbs d ! i" and ?x = "if a then hd xs else last xs" and ?xs = "if a then tl xs else butlast xs"
  let ?l1 = "drop_if (?xs = []) src (ldb_put src (OList ?xs) ?l)"
  have take: "on_stored un_list OList (\<lambda>xs. xs = []) (Ok None) src
      (\<lambda>xs. case pop_side a xs of (e, ys) \<Rightarrow> (Ok e, ys)) ?l = (Ok (Some ?x), ?l1)"
    using ne by (simp add: lists.stored_there [OF src] pop_side_def)
  have other: "slot ?l1 dst = slot ?l dst" using diff by (simp add: slot_accesses)
  then have "list_at ?l1 dst = Some ys" using dst by (simp add: list_at_def slot_def)
  then have put: "on_entry get_or_create_list OList dst (\<lambda>ys. (Ok (Some ?x), push_side b ?x ys)) ?l1 =
      (Ok (Some ?x), ldb_put dst (OList (push_side b ?x ys)) ?l1)"
    by (cases rule: list_at_cases) (simp_all add: lists.entry_absent lists.entry_there)
  have run: "lmove i d src dst a b =
      (Ok (Some ?x), d\<lparr>dbs := (dbs d)[i := ldb_put dst (OList (push_side b ?x ys)) ?l1]\<rparr>)"
    using i diff put by (simp add: lmove_def with_db_in move_step_def take)
  have src': "hm_get (data (ldb_put dst v ?l1)) src = (if ?xs = [] then None else Some (OList ?xs))" for v
    using diff get_drop_put [of "?xs = []" src "OList ?xs" ?l] by (simp add: ldb_put_def hm_get_insert)
  have "mset ?xs + mset (push_side b ?x ys) = mset xs + mset ys"
  proof -
    have "mset xs = mset (butlast xs @ [last xs])" "mset xs = mset (hd xs # tl xs)" using ne by simp_all
    then have "mset xs = add_mset ?x (mset ?xs)" by (cases a) simp_all
    then show ?thesis by (simp add: push_side_def)
  qed
  then show ?thesis
    using i src' unfolding run
    by (intro exI [of _ ?x] exI [of _ ?xs] exI [of _ "push_side b ?x ys"])
       (simp add: holds_list_def push_side_def, simp add: ldb_put_def hm_get_insert)
qed

theorem lmove_conserves_witness:
  "fst (lmove 0 (one_db [(''q'', OList [''a'', ''b''])]) ''q'' ''w'' False True) = Ok (Some ''b'')"
  using lmove_conserves [of 0 "one_db [(''q'', OList [''a'', ''b''])]" "''q''" "[''a'', ''b'']" "''w''" "[]" False True]
  by (simp add: one_db_simps list_at_def)

end
