(* ===== verification/DbHash.thy ===== *)
theory DbHash imports DbString begin

text \<open>
  The hash operations of \<open>Database\<close> in \<open>src/db/mod.rs\<close>.  The reads look at what a client can see;
  the operations that change a hash look at the stored value, whatever its deadline.
\<close>

definition un_hash :: "rudis_object \<Rightarrow> (string, string) hash_map option" where
  "un_hash v = (case v of OHash h \<Rightarrow> Some h | _ \<Rightarrow> None)"

text \<open>The match every read makes: the answer for a missing key, and for a hash.\<close>

definition read_hash ::
    "nat \<Rightarrow> nat \<Rightarrow> database \<Rightarrow> string \<Rightarrow> 'b \<Rightarrow> ((string, string) hash_map \<Rightarrow> 'b) \<Rightarrow> 'b res" where
  "read_hash now i d key absent f =
     read_db i d (\<lambda>l. case ldb_get now l key of
        None \<Rightarrow> Ok absent | Some (OHash h) \<Rightarrow> Ok (f h) | _ \<Rightarrow> Err WrongType)"

definition get_or_create_hash :: "string \<Rightarrow> logical_db \<Rightarrow> (string, string) hash_map res \<times> logical_db" where
  "get_or_create_hash key l =
     (case ldb_entry key (OHash []) l of (OHash h, l1) \<Rightarrow> (Ok h, l1) | (_, l1) \<Rightarrow> (Err WrongType, l1))"

subsection \<open>Writing\<close>

text \<open>The loop of \<open>hset\<close>: the fields that were new, and the hash.\<close>

fun set_fields :: "(string \<times> string) list \<Rightarrow> (string, string) hash_map \<Rightarrow> nat \<times> (string, string) hash_map" where
  "set_fields [] h = (0, h)"
| "set_fields ((f, v) # fs) h =
     (case set_fields fs (hm_insert f v h) of (n, h') \<Rightarrow> (if hm_contains h f then n else Suc n, h'))"

definition hset :: "nat \<Rightarrow> database \<Rightarrow> string \<Rightarrow> (string \<times> string) list \<Rightarrow> nat res \<times> database" where
  "hset i d key fs =
     with_db i d (on_entry get_or_create_hash OHash key
       (\<lambda>h. case set_fields fs h of (n, h') \<Rightarrow> (Ok n, h')))"

definition hsetnx :: "nat \<Rightarrow> database \<Rightarrow> string \<Rightarrow> string \<Rightarrow> string \<Rightarrow> bool res \<times> database" where
  "hsetnx i d key field v =
     with_db i d (on_entry get_or_create_hash OHash key
       (\<lambda>h. if hm_contains h field then (Ok False, h) else (Ok True, hm_insert field v h)))"

fun del_fields :: "string list \<Rightarrow> (string, string) hash_map \<Rightarrow> nat \<times> (string, string) hash_map" where
  "del_fields [] h = (0, h)"
| "del_fields (f # fs) h =
     (case del_fields fs (hm_remove f h) of (n, h') \<Rightarrow> (if hm_contains h f then Suc n else n, h'))"

definition hdel :: "nat \<Rightarrow> database \<Rightarrow> string \<Rightarrow> string list \<Rightarrow> nat res \<times> database" where
  "hdel i d key fs =
     with_db i d (on_stored un_hash OHash (\<lambda>h. h = []) (Ok 0) key
       (\<lambda>h. case del_fields fs h of (n, h') \<Rightarrow> (Ok n, h')))"

text \<open>\<open>hash.entry(field).or_insert_with(|| b"0".to_vec())\<close>: the value, and the hash that holds it.\<close>

definition field_entry ::
    "string \<Rightarrow> (string, string) hash_map \<Rightarrow> string \<times> (string, string) hash_map" where
  "field_entry field h =
     (case hm_get h field of Some v \<Rightarrow> (v, h) | None \<Rightarrow> (''0'', hm_insert field ''0'' h))"

definition hincrby :: "nat \<Rightarrow> database \<Rightarrow> string \<Rightarrow> string \<Rightarrow> int \<Rightarrow> int res \<times> database" where
  "hincrby i d key field delta =
     with_db i d (on_entry get_or_create_hash OHash key (\<lambda>h.
       case field_entry field h of (v, h1) \<Rightarrow>
         (case incr_value v delta of
            Ok r \<Rightarrow> (Ok r, hm_insert field (show_int r) h1)
          | Err e \<Rightarrow> (Err e, h1)
          | Panic \<Rightarrow> (Panic, h1))))"

definition hincrbyfloat :: "nat \<Rightarrow> database \<Rightarrow> string \<Rightarrow> string \<Rightarrow> f64 \<Rightarrow> f64 res \<times> database" where
  "hincrbyfloat i d key field delta =
     with_db i d (on_entry get_or_create_hash OHash key (\<lambda>h.
       case field_entry field h of (v, h1) \<Rightarrow>
         (case parse_float_value v of
            Ok n \<Rightarrow>
              (let r = f_add n delta in
               if is_nan r then (Err (Generic ''ERR resulting score is not a number (NaN)''), h1)
               else (Ok r, hm_insert field (format_float r) h1))
          | Err e \<Rightarrow> (Err e, h1)
          | Panic \<Rightarrow> (Panic, h1))))"

subsection \<open>Reading\<close>

definition hget :: "nat \<Rightarrow> nat \<Rightarrow> database \<Rightarrow> string \<Rightarrow> string \<Rightarrow> string option res" where
  "hget now i d key field = read_hash now i d key None (\<lambda>h. hm_get h field)"

definition hmget :: "nat \<Rightarrow> nat \<Rightarrow> database \<Rightarrow> string \<Rightarrow> string list \<Rightarrow> string option list res" where
  "hmget now i d key fs =
     read_hash now i d key (replicate (length fs) None) (\<lambda>h. map (hm_get h) fs)"

definition hexists :: "nat \<Rightarrow> nat \<Rightarrow> database \<Rightarrow> string \<Rightarrow> string \<Rightarrow> bool res" where
  "hexists now i d key field = read_hash now i d key False (\<lambda>h. hm_contains h field)"

definition hgetall :: "nat \<Rightarrow> nat \<Rightarrow> database \<Rightarrow> string \<Rightarrow> (string \<times> string) list res" where
  "hgetall now i d key = read_hash now i d key [] (\<lambda>h. map (\<lambda>(f, v). (f, v)) h)"

definition hkeys :: "nat \<Rightarrow> nat \<Rightarrow> database \<Rightarrow> string \<Rightarrow> string list res" where
  "hkeys now i d key = read_hash now i d key [] hm_keys"

definition hvals :: "nat \<Rightarrow> nat \<Rightarrow> database \<Rightarrow> string \<Rightarrow> string list res" where
  "hvals now i d key = read_hash now i d key [] (map snd)"

definition hlen :: "nat \<Rightarrow> nat \<Rightarrow> database \<Rightarrow> string \<Rightarrow> nat res" where
  "hlen now i d key = read_hash now i d key 0 length"

subsection \<open>Locality\<close>

interpretation hashes: value_kind un_hash OHash hm_wf get_or_create_hash "[]"
  by unfold_locales
     (auto simp: get_or_create_hash_def ldb_entry_def un_hash_def split: rudis_object.splits)

lemma set_fields_wf: "hm_wf h \<Longrightarrow> hm_wf (snd (set_fields fs h))"
  by (induction fs h rule: set_fields.induct) (auto simp: case_prod_beta)

lemma del_fields_wf: "hm_wf h \<Longrightarrow> hm_wf (snd (del_fields fs h))"
  by (induction fs h rule: del_fields.induct) (auto simp: case_prod_beta)

lemma field_entry_wf: "hm_wf h \<Longrightarrow> hm_wf (snd (field_entry f h))"
  by (auto simp: field_entry_def split: option.splits)

interpretation hset: keyed_op "\<lambda>i d. hset i d key fs" "{key}" for key fs
  by (rule keyed_opI [OF hashes.entry_local hset_def]) (simp add: case_prod_beta set_fields_wf)

interpretation hsetnx: keyed_op "\<lambda>i d. hsetnx i d key f v" "{key}" for key f v
  by (rule keyed_opI [OF hashes.entry_local hsetnx_def]) simp

interpretation hdel: keyed_op "\<lambda>i d. hdel i d key fs" "{key}" for key fs
  by (rule keyed_opI [OF hashes.stored_local hdel_def]) (simp add: case_prod_beta del_fields_wf)

interpretation hincrby: keyed_op "\<lambda>i d. hincrby i d key f n" "{key}" for key f n
  by (rule keyed_opI [OF hashes.entry_local hincrby_def])
     (auto simp: case_prod_beta field_entry_wf split: res.splits)

interpretation hincrbyfloat: keyed_op "\<lambda>i d. hincrbyfloat i d key f x" "{key}" for key f x
  by (rule keyed_opI [OF hashes.entry_local hincrbyfloat_def])
     (auto simp: case_prod_beta field_entry_wf Let_def split: res.splits)

subsection \<open>What the hash operations do\<close>

text \<open>The hash at a key, a missing key holding the empty one.\<close>

definition hash_at :: "logical_db \<Rightarrow> string \<Rightarrow> (string, string) hash_map option" where
  "hash_at l key = (case hm_get (data l) key of None \<Rightarrow> Some [] | Some v \<Rightarrow> un_hash v)"

lemma hash_at_cases:
  assumes "hash_at l key = Some h"
  obtains "hm_get (data l) key = None" "h = []" | "hm_get (data l) key = Some (OHash h)"
  using assms by (auto simp: hash_at_def hashes.un_iff split: option.splits)

lemma dom_hm_Nil [simp]: "dom (hm_get []) = {}"
  by (simp add: dom_def)

lemma set_fields_get:
  "hm_get (snd (set_fields fs h)) f = (case map_of (rev fs) f of Some v \<Rightarrow> Some v | None \<Rightarrow> hm_get h f)"
proof (induction fs h rule: set_fields.induct)
  case (2 a v fs h)
  then show ?case by (auto simp: case_prod_beta hm_get_insert map_add_def split: option.splits)
qed simp

lemma set_fields_count:
  "fst (set_fields fs h) = card (fst ` set fs - dom (hm_get h))"
proof (induction fs h rule: set_fields.induct)
  case (2 f v fs h)
  let ?D = "dom (hm_get h)" and ?F = "fst ` set fs"
  have dom: "dom (hm_get (hm_insert f v h)) = insert f ?D"
    by (auto simp: hm_get_insert split: if_splits)
  have "insert f ?F - ?D = (if f \<in> ?D then ?F - insert f ?D else insert f (?F - insert f ?D))" by auto
  then show ?case using 2 by (auto simp: case_prod_beta dom hm_contains_iff)
qed simp

lemma del_fields_get: "hm_get (snd (del_fields fs h)) f = (if f \<in> set fs then None else hm_get h f)"
  by (induction fs h rule: del_fields.induct) (auto simp: case_prod_beta hm_get_remove)

lemma del_fields_count: "fst (del_fields fs h) = card (set fs \<inter> dom (hm_get h))"
proof (induction fs h rule: del_fields.induct)
  case (2 f fs h)
  let ?D = "dom (hm_get h)"
  have dom: "dom (hm_get (hm_remove f h)) = ?D - {f}"
    by (auto simp: hm_get_remove split: if_splits)
  have "insert f (set fs) \<inter> ?D = (if f \<in> ?D then insert f (set fs \<inter> (?D - {f})) else set fs \<inter> (?D - {f}))"
    by auto
  then show ?case using 2 by (auto simp: case_prod_beta dom hm_contains_iff)
qed simp

text \<open>\<open>HSET\<close> updates the map a hash stands for, the last value of a repeated field winning, and
  answers how many of the named fields are new; \<open>HDEL\<close> removes the named fields, answers how many
  were there, and removes the key when the hash becomes empty.\<close>

theorem hset_hdel_map:
  assumes i: "i < length (dbs d)" and h: "hash_at (dbs d ! i) key = Some h" and new: "fs \<noteq> []"
  shows "(\<exists>h'. hm_get (data (dbs (snd (hset i d key fs)) ! i)) key = Some (OHash h') \<and>
      hm_get h' = hm_get h ++ map_of (rev fs)) \<and>
    fst (hset i d key fs) = Ok (card (fst ` set fs - dom (hm_get h))) \<and>
    fst (hdel i d key gs) = Ok (card (set gs \<inter> dom (hm_get h))) \<and>
    (if dom (hm_get h) \<subseteq> set gs
     then hm_get (data (dbs (snd (hdel i d key gs)) ! i)) key = None
     else \<exists>h'. hm_get (data (dbs (snd (hdel i d key gs)) ! i)) key = Some (OHash h') \<and>
       hm_get h' = hm_get h |` (- set gs))"
proof -
  have set': "hm_get (snd (set_fields fs h)) = hm_get h ++ map_of (rev fs)"
    by (auto simp: fun_eq_iff set_fields_get map_add_def split: option.splits)
  have del': "hm_get (snd (del_fields gs h)) = hm_get h |` (- set gs)"
    by (auto simp: fun_eq_iff del_fields_get restrict_map_def)
  have nil: "snd (del_fields gs h) = [] \<longleftrightarrow> dom (hm_get h) \<subseteq> set gs"
    unfolding hm_Nil_iff del' by auto
  show ?thesis
    using h
  proof (cases rule: hash_at_cases)
    case 1
    then show ?thesis
      using i set' by (simp add: hset_def hdel_def db_simps hashes.entry_absent hashes.stored_absent
        ldb_put_def hm_get_insert set_fields_count)
  next
    case 2
    then show ?thesis
      using i set' del' nil
      by (simp add: hset_def hdel_def db_simps hashes.entry_there hashes.stored_there get_drop_put
          set_fields_count del_fields_count) (simp add: ldb_put_def hm_get_insert)
  qed
qed

theorem hset_hdel_map_witness:
  "fst (hset 0 (one_db [(''h'', OHash [(''f'', ''1'')])]) ''h'' [(''f'', ''2''), (''g'', ''3'')]) = Ok 1 \<and>
   fst (hdel 0 (one_db [(''h'', OHash [(''f'', ''1'')])]) ''h'' [''f'', ''z'']) = Ok 1"
proof -
  have dom: "dom (hm_get [(''f'', ''1'')]) = {''f''}" by (auto simp: hm_get_def split: if_splits)
  have "{''f'', ''g''} - {''f''} = {''g''}" "{''f'', ''z''} \<inter> {''f''} = {''f''}" by auto
  then show ?thesis
    using hset_hdel_map [of 0 "one_db [(''h'', OHash [(''f'', ''1'')])]" "''h''" "[(''f'', ''1'')]"
        "[(''f'', ''2''), (''g'', ''3'')]" "[''f'', ''z'']"]
    by (simp add: one_db_simps hash_at_def dom)
qed

end
