(* ===== verification/DbSet.thy ===== *)
theory DbSet imports DbString begin

text \<open>
  The set operations of \<open>Database\<close> in \<open>src/db/mod.rs\<close>.  The random choices of the \<open>rand\<close> crate
  are parameters: \<open>sample n s\<close> is \<open>choose_multiple\<close>, which picks \<open>n\<close> different elements of \<open>s\<close> (all of
  them when there are fewer) or panics (\<^theory_text>\<open>None\<close>), as it may when it reserves a vector of \<open>n\<close>
  references; and \<open>draw n j\<close> is the \<open>j\<close>-th value of \<open>random_range(0..n)\<close>.
\<close>

definition un_set :: "rudis_object \<Rightarrow> string list option" where
  "un_set v = (case v of OSet s \<Rightarrow> Some s | _ \<Rightarrow> None)"

definition read_set ::
    "nat \<Rightarrow> nat \<Rightarrow> database \<Rightarrow> string \<Rightarrow> 'b \<Rightarrow> (string list \<Rightarrow> 'b res) \<Rightarrow> 'b res" where
  "read_set now i d key absent f =
     read_db i d (\<lambda>l. case ldb_get now l key of
        None \<Rightarrow> Ok absent | Some (OSet s) \<Rightarrow> f s | _ \<Rightarrow> Err WrongType)"

definition get_or_create_set :: "string \<Rightarrow> logical_db \<Rightarrow> string list res \<times> logical_db" where
  "get_or_create_set key l =
     (case ldb_entry key (OSet []) l of (OSet s, l1) \<Rightarrow> (Ok s, l1) | (_, l1) \<Rightarrow> (Err WrongType, l1))"

subsection \<open>Members\<close>

fun insert_all :: "string list \<Rightarrow> string list \<Rightarrow> nat \<times> string list" where
  "insert_all [] s = (0, s)"
| "insert_all (m # ms) s =
     (case insert_all ms (hs_insert m s) of (n, s') \<Rightarrow> (if m \<in> set s then n else Suc n, s'))"

definition sadd :: "nat \<Rightarrow> database \<Rightarrow> string \<Rightarrow> string list \<Rightarrow> nat res \<times> database" where
  "sadd i d key ms =
     with_db i d (on_entry get_or_create_set OSet key
       (\<lambda>s. case insert_all ms s of (n, s') \<Rightarrow> (Ok n, s')))"

fun remove_all :: "string list \<Rightarrow> string list \<Rightarrow> nat \<times> string list" where
  "remove_all [] s = (0, s)"
| "remove_all (m # ms) s =
     (case remove_all ms (hs_remove m s) of (n, s') \<Rightarrow> (if m \<in> set s then Suc n else n, s'))"

definition srem :: "nat \<Rightarrow> database \<Rightarrow> string \<Rightarrow> string list \<Rightarrow> nat res \<times> database" where
  "srem i d key ms =
     with_db i d (on_stored un_set OSet (\<lambda>s. s = []) (Ok 0) key
       (\<lambda>s. case remove_all ms s of (n, s') \<Rightarrow> (Ok n, s')))"

definition smembers :: "nat \<Rightarrow> nat \<Rightarrow> database \<Rightarrow> string \<Rightarrow> string list res" where
  "smembers now i d key = read_set now i d key [] Ok"

definition sismember :: "nat \<Rightarrow> nat \<Rightarrow> database \<Rightarrow> string \<Rightarrow> string \<Rightarrow> bool res" where
  "sismember now i d key m = read_set now i d key False (\<lambda>s. Ok (m \<in> set s))"

definition smismember :: "nat \<Rightarrow> nat \<Rightarrow> database \<Rightarrow> string \<Rightarrow> string list \<Rightarrow> bool list res" where
  "smismember now i d key ms =
     read_set now i d key (replicate (length ms) False) (\<lambda>s. Ok (map (\<lambda>m. m \<in> set s) ms))"

definition scard :: "nat \<Rightarrow> nat \<Rightarrow> database \<Rightarrow> string \<Rightarrow> nat res" where
  "scard now i d key = read_set now i d key 0 (\<lambda>s. Ok (length s))"

subsection \<open>Set algebra\<close>

definition get_set_clone :: "nat \<Rightarrow> nat \<Rightarrow> database \<Rightarrow> string \<Rightarrow> string list res" where
  "get_set_clone now i d key = read_set now i d key [] Ok"

text \<open>The loops over the keys; \<open>g\<close> reads the set at one key and may fail.\<close>

fun union_loop :: "(string \<Rightarrow> string list res) \<Rightarrow> string list \<Rightarrow> string list \<Rightarrow> string list res" where
  "union_loop g [] acc = Ok acc"
| "union_loop g (k # ks) acc = bind_res (g k) (\<lambda>s. union_loop g ks (hs_extend acc s))"

fun clone_sets :: "(string \<Rightarrow> string list res) \<Rightarrow> string list \<Rightarrow> string list list res" where
  "clone_sets g [] = Ok []"
| "clone_sets g (k # ks) = bind_res (g k) (\<lambda>s. map_res ((#) s) (clone_sets g ks))"

definition sunion :: "nat \<Rightarrow> nat \<Rightarrow> database \<Rightarrow> string list \<Rightarrow> string list res" where
  "sunion now i d ks = union_loop (get_set_clone now i d) ks []"

definition sinter :: "nat \<Rightarrow> nat \<Rightarrow> database \<Rightarrow> string list \<Rightarrow> string list res" where
  "sinter now i d ks =
     (if ks = [] then Ok []
      else map_res (\<lambda>sets. filter (\<lambda>m. \<forall>s\<in>set (tl sets). m \<in> set s) (hd sets))
             (clone_sets (get_set_clone now i d) ks))"

definition sdiff :: "nat \<Rightarrow> nat \<Rightarrow> database \<Rightarrow> string list \<Rightarrow> string list res" where
  "sdiff now i d ks =
     (case ks of [] \<Rightarrow> Ok []
      | k # rest \<Rightarrow>
          bind_res (get_set_clone now i d k) (\<lambda>first.
            map_res (\<lambda>sets. filter (\<lambda>m. \<not> (\<exists>s\<in>set sets. m \<in> set s)) first)
              (clone_sets (get_set_clone now i d) rest)))"

text \<open>The end of the three store operations: the result is collected into a set and inserted.\<close>

definition store_set :: "nat \<Rightarrow> database \<Rightarrow> string \<Rightarrow> string list res \<Rightarrow> nat res \<times> database" where
  "store_set i d dst r =
     (case r of
        Ok xs \<Rightarrow> with_db i d (\<lambda>l. (Ok (length xs), ldb_insert dst (OSet (hs_extend [] xs)) l))
      | Err e \<Rightarrow> (Err e, d)
      | Panic \<Rightarrow> (Panic, d))"

definition sunionstore :: "nat \<Rightarrow> nat \<Rightarrow> database \<Rightarrow> string \<Rightarrow> string list \<Rightarrow> nat res \<times> database" where
  "sunionstore now i d dst ks = store_set i d dst (sunion now i d ks)"

definition sinterstore :: "nat \<Rightarrow> nat \<Rightarrow> database \<Rightarrow> string \<Rightarrow> string list \<Rightarrow> nat res \<times> database" where
  "sinterstore now i d dst ks = store_set i d dst (sinter now i d ks)"

definition sdiffstore :: "nat \<Rightarrow> nat \<Rightarrow> database \<Rightarrow> string \<Rightarrow> string list \<Rightarrow> nat res \<times> database" where
  "sdiffstore now i d dst ks = store_set i d dst (sdiff now i d ks)"

subsection \<open>Random members and moves\<close>

text \<open>The sizes of a reference and of a \<open>String\<close>, the elements of the two vectors.\<close>

abbreviation ref_size :: nat where "ref_size \<equiv> 8"
abbreviation string_size :: nat where "string_size \<equiv> 24"

definition spop ::
    "(nat \<Rightarrow> string list \<Rightarrow> string list option) \<Rightarrow> nat \<Rightarrow> database \<Rightarrow> string \<Rightarrow> nat \<Rightarrow> string list res \<times> database" where
  "spop sample i d key n =
     with_db i d (on_stored un_set OSet (\<lambda>s. s = []) (Ok []) key
       (\<lambda>s. case sample n s of
          None \<Rightarrow> (Panic, s)
        | Some chosen \<Rightarrow> (Ok chosen, snd (remove_all chosen s))))"

definition srandmember ::
    "(nat \<Rightarrow> string list \<Rightarrow> string list option) \<Rightarrow> (nat \<Rightarrow> nat \<Rightarrow> nat) \<Rightarrow>
     nat \<Rightarrow> nat \<Rightarrow> database \<Rightarrow> string \<Rightarrow> int \<Rightarrow> string list res" where
  "srandmember sample draw now i d key cnt =
     read_set now i d key [] (\<lambda>s.
       if cnt \<ge> 0 then (case sample (as_usize cnt) s of None \<Rightarrow> Panic | Some chosen \<Rightarrow> Ok chosen)
       else if s = [] then Ok []
       else if \<not> capacity_ok string_size (nat \<bar>cnt\<bar>) then Panic
       else Ok (map (\<lambda>j. s ! draw (length s) j) [0..<nat \<bar>cnt\<bar>]))"

definition smove_step :: "string \<Rightarrow> string \<Rightarrow> string \<Rightarrow> logical_db \<Rightarrow> bool res \<times> logical_db" where
  "smove_step src dst m l =
     (case hm_get (data l) src of
        None \<Rightarrow> (Ok False, l)
      | Some (OSet s) \<Rightarrow>
          if m \<notin> set s then (Ok False, l)
          else on_entry get_or_create_set OSet dst (\<lambda>t. (Ok True, hs_insert m t))
                 (drop_if (hs_remove m s = []) src (ldb_put src (OSet (hs_remove m s)) l))
      | _ \<Rightarrow> (Err WrongType, l))"

definition smove :: "nat \<Rightarrow> database \<Rightarrow> string \<Rightarrow> string \<Rightarrow> string \<Rightarrow> bool res \<times> database" where
  "smove i d src dst m = with_db i d (smove_step src dst m)"

subsection \<open>Locality\<close>

interpretation sets: value_kind un_set OSet distinct get_or_create_set "[]"
  by unfold_locales
     (auto simp: get_or_create_set_def ldb_entry_def un_set_def split: rudis_object.splits)

lemma insert_all_set: "set (snd (insert_all ms s)) = set s \<union> set ms"
  by (induction ms s rule: insert_all.induct) (auto simp: case_prod_beta)

lemma insert_all_distinct: "distinct s \<Longrightarrow> distinct (snd (insert_all ms s))"
  by (induction ms s rule: insert_all.induct) (auto simp: case_prod_beta)

lemma remove_all_set: "set (snd (remove_all ms s)) = set s - set ms"
  by (induction ms s rule: remove_all.induct) (auto simp: case_prod_beta)

lemma remove_all_distinct: "distinct s \<Longrightarrow> distinct (snd (remove_all ms s))"
  by (induction ms s rule: remove_all.induct) (auto simp: case_prod_beta)

lemma insert_all_count: "fst (insert_all ms s) = card (set ms - set s)"
proof (induction ms s rule: insert_all.induct)
  case (2 m ms s)
  have "insert m (set ms) - set s =
      (if m \<in> set s then set ms - insert m (set s) else insert m (set ms - insert m (set s)))" by auto
  then show ?case using 2 by (auto simp: case_prod_beta)
qed simp

lemma remove_all_count: "fst (remove_all ms s) = card (set ms \<inter> set s)"
proof (induction ms s rule: remove_all.induct)
  case (2 m ms s)
  have "insert m (set ms) \<inter> set s =
      (if m \<in> set s then insert m (set ms \<inter> (set s - {m})) else set ms \<inter> (set s - {m}))" by auto
  then show ?case using 2 by (auto simp: case_prod_beta)
qed simp

lemma local_smove: "local_step {src, dst} (smove_step src dst m)"
proof (rule local_stepI)
  have put: "local_step {dst} (on_entry get_or_create_set OSet dst (\<lambda>t. (Ok True, hs_insert m t)))"
    by (rule sets.entry_local) simp
  show "ldb_ok (snd (smove_step src dst m l))" if ok: "ldb_ok l" for l
  proof -
    have "ldb_ok (drop_if b src (ldb_put src (OSet (hs_remove m s)) l))"
      if "hm_get (data l) src = Some (OSet s)" for s b
      using ldb_okD(4) [OF ok that] by (simp add: drop_if_ok ldb_put_ok [OF ok])
    then show ?thesis
      using ok local_stepD(1) [OF put] by (auto simp: smove_step_def split: option.splits rudis_object.splits)
  qed
  show "slot (snd (smove_step src dst m l)) k = slot l k" if "k \<notin> {src, dst}" for l k
    using that local_stepD(2) [OF put, of k]
    by (auto simp: smove_step_def slot_accesses split: option.splits rudis_object.splits)
qed

interpretation sadd: keyed_op "\<lambda>i d. sadd i d key ms" "{key}" for key ms
  by (rule keyed_opI [OF sets.entry_local sadd_def]) (simp add: case_prod_beta insert_all_distinct)

interpretation srem: keyed_op "\<lambda>i d. srem i d key ms" "{key}" for key ms
  by (rule keyed_opI [OF sets.stored_local srem_def]) (simp add: case_prod_beta remove_all_distinct)

interpretation spop: keyed_op "\<lambda>i d. spop sample i d key n" "{key}" for sample key n
  by (rule keyed_opI [OF sets.stored_local spop_def]) (auto simp: remove_all_distinct split: option.split)

interpretation smove: keyed_op "\<lambda>i d. smove i d src dst m" "{src, dst}" for src dst m
  by (rule keyed_opI [OF local_smove smove_def])

text \<open>The store forms replace the destination once the members are known.\<close>

interpretation stores: keyed_op "\<lambda>i d. store_set i d dst (Ok xs)" "{dst}" for dst xs
proof (rule keyed_opI [OF local_stepI])
  show "store_set i d dst (Ok xs) = with_db i d (\<lambda>l. (Ok (length xs), ldb_insert dst (OSet (hs_extend [] xs)) l))" for i d
    by (simp add: store_set_def)
qed (simp_all add: ldb_insert_ok slot_accesses)

lemma store_set_stays: "touches i {dst} d (snd (store_set i d dst r))"
proof (cases r)
  case (Ok xs)
  then show ?thesis using stores.stays [of i dst d xs] by simp
qed (simp_all add: store_set_def)

subsection \<open>Set algebra is set algebra\<close>

text \<open>The set a client sees at a key, a missing key holding the empty one.\<close>

definition set_seen :: "nat \<Rightarrow> logical_db \<Rightarrow> string \<Rightarrow> string list res" where
  "set_seen now l key =
     (case ldb_get now l key of None \<Rightarrow> Ok [] | Some (OSet s) \<Rightarrow> Ok s | _ \<Rightarrow> Err WrongType)"

lemma get_set_clone_in: "i < length (dbs d) \<Longrightarrow> get_set_clone now i d = set_seen now (dbs d ! i)"
  by (auto simp: fun_eq_iff get_set_clone_def read_set_def set_seen_def db_simps)

lemma set_seen_distinct: "ldb_ok l \<Longrightarrow> set_seen now l key = Ok s \<Longrightarrow> distinct s"
  using ldb_okD(4) [of l key "OSet s"]
  by (auto simp: set_seen_def ldb_get_def split: option.splits rudis_object.splits if_splits)

lemma union_loop_Ok:
  assumes "\<And>k. k \<in> set ks \<Longrightarrow> g k = Ok (S k)"
  shows "union_loop g ks acc = Ok (fold (\<lambda>k acc. hs_extend acc (S k)) ks acc)"
  using assms by (induction ks arbitrary: acc) simp_all

lemma fold_extend:
  "set (fold (\<lambda>k acc. hs_extend acc (S k)) ks acc) = set acc \<union> (\<Union>k\<in>set ks. set (S k))"
  "distinct acc \<Longrightarrow> distinct (fold (\<lambda>k acc. hs_extend acc (S k)) ks acc)"
  by (induction ks arbitrary: acc) auto

lemma clone_sets_Ok: "(\<And>k. k \<in> set ks \<Longrightarrow> g k = Ok (S k)) \<Longrightarrow> clone_sets g ks = Ok (map S ks)"
  by (induction ks) simp_all

lemma loops_fail:
  assumes "k \<in> set ks" "g k = Err WrongType" "\<And>k. \<exists>s. g k = Ok s \<or> g k = Err WrongType"
  shows "union_loop g ks acc = Err WrongType" "clone_sets g ks = Err WrongType"
proof -
  have "union_loop g ks acc = Err WrongType \<and> clone_sets g ks = Err WrongType"
    using assms(1)
  proof (induction ks arbitrary: acc)
    case (Cons a ks)
    obtain s where "g a = Ok s \<or> g a = Err WrongType" using assms(3) by blast
    then show ?case using Cons assms(2) by auto
  qed simp
  then show "union_loop g ks acc = Err WrongType" "clone_sets g ks = Err WrongType" by simp_all
qed

lemma hs_extend_id: "distinct xs \<Longrightarrow> set acc \<inter> set xs = {} \<Longrightarrow> hs_extend acc xs = acc @ xs"
  by (induction xs arbitrary: acc) (auto simp: hs_insert_def)

lemma store_set_seen:
  assumes "i < length (dbs d)" "distinct xs"
  shows "fst (store_set i d dst (Ok xs)) = Ok (length xs)"
    "view later (snd (store_set i d dst (Ok xs))) i dst = Some (OSet xs)"
  using assms by (simp_all add: store_set_def db_simps view_def ldb_get_insert hs_extend_id)

lemma algebra_runs:
  assumes i: "i < length (dbs d)" and sets: "\<And>k. k \<in> set ks \<Longrightarrow> set_seen now (dbs d ! i) k = Ok (S k)"
  shows "sunion now i d ks = Ok (fold (\<lambda>k acc. hs_extend acc (S k)) ks [])"
    "ks = k0 # rest \<Longrightarrow> sinter now i d ks = Ok (filter (\<lambda>m. \<forall>s\<in>set (map S rest). m \<in> set s) (S k0))"
    "ks = k0 # rest \<Longrightarrow> sdiff now i d ks = Ok (filter (\<lambda>m. \<not> (\<exists>s\<in>set (map S rest). m \<in> set s)) (S k0))"
proof -
  show "sunion now i d ks = Ok (fold (\<lambda>k acc. hs_extend acc (S k)) ks [])"
    unfolding sunion_def get_set_clone_in [OF i] by (rule union_loop_Ok) (simp add: sets)
  assume ks: "ks = k0 # rest"
  have "set_seen now (dbs d ! i) k0 = Ok (S k0)" "clone_sets (set_seen now (dbs d ! i)) rest = Ok (map S rest)"
    using sets ks by (auto intro!: clone_sets_Ok)
  then show "sinter now i d ks = Ok (filter (\<lambda>m. \<forall>s\<in>set (map S rest). m \<in> set s) (S k0))"
    "sdiff now i d ks = Ok (filter (\<lambda>m. \<not> (\<exists>s\<in>set (map S rest). m \<in> set s)) (S k0))"
    using ks by (simp_all add: sinter_def sdiff_def get_set_clone_in [OF i])
qed

text \<open>C35: When every key holds a set or is missing, \<open>SUNION\<close>, \<open>SINTER\<close> and \<open>SDIFF\<close> return, each member once,
  the union, the intersection and the difference of the sets, and the store operations put exactly
  that set at the destination and answer its size.\<close>

theorem set_algebra:
  assumes ok: "db_ok d" and i: "i < length (dbs d)"
    and sets: "\<And>k. k \<in> insert k0 (set ks) \<Longrightarrow> set_seen now (dbs d ! i) k = Ok (S k)"
  shows "\<exists>u n m. sunion now i d (k0 # ks) = Ok u \<and> sinter now i d (k0 # ks) = Ok n \<and>
      sdiff now i d (k0 # ks) = Ok m \<and> distinct u \<and> distinct n \<and> distinct m \<and>
      set u = (\<Union>k\<in>insert k0 (set ks). set (S k)) \<and>
      set n = (\<Inter>k\<in>insert k0 (set ks). set (S k)) \<and>
      set m = set (S k0) - (\<Union>k\<in>set ks. set (S k)) \<and>
      fst (sunionstore now i d dst (k0 # ks)) = Ok (length u) \<and>
      view later (snd (sunionstore now i d dst (k0 # ks))) i dst = Some (OSet u) \<and>
      fst (sinterstore now i d dst (k0 # ks)) = Ok (length n) \<and>
      view later (snd (sinterstore now i d dst (k0 # ks))) i dst = Some (OSet n) \<and>
      fst (sdiffstore now i d dst (k0 # ks)) = Ok (length m) \<and>
      view later (snd (sdiffstore now i d dst (k0 # ks))) i dst = Some (OSet m)"
proof -
  let ?u = "fold (\<lambda>k acc. hs_extend acc (S k)) (k0 # ks) []"
  let ?n = "filter (\<lambda>m. \<forall>s\<in>set (map S ks). m \<in> set s) (S k0)"
  let ?m = "filter (\<lambda>m. \<not> (\<exists>s\<in>set (map S ks). m \<in> set s)) (S k0)"
  have d0: "distinct (S k0)" using set_seen_distinct [OF db_ok_nth [OF ok i]] sets by blast
  have sets': "\<And>k. k \<in> set (k0 # ks) \<Longrightarrow> set_seen now (dbs d ! i) k = Ok (S k)" using sets by simp
  have u: "sunion now i d (k0 # ks) = Ok ?u" by (rule algebra_runs(1) [OF i sets'])
  have n: "sinter now i d (k0 # ks) = Ok ?n" by (rule algebra_runs(2) [OF i sets' refl])
  have m: "sdiff now i d (k0 # ks) = Ok ?m" by (rule algebra_runs(3) [OF i sets' refl])
  have du: "distinct ?u" by (rule fold_extend) simp
  have dn: "distinct ?n" "distinct ?m" using d0 by simp_all
  have su: "set ?u = (\<Union>k\<in>insert k0 (set ks). set (S k))"
    using fold_extend(1) [of S "k0 # ks" "[]"] by simp
  have sn: "set ?n = (\<Inter>k\<in>insert k0 (set ks). set (S k))" by auto
  have sm: "set ?m = set (S k0) - (\<Union>k\<in>set ks. set (S k))" by auto
  show ?thesis
    unfolding sunionstore_def sinterstore_def sdiffstore_def u n m
    by (intro exI [of _ ?u] exI [of _ ?n] exI [of _ ?m] conjI refl du dn su sn sm
        store_set_seen [OF i du] store_set_seen [OF i dn(1)] store_set_seen [OF i dn(2)])
qed

theorem set_algebra_witness:
  "\<exists>n. sinter 0 0 (one_db [(''s'', OSet [''a'', ''b'']), (''t'', OSet [''b''])]) [''s'', ''t''] = Ok n \<and> set n = {''b''}"
proof -
  let ?d = "one_db [(''s'', OSet [''a'', ''b'']), (''t'', OSet [''b''])]"
  let ?S = "\<lambda>k. if k = ''s'' then [''a'', ''b''] else [''b'']"
  have ok: "db_ok ?d" by (rule one_db_ok) auto
  have get: "set_seen 0 (dbs ?d ! 0) k = Ok (?S k)" if "k \<in> insert ''s'' (set [''t''])" for k
    using that by (auto simp: set_seen_def ldb_get_def one_db_simps)
  show ?thesis using set_algebra [where dst = "''d''" and later = 0, OF ok _ get, of "''s''" "[''t'']"] by (auto simp: one_db_simps)
qed

text \<open>When some key holds a value of another kind, all six operations fail with \<open>WrongType\<close> and the
  destination keeps what it had.\<close>

theorem set_algebra_wrong_type:
  assumes i: "i < length (dbs d)" and k: "k \<in> set ks"
    and bad: "view now d i k = Some v" "un_set v = None"
  shows "sunion now i d ks = Err WrongType \<and> sinter now i d ks = Err WrongType \<and>
    sdiff now i d ks = Err WrongType \<and> sunionstore now i d dst ks = (Err WrongType, d) \<and>
    sinterstore now i d dst ks = (Err WrongType, d) \<and> sdiffstore now i d dst ks = (Err WrongType, d)"
proof -
  let ?g = "set_seen now (dbs d ! i)"
  have gk: "?g k = Err WrongType"
    using bad by (auto simp: set_seen_def view_def un_set_def split: rudis_object.splits)
  have g: "\<exists>s. ?g k' = Ok s \<or> ?g k' = Err WrongType" for k'
    by (auto simp: set_seen_def split: option.splits rudis_object.splits)
  obtain k0 rest where ks: "ks = k0 # rest" using k by (cases ks) auto
  obtain s where "?g k0 = Ok s \<or> ?g k0 = Err WrongType" using g by blast
  moreover have "k \<in> set rest \<or> k = k0" using k ks by auto
  ultimately have "sdiff now i d ks = Err WrongType"
    using gk loops_fail(2) [where g = ?g, OF _ gk g, of rest] by (auto simp: sdiff_def ks get_set_clone_in [OF i])
  moreover have "sunion now i d ks = Err WrongType" "sinter now i d ks = Err WrongType"
    using loops_fail [where g = ?g, OF k gk g] ks by (simp_all add: sunion_def sinter_def get_set_clone_in [OF i])
  ultimately show ?thesis
    by (simp add: sunionstore_def sinterstore_def sdiffstore_def store_set_def)
qed

theorem set_algebra_wrong_type_witness:
  "sunionstore 0 0 (one_db [(''k'', Str ''x'')]) ''d'' [''s'', ''k''] = (Err WrongType, one_db [(''k'', Str ''x'')])"
  using set_algebra_wrong_type [of 0 "one_db [(''k'', Str ''x'')]" "''k''" "[''s'', ''k'']" 0 "Str ''x''" "''d''"]
  by (simp add: one_db_simps un_set_def)

text \<open>The set at a key, a missing key holding the empty one.\<close>

definition set_at :: "logical_db \<Rightarrow> string \<Rightarrow> string set option" where
  "set_at l key =
     (case hm_get (data l) key of None \<Rightarrow> Some {} | Some v \<Rightarrow> map_option set (un_set v))"

lemma set_at_cases:
  assumes "set_at l key = Some S"
  obtains "hm_get (data l) key = None" "S = {}"
  | s where "hm_get (data l) key = Some (OSet s)" "S = set s"
  using assms by (auto simp: set_at_def sets.un_iff split: option.splits)

text \<open>\<open>SADD\<close> and \<open>SREM\<close> add and remove members and answer how many of the named ones were new or
  present; a set that becomes empty leaves the keyspace.\<close>

theorem sadd_srem_set:
  assumes i: "i < length (dbs d)" and S: "set_at (dbs d ! i) key = Some S"
  shows "fst (sadd i d key ms) = Ok (card (set ms - S)) \<and>
    set_at (dbs (snd (sadd i d key ms)) ! i) key = Some (S \<union> set ms) \<and>
    fst (srem i d key ms) = Ok (card (set ms \<inter> S)) \<and>
    set_at (dbs (snd (srem i d key ms)) ! i) key = Some (S - set ms) \<and>
    (S \<subseteq> set ms \<longrightarrow> hm_get (data (dbs (snd (srem i d key ms)) ! i)) key = None)"
  using S
proof (cases rule: set_at_cases)
  case 1
  then show ?thesis
    using i by (simp add: sadd_def srem_def db_simps sets.entry_absent sets.stored_absent
      insert_all_count insert_all_set) (simp add: set_at_def ldb_put_def hm_get_insert insert_all_set)
next
  case (2 s)
  have nil: "snd (remove_all ms s) = [] \<longleftrightarrow> set s \<subseteq> set ms"
    using remove_all_set [of ms s] by (metis Diff_eq_empty_iff set_empty)
  show ?thesis
    using i 2 by (auto simp: sadd_def srem_def db_simps sets.entry_there sets.stored_there set_at_def
      insert_all_count remove_all_count get_drop_put nil remove_all_set)
      (simp_all add: ldb_put_def hm_get_insert insert_all_set)
qed

theorem sadd_srem_set_witness:
  "fst (sadd 0 (one_db [(''s'', OSet [''a''])]) ''s'' [''a'', ''b'']) = Ok 1"
proof -
  have "{''a'', ''b''} - {''a''} = {''b''}" by auto
  then show ?thesis
    using sadd_srem_set [of 0 "one_db [(''s'', OSet [''a''])]" "''s''" "{''a''}" "[''a'', ''b'']"]
    by (simp add: one_db_simps set_at_def)
qed

text \<open>\<open>SMOVE\<close> of a member of the source into a set or a missing key removes it from the source and
  adds it to the destination; of anything else it answers false and changes nothing.\<close>

theorem smove_moves:
  assumes i: "i < length (dbs d)" and S: "set_at (dbs d ! i) src = Some S"
    and D: "set_at (dbs d ! i) dst = Some D" and diff: "src \<noteq> dst"
  shows "if m \<in> S
    then fst (smove i d src dst m) = Ok True \<and>
      set_at (dbs (snd (smove i d src dst m)) ! i) src = Some (S - {m}) \<and>
      set_at (dbs (snd (smove i d src dst m)) ! i) dst = Some (insert m D)
    else smove i d src dst m = (Ok False, d)"
  using S
proof (cases rule: set_at_cases)
  case 1
  then show ?thesis using i by (simp add: smove_def smove_step_def db_simps list_update_id)
next
  case (2 s)
  let ?l = "dbs d ! i" and ?s = "hs_remove m s"
  let ?l1 = "drop_if (?s = []) src (ldb_put src (OSet ?s) ?l)"
  have other: "slot ?l1 dst = slot ?l dst" using diff by (simp add: slot_accesses)
  then have "set_at ?l1 dst = Some D" using D by (simp add: set_at_def slot_def)
  then obtain t where put: "on_entry get_or_create_set OSet dst (\<lambda>t. (Ok True, hs_insert m t)) ?l1 =
      (Ok True, ldb_put dst (OSet (hs_insert m t)) ?l1)" and t: "set t = D"
    by (cases rule: set_at_cases) (auto simp: sets.entry_absent sets.entry_there)
  have "slot (ldb_put dst v ?l1) src = slot ?l1 src" for v using diff by (simp add: slot_accesses)
  then have "set_at (ldb_put dst v ?l1) src = Some (S - {m})" for v
    using 2 get_drop_put [of "?s = []" src "OSet ?s" ?l]
    by (auto simp: set_at_def slot_def simp flip: set_empty)
  moreover have "set_at (ldb_put dst (OSet (hs_insert m t)) ?l1) dst = Some (insert m D)"
    by (simp add: set_at_def ldb_put_def hm_get_insert t)
  ultimately show ?thesis
    using i 2 put by (simp add: smove_def smove_step_def db_simps list_update_id)
qed

theorem smove_moves_witness:
  "set_at (dbs (snd (smove 0 (one_db [(''s'', OSet [''a''])]) ''s'' ''t'' ''a'')) ! 0) ''t'' = Some {''a''}"
  using smove_moves [of 0 "one_db [(''s'', OSet [''a''])]" "''s''" "{''a''}" "''t''" "{}" "''a''"]
  by (simp add: one_db_simps set_at_def)

end
