(* ===== verification/DbZSet.thy ===== *)
theory DbZSet imports DbString begin

text \<open>
  The sorted set operations of \<open>Database\<close> in \<open>src/db/mod.rs\<close>, on the sorted set of \<open>ZSet\<close>.
  \<open>coins j\<close> is the stream of random bits the \<open>j\<close>-th insertion into the skip list draws.
\<close>

definition un_zset :: "rudis_object \<Rightarrow> zset option" where
  "un_zset v = (case v of OZSet z \<Rightarrow> Some z | _ \<Rightarrow> None)"

definition get_or_create_zset :: "string \<Rightarrow> logical_db \<Rightarrow> zset res \<times> logical_db" where
  "get_or_create_zset key l =
     (case ldb_entry key (OZSet z_new) l of (OZSet z, l1) \<Rightarrow> (Ok z, l1) | (_, l1) \<Rightarrow> (Err WrongType, l1))"

text \<open>A panic of the sorted set is a panic of the operation.\<close>

fun or_panic :: "'a option \<Rightarrow> 'a res" where
  "or_panic None = Panic"
| "or_panic (Some x) = Ok x"

text \<open>\<open>get_zset\<close> and the match on its result, for the operations that only read.\<close>

definition get_zset :: "nat \<Rightarrow> nat \<Rightarrow> database \<Rightarrow> string \<Rightarrow> 'b \<Rightarrow> (zset \<Rightarrow> 'b option) \<Rightarrow> 'b res" where
  "get_zset now i d key absent f =
     read_db i d (\<lambda>l. case ldb_get now l key of
        None \<Rightarrow> Ok absent | Some (OZSet z) \<Rightarrow> or_panic (f z) | _ \<Rightarrow> Err WrongType)"

subsection \<open>Writing\<close>

fun zadd_loop ::
    "(nat \<Rightarrow> bool list) \<Rightarrow> bool \<Rightarrow> bool \<Rightarrow> bool \<Rightarrow> bool \<Rightarrow> bool \<Rightarrow> (f64 \<times> string) list \<Rightarrow> int \<Rightarrow> zset \<Rightarrow> int res \<times> zset"
where
  "zadd_loop coins nx xx gt lt ch [] cnt z = (Ok cnt, z)"
| "zadd_loop coins nx xx gt lt ch ((s, m) # ms) cnt z =
     (if is_nan s then (Err ScoreNaN, z)
      else if nx \<and> hm_contains (scores z) m then zadd_loop coins nx xx gt lt ch ms cnt z
      else if xx \<and> \<not> hm_contains (scores z) m then zadd_loop coins nx xx gt lt ch ms cnt z
      else if gt \<and> (case hm_get (scores z) m of Some old \<Rightarrow> f_le s old | None \<Rightarrow> False)
        then zadd_loop coins nx xx gt lt ch ms cnt z
      else if lt \<and> (case hm_get (scores z) m of Some old \<Rightarrow> f_le old s | None \<Rightarrow> False)
        then zadd_loop coins nx xx gt lt ch ms cnt z
      else case z_add (coins 0) m s z of
             None \<Rightarrow> (Panic, z)
           | Some (is_new, z') \<Rightarrow>
               zadd_loop (\<lambda>j. coins (Suc j)) nx xx gt lt ch ms (if ch \<or> is_new then cnt + 1 else cnt) z')"

definition zadd ::
    "(nat \<Rightarrow> bool list) \<Rightarrow> nat \<Rightarrow> database \<Rightarrow> string \<Rightarrow> (f64 \<times> string) list \<Rightarrow>
     bool \<Rightarrow> bool \<Rightarrow> bool \<Rightarrow> bool \<Rightarrow> bool \<Rightarrow> int res \<times> database" where
  "zadd coins i d key ms nx xx gt lt ch =
     with_db i d (on_entry get_or_create_zset OZSet key (zadd_loop coins nx xx gt lt ch ms 0))"

text \<open>The shape of the operations that change the sorted set or panic.\<close>

definition run_zset :: "(zset \<Rightarrow> ('a \<times> zset) option) \<Rightarrow> zset \<Rightarrow> 'a res \<times> zset" where
  "run_zset f z = (case f z of None \<Rightarrow> (Panic, z) | Some (r, z') \<Rightarrow> (Ok r, z'))"

fun zrem_loop :: "string list \<Rightarrow> zset \<Rightarrow> (nat \<times> zset) option" where
  "zrem_loop [] z = Some (0, z)"
| "zrem_loop (m # ms) z =
     do { (b, z1) \<leftarrow> z_remove m z; (n, z2) \<leftarrow> zrem_loop ms z1; Some (if b then Suc n else n, z2) }"

definition zrem :: "nat \<Rightarrow> database \<Rightarrow> string \<Rightarrow> string list \<Rightarrow> nat res \<times> database" where
  "zrem i d key ms =
     with_db i d (on_stored un_zset OZSet z_is_empty (Ok 0) key (run_zset (zrem_loop ms)))"

definition zincrby :: "bool list \<Rightarrow> nat \<Rightarrow> database \<Rightarrow> string \<Rightarrow> f64 \<Rightarrow> string \<Rightarrow> f64 res \<times> database" where
  "zincrby coins i d key delta m =
     with_db i d (on_entry get_or_create_zset OZSet key (\<lambda>z.
       let old = (case hm_get (scores z) m of Some s \<Rightarrow> s | None \<Rightarrow> Fin 0);
           new_score = f_add old delta
       in if is_nan new_score then (Err ScoreNaN, z)
          else case z_add coins m new_score z of
                 None \<Rightarrow> (Panic, z) | Some (_, z') \<Rightarrow> (Ok new_score, z')))"

definition zremrangebyscore ::
    "nat \<Rightarrow> database \<Rightarrow> string \<Rightarrow> score_bound \<Rightarrow> score_bound \<Rightarrow> nat res \<times> database" where
  "zremrangebyscore i d key mn mx =
     with_db i d (on_stored un_zset OZSet z_is_empty (Ok 0) key (run_zset (z_remove_by_score mn mx)))"

definition zremrangebyrank :: "nat \<Rightarrow> database \<Rightarrow> string \<Rightarrow> int \<Rightarrow> int \<Rightarrow> nat res \<times> database" where
  "zremrangebyrank i d key start stop =
     with_db i d (on_stored un_zset OZSet z_is_empty (Ok 0) key (run_zset (z_remove_by_rank start stop)))"

definition zpopmin :: "nat \<Rightarrow> database \<Rightarrow> string \<Rightarrow> nat \<Rightarrow> (string \<times> f64) list res \<times> database" where
  "zpopmin i d key n =
     with_db i d (on_stored un_zset OZSet z_is_empty (Ok []) key (run_zset (z_pop_min n)))"

definition zpopmax :: "nat \<Rightarrow> database \<Rightarrow> string \<Rightarrow> nat \<Rightarrow> (string \<times> f64) list res \<times> database" where
  "zpopmax i d key n =
     with_db i d (on_stored un_zset OZSet z_is_empty (Ok []) key (run_zset (z_pop_max n)))"

subsection \<open>Reading\<close>

definition zscore :: "nat \<Rightarrow> nat \<Rightarrow> database \<Rightarrow> string \<Rightarrow> string \<Rightarrow> f64 option res" where
  "zscore now i d key m = get_zset now i d key None (\<lambda>z. Some (z_score m z))"

definition zmscore :: "nat \<Rightarrow> nat \<Rightarrow> database \<Rightarrow> string \<Rightarrow> string list \<Rightarrow> f64 option list res" where
  "zmscore now i d key ms =
     get_zset now i d key (replicate (length ms) None) (\<lambda>z. Some (map (\<lambda>m. z_score m z) ms))"

definition zrank :: "nat \<Rightarrow> nat \<Rightarrow> database \<Rightarrow> string \<Rightarrow> string \<Rightarrow> nat option res" where
  "zrank now i d key m = get_zset now i d key None (z_rank m)"

definition zrevrank :: "nat \<Rightarrow> nat \<Rightarrow> database \<Rightarrow> string \<Rightarrow> string \<Rightarrow> nat option res" where
  "zrevrank now i d key m = get_zset now i d key None (z_revrank m)"

definition zcard :: "nat \<Rightarrow> nat \<Rightarrow> database \<Rightarrow> string \<Rightarrow> nat res" where
  "zcard now i d key = get_zset now i d key 0 (\<lambda>z. Some (z_len z))"

definition zcount :: "nat \<Rightarrow> nat \<Rightarrow> database \<Rightarrow> string \<Rightarrow> score_bound \<Rightarrow> score_bound \<Rightarrow> nat res" where
  "zcount now i d key mn mx = get_zset now i d key 0 (z_count_by_score mn mx)"

definition zrange ::
    "nat \<Rightarrow> nat \<Rightarrow> database \<Rightarrow> string \<Rightarrow> int \<Rightarrow> int \<Rightarrow> bool \<Rightarrow> bool \<Rightarrow> (string \<times> f64 option) list res" where
  "zrange now i d key start stop reversed ws =
     get_zset now i d key [] (\<lambda>z.
       map_option (\<lambda>r. if reversed then rev r else r) (z_range_by_index start stop ws z))"

definition zrangebyscore ::
    "nat \<Rightarrow> nat \<Rightarrow> database \<Rightarrow> string \<Rightarrow> score_bound \<Rightarrow> score_bound \<Rightarrow> bool \<Rightarrow> nat \<Rightarrow> nat option \<Rightarrow>
     (string \<times> f64 option) list res" where
  "zrangebyscore now i d key mn mx ws offset cnt =
     get_zset now i d key [] (z_range_by_score mn mx ws offset cnt)"

definition zrevrangebyscore ::
    "nat \<Rightarrow> nat \<Rightarrow> database \<Rightarrow> string \<Rightarrow> score_bound \<Rightarrow> score_bound \<Rightarrow> bool \<Rightarrow> nat \<Rightarrow> nat option \<Rightarrow>
     (string \<times> f64 option) list res" where
  "zrevrangebyscore now i d key mx mn ws offset cnt =
     get_zset now i d key [] (z_revrange_by_score mx mn ws offset cnt)"

subsection \<open>Locality\<close>

interpretation zsets: value_kind un_zset OZSet z_ok get_or_create_zset z_new
  by unfold_locales
     (auto simp: get_or_create_zset_def ldb_entry_def un_zset_def z_new_ok split: rudis_object.splits)

lemma zadd_loop_ok: "z_ok z \<Longrightarrow> z_ok (snd (zadd_loop coins nx xx gt lt ch ms cnt z))"
proof (induction coins nx xx gt lt ch ms cnt z rule: zadd_loop.induct)
  case (2 coins nx xx gt lt ch s m ms cnt z)
  show ?case
    using 2 z_add_ok(1) [OF 2(6), of s "coins 0" m] by (auto split: option.splits prod.splits)
qed simp

lemma zrem_loop_spec:
  assumes "z_ok z"
  shows "\<exists>z'. zrem_loop ms z = Some (card (set ms \<inter> dom (z_dict z)), z') \<and> z_ok z' \<and>
    z_dict z' = z_dict z |` (- set ms)"
  using assms
proof (induction ms arbitrary: z)
  case (Cons m ms)
  let ?D = "dom (z_dict z)"
  obtain z1 where z1: "z_remove m z = Some (m \<in> ?D, z1)" "z_ok z1" "z_dict z1 = (z_dict z)(m := None)"
    using z_remove_spec [OF Cons.prems, of m] by blast
  obtain z2 where z2: "zrem_loop ms z1 = Some (card (set ms \<inter> dom (z_dict z1)), z2)" "z_ok z2"
    "z_dict z2 = z_dict z1 |` (- set ms)" using Cons.IH [OF z1(2)] by blast
  have "insert m (set ms) \<inter> ?D =
      (if m \<in> ?D then insert m (set ms \<inter> (?D - {m})) else set ms \<inter> (?D - {m}))" by auto
  moreover have "z_dict z2 = z_dict z |` (- set (m # ms))"
    unfolding z2(3) z1(3) by (auto simp: restrict_map_def fun_eq_iff)
  ultimately show ?case using z1 z2(1,2) by (auto simp: finite_z_dict)
qed auto

lemma run_zset_ok:
  "\<exists>r z'. f z = Some (r, z') \<and> z_ok z' \<Longrightarrow> z_ok (snd (run_zset f z))"
  by (auto simp: run_zset_def)

interpretation zadd: keyed_op "\<lambda>i d. zadd coins i d key ms nx xx gt lt ch" "{key}" for coins key ms nx xx gt lt ch
  by (rule keyed_opI [OF zsets.entry_local zadd_def]) (rule zadd_loop_ok)

interpretation zrem: keyed_op "\<lambda>i d. zrem i d key ms" "{key}" for key ms
  by (rule keyed_opI [OF zsets.stored_local zrem_def])
     (rule run_zset_ok, use zrem_loop_spec in blast)

interpretation zincrby: keyed_op "\<lambda>i d. zincrby coins i d key x m" "{key}" for coins key x m
  by (rule keyed_opI [OF zsets.entry_local zincrby_def])
     (auto simp: Let_def dest: z_add_ok(1) split: option.splits)

interpretation zremrangebyscore: keyed_op "\<lambda>i d. zremrangebyscore i d key mn mx" "{key}" for key mn mx
  by (rule keyed_opI [OF zsets.stored_local zremrangebyscore_def])
     (rule run_zset_ok, use z_remove_by_score_spec in blast)

interpretation zremrangebyrank: keyed_op "\<lambda>i d. zremrangebyrank i d key a b" "{key}" for key a b
  by (rule keyed_opI [OF zsets.stored_local zremrangebyrank_def])
     (rule run_zset_ok, use z_remove_by_rank_spec in blast)

interpretation zpopmin: keyed_op "\<lambda>i d. zpopmin i d key n" "{key}" for key n
  by (rule keyed_opI [OF zsets.stored_local zpopmin_def])
     (rule run_zset_ok, use z_pop_min_spec in blast)

interpretation zpopmax: keyed_op "\<lambda>i d. zpopmax i d key n" "{key}" for key n
  by (rule keyed_opI [OF zsets.stored_local zpopmax_def])
     (rule run_zset_ok, use z_pop_max_spec in blast)

subsection \<open>\<open>ZADD\<close> on the dictionary\<close>

text \<open>
  What \<open>ZADD\<close> does to the map from members to scores: the specification its loop over the skip
  list refines.
\<close>

fun zadd_dict ::
    "bool \<Rightarrow> bool \<Rightarrow> bool \<Rightarrow> bool \<Rightarrow> bool \<Rightarrow> (f64 \<times> string) list \<Rightarrow> int \<Rightarrow> (string \<Rightarrow> f64 option) \<Rightarrow>
     int res \<times> (string \<Rightarrow> f64 option)" where
  "zadd_dict nx xx gt lt ch [] cnt D = (Ok cnt, D)"
| "zadd_dict nx xx gt lt ch ((s, m) # ms) cnt D =
     (if is_nan s then (Err ScoreNaN, D)
      else case D m of
        None \<Rightarrow> if xx then zadd_dict nx xx gt lt ch ms cnt D
                else zadd_dict nx xx gt lt ch ms (cnt + 1) (D(m \<mapsto> s))
      | Some old \<Rightarrow>
          if nx \<or> gt \<and> f_le s old \<or> lt \<and> f_le old s then zadd_dict nx xx gt lt ch ms cnt D
          else zadd_dict nx xx gt lt ch ms (if ch then cnt + 1 else cnt) (D(m \<mapsto> s)))"

lemma zadd_loop_refines:
  assumes "z_ok z" "length ms \<le> z_room z"
  shows "fst (zadd_loop coins nx xx gt lt ch ms cnt z) = fst (zadd_dict nx xx gt lt ch ms cnt (z_dict z)) \<and>
    z_dict (snd (zadd_loop coins nx xx gt lt ch ms cnt z)) = snd (zadd_dict nx xx gt lt ch ms cnt (z_dict z))"
  using assms
proof (induction ms arbitrary: coins nx xx gt lt ch cnt z)
  case (Cons p ms)
  obtain s m where p: "p = (s, m)" by fastforce
  note ok = Cons.prems(1)
  have room: "0 < z_room z" "length ms \<le> z_room z" using Cons.prems(2) by simp_all
  show ?case
  proof (cases "is_nan s")
    case False
    obtain b z' where add: "z_add (coins 0) m s z = Some (b, z')" and r: "z_room z \<le> Suc (z_room z')"
      using z_add_total [OF ok False room(1)] by blast
    note z' = z_add_ok [OF ok False add]
    have len: "length ms \<le> z_room z'" using Cons.prems(2) r by simp
    note IH = Cons.IH [OF ok room(2)] Cons.IH [OF z'(1) len, unfolded z'(2)]
    have dict: "hm_get (scores z) m = z_dict z m" by (simp add: z_dict_def)
    show ?thesis
      using z'(3) by (cases "z_dict z m") (simp_all add: p False add dict hm_contains_def IH domIff del: fun_upd_apply)
  qed (simp add: p)
qed simp

text \<open>What the flags allow between the dictionary before and after.\<close>

definition zadd_allowed ::
    "bool \<Rightarrow> bool \<Rightarrow> bool \<Rightarrow> bool \<Rightarrow> (string \<Rightarrow> f64 option) \<Rightarrow> (string \<Rightarrow> f64 option) \<Rightarrow> bool" where
  "zadd_allowed nx xx gt lt D D' \<longleftrightarrow>
     dom D \<subseteq> dom D' \<and> (nx \<longrightarrow> D \<subseteq>\<^sub>m D') \<and> (xx \<longrightarrow> dom D' = dom D) \<and>
     (\<forall>m old new. D m = Some old \<longrightarrow> D' m = Some new \<longrightarrow> (gt \<longrightarrow> old \<le> new) \<and> (lt \<longrightarrow> new \<le> old))"

lemma allowed_refl: "zadd_allowed nx xx gt lt D D"
  by (simp add: zadd_allowed_def)

lemma allowed_trans:
  assumes "zadd_allowed nx xx gt lt D E" "zadd_allowed nx xx gt lt E F"
  shows "zadd_allowed nx xx gt lt D F"
proof -
  have "(gt \<longrightarrow> old \<le> new) \<and> (lt \<longrightarrow> new \<le> old)" if m: "D m = Some old" "F m = Some new" for m old new
  proof -
    obtain mid where mid: "E m = Some mid" using assms(1) m(1) by (auto simp: zadd_allowed_def)
    then show ?thesis using assms m unfolding zadd_allowed_def by (meson order_trans)
  qed
  moreover have "nx \<longrightarrow> D \<subseteq>\<^sub>m F" using assms map_le_trans unfolding zadd_allowed_def by blast
  moreover have "dom D \<subseteq> dom F \<and> (xx \<longrightarrow> dom F = dom D)"
    using assms unfolding zadd_allowed_def by (metis subset_trans)
  ultimately show ?thesis unfolding zadd_allowed_def by blast
qed

lemma allowed_add: "D m = None \<Longrightarrow> \<not> xx \<Longrightarrow> zadd_allowed nx xx gt lt D (D(m \<mapsto> s))"
  by (auto simp: zadd_allowed_def map_le_def)

lemma allowed_set:
  "D m = Some old \<Longrightarrow> \<not> nx \<Longrightarrow> (gt \<longrightarrow> old \<le> s) \<Longrightarrow> (lt \<longrightarrow> s \<le> old) \<Longrightarrow> zadd_allowed nx xx gt lt D (D(m \<mapsto> s))"
  by (auto simp: zadd_allowed_def split: if_splits)

lemma zadd_dict_allowed:
  assumes "\<And>m. D m \<noteq> Some NaN"
  shows "zadd_allowed nx xx gt lt D (snd (zadd_dict nx xx gt lt ch ms cnt D))"
  using assms
proof (induction nx xx gt lt ch ms cnt D rule: zadd_dict.induct)
  case (2 nx xx gt lt ch s m ms cnt D)
  show ?case
  proof (cases "is_nan s")
    case True
    then show ?thesis by (simp add: allowed_refl)
  next
    case nan: False
    then have nonan: "(D(m \<mapsto> s)) m' \<noteq> Some NaN" for m' using 2(5) by (auto simp: is_nan_def)
    show ?thesis
    proof (cases "D m")
      case None
      show ?thesis
      proof (cases xx)
        case True
        then show ?thesis using 2(1) [OF nan None True 2(5)] nan None by simp
      next
        case False
        have "zadd_allowed nx xx gt lt D (D(m \<mapsto> s))" using None False by (rule allowed_add)
        from allowed_trans [OF this 2(2) [OF nan None False nonan]]
        show ?thesis using nan None False by (simp del: fun_upd_apply)
      qed
    next
      case (Some old)
      have old: "\<not> is_nan old" using 2(5) [of m] Some by (auto simp: is_nan_def)
      show ?thesis
      proof (cases "nx \<or> gt \<and> f_le s old \<or> lt \<and> f_le old s")
        case True
        then show ?thesis using 2(3) [OF nan Some True 2(5)] nan Some by simp
      next
        case False
        have "zadd_allowed nx xx gt lt D (D(m \<mapsto> s))"
          using False f_cmp_not_nan [OF nan old] f_cmp_not_nan [OF old nan] by (intro allowed_set [where D = D, OF Some]) auto
        from allowed_trans [OF this 2(4) [OF nan Some False nonan]]
        show ?thesis using nan Some False by (auto simp del: fun_upd_apply)
      qed
    qed
  qed
qed (simp add: allowed_refl)

text \<open>The sorted set at a key, a missing key holding the empty one, and the members of its dictionary.\<close>

definition zset_at :: "logical_db \<Rightarrow> string \<Rightarrow> zset option" where
  "zset_at l key = (case hm_get (data l) key of None \<Rightarrow> Some z_new | Some v \<Rightarrow> un_zset v)"

lemma zset_at_cases:
  assumes "zset_at l key = Some z"
  obtains "hm_get (data l) key = None" "z = z_new" | "hm_get (data l) key = Some (OZSet z)"
  using assms by (auto simp: zset_at_def zsets.un_iff split: option.splits)

lemma zset_at_ok: "ldb_ok l \<Longrightarrow> zset_at l key = Some z \<Longrightarrow> z_ok z"
  using ldb_okD(4) [of l key "OZSet z"] by (auto elim!: zset_at_cases simp: z_new_ok)

lemma zset_entry:
  assumes "zset_at l key = Some z"
  shows "on_entry get_or_create_zset OZSet key f l = (fst (f z), ldb_put key (OZSet (snd (f z))) l)"
  using assms by (cases rule: zset_at_cases) (auto simp: zsets.entry_absent zsets.entry_there)

lemma zset_at_put: "zset_at (ldb_put key (OZSet z) l) key = Some z"
  by (simp add: zset_at_def ldb_put_def hm_get_insert)

lemma sample_zset:
  "\<exists>z. z_ok z \<and> z_dict z = [''a'' \<mapsto> Fin 1, ''b'' \<mapsto> Fin 2] \<and> length (z_items z) = 2"
proof -
  have room: "1 < z_room z_new"
    by (simp add: z_room_def z_new_def sl_room_def sl_new_def isize_max_def node_size_def)
  obtain b1 z1 where z1: "z_add [] ''a'' (Fin 1) z_new = Some (b1, z1)" "z_room z_new \<le> Suc (z_room z1)"
    using z_add_total [OF z_new_ok(1), of "Fin 1" "[]" "''a''"] room by (auto simp: is_nan_def)
  note ok1 = z_add_ok [OF z_new_ok(1) _ z1(1)]
  obtain b2 z2 where z2: "z_add [] ''b'' (Fin 2) z1 = Some (b2, z2)"
    using z_add_total [OF ok1(1), of "Fin 2" "[]" "''b''"] room z1(2) by (auto simp: is_nan_def)
  note ok2 = z_add_ok [OF ok1(1) _ z2]
  have d: "z_dict z2 = [''a'' \<mapsto> Fin 1, ''b'' \<mapsto> Fin 2]" using ok1(2) ok2(2) z_new_ok(2) by (simp add: is_nan_def)
  have "z_ok z2" using ok2(1) by (simp add: is_nan_def)
  moreover from this have "length (z_items z2) = 2" by (simp add: z_items_length z_len_card d)
  ultimately show ?thesis using d by blast
qed

text \<open>C8: As long as the skip list has room, \<open>ZADD\<close> computes on the map from members to scores exactly what
  \<open>zadd_dict\<close> specifies, answers and partial updates before a NaN included, and the flags keep what
  they promise: NX changes no existing score, XX adds no member, GT never lowers and LT never raises
  a score, and no member is ever lost.\<close>

theorem zadd_refines_dict:
  assumes ok: "db_ok d" and i: "i < length (dbs d)" and z: "zset_at (dbs d ! i) key = Some z"
    and room: "length ms \<le> z_room z"
  shows "fst (zadd coins i d key ms nx xx gt lt ch) = fst (zadd_dict nx xx gt lt ch ms 0 (z_dict z)) \<and>
    (\<exists>z'. zset_at (dbs (snd (zadd coins i d key ms nx xx gt lt ch)) ! i) key = Some z' \<and> z_ok z' \<and>
      z_dict z' = snd (zadd_dict nx xx gt lt ch ms 0 (z_dict z)) \<and>
      zadd_allowed nx xx gt lt (z_dict z) (z_dict z'))"
proof -
  have zok: "z_ok z" using zset_at_ok [OF db_ok_nth [OF ok i] z] .
  let ?r = "zadd_loop coins nx xx gt lt ch ms 0 z"
  have ref: "fst ?r = fst (zadd_dict nx xx gt lt ch ms 0 (z_dict z))"
    "z_dict (snd ?r) = snd (zadd_dict nx xx gt lt ch ms 0 (z_dict z))"
    using zadd_loop_refines [OF zok room, of coins nx xx gt lt ch 0] by simp_all
  have "z_dict z m \<noteq> Some NaN" for m using z_not_nan [OF zok, of m NaN] by (auto simp: is_nan_def)
  then have "zadd_allowed nx xx gt lt (z_dict z) (z_dict (snd ?r))"
    unfolding ref(2) by (rule zadd_dict_allowed)
  then show ?thesis
    using i ref zadd_loop_ok [OF zok] by (simp add: zadd_def db_simps zset_entry [OF z] zset_at_put)
qed

theorem zadd_refines_dict_witness:
  "fst (zadd (\<lambda>_. []) 0 (one_db []) ''z'' [(Fin 1, ''a''), (Fin 2, ''b''), (Fin 3, ''a'')]
     False False True False True) = Ok 3"
proof -
  have "db_ok (one_db [])" by (rule one_db_ok) simp_all
  moreover have "zset_at (dbs (one_db []) ! 0) ''z'' = Some z_new" by (simp add: zset_at_def one_db_simps)
  moreover have "3 \<le> z_room z_new"
    by (simp add: z_room_def z_new_def sl_room_def sl_new_def isize_max_def node_size_def)
  ultimately show ?thesis
    using zadd_refines_dict [of "one_db []" 0 "''z''" z_new "[(Fin 1, ''a''), (Fin 2, ''b''), (Fin 3, ''a'')]"
        "\<lambda>_. []" False False True False True]
    by (simp add: one_db_simps z_new_ok is_nan_def f_le_def eval_nat_numeral)
qed

subsection \<open>What the sorted set operations answer\<close>

lemma zset_seen:
  assumes ok: "db_ok d" and i: "i < length (dbs d)" and z: "view now d i key = Some (OZSet z)"
  shows "z_ok z" "get_zset now i d key absent f = or_panic (f z)"
  using z i ldb_okD(4) [OF db_ok_nth [OF ok i], of key "OZSet z"]
  by (auto simp: view_def ldb_get_def get_zset_def db_simps split: option.splits if_splits)

text \<open>C16: The queries of a sorted set agree with one sequence, the members sorted by score and then by
  name: \<open>ZRANGE\<close> returns a slice of it, \<open>ZCARD\<close> its length, \<open>ZRANK\<close> and \<open>ZREVRANK\<close> the position of a
  member from either end, and none of them panics.\<close>

theorem zset_ranking:
  assumes ok: "db_ok d" and i: "i < length (dbs d)" and live: "view now d i key = Some (OZSet z)"
  shows "sorted_wrt (\<lambda>p q. (snd p, fst p) < (snd q, fst q)) (z_items z) \<and>
    set (z_items z) = {(m, s). zscore now i d key m = Ok (Some s)} \<and>
    zcard now i d key = Ok (length (z_items z)) \<and>
    zrange now i d key start stop False True =
      Ok (map (\<lambda>(m, s). (m, Some s)) (slice start stop (z_items z))) \<and>
    (\<forall>m s. zscore now i d key m = Ok (Some s) \<longrightarrow>
      (\<exists>r < length (z_items z). zrank now i d key m = Ok (Some r) \<and> z_items z ! r = (m, s)) \<and>
      (\<exists>r < length (z_items z). zrevrank now i d key m = Ok (Some r) \<and> rev (z_items z) ! r = (m, s)))"
proof -
  note seen = zset_seen [OF ok i live]
  have score: "zscore now i d key m = Ok (z_dict z m)" for m
    by (simp add: zscore_def seen(2) z_score_def z_dict_def)
  have ws: "with_scores True = (\<lambda>(m, s). (m, Some s))" by (auto simp: with_scores_def)
  have "(\<exists>r < length (z_items z). zrank now i d key m = Ok (Some r) \<and> z_items z ! r = (m, s)) \<and>
      (\<exists>r < length (z_items z). zrevrank now i d key m = Ok (Some r) \<and> rev (z_items z) ! r = (m, s))"
    if "z_dict z m = Some s" for m s
    using z_rank_spec(2) [OF seen(1) that] z_revrank_spec [OF seen(1) that]
    by (auto simp: zrank_def zrevrank_def seen(2) z_items_length [OF seen(1)])
  then show ?thesis
    using z_items_sorted [of z]
    by (auto simp: score zcard_def zrange_def seen(2) z_items_length [OF seen(1)]
        z_range_by_index_spec [OF seen(1)] ws z_items_set)
qed

theorem zset_ranking_witness:
  "\<exists>z. zcard 0 0 (one_db [(''z'', OZSet z)]) ''z'' = Ok 2 \<and>
     (''a'', Fin 1) \<in> set (z_items z) \<and> (''b'', Fin 2) \<in> set (z_items z)"
proof -
  obtain z where z: "z_ok z" "z_dict z = [''a'' \<mapsto> Fin 1, ''b'' \<mapsto> Fin 2]" "length (z_items z) = 2"
    using sample_zset by blast
  have "db_ok (one_db [(''z'', OZSet z)])" by (rule one_db_ok) (auto simp: z)
  then have "zcard 0 0 (one_db [(''z'', OZSet z)]) ''z'' = Ok 2"
    using zset_ranking [of "one_db [(''z'', OZSet z)]" 0 0 "''z''" z] z(3) by (simp add: one_db_simps)
  then show ?thesis using z(2) by (intro exI [of _ z]) (simp add: z_items_set)
qed

text \<open>C22: The queries by score see exactly the members whose score lies between the two bounds, each bound
  inclusive, exclusive or infinite: \<open>ZCOUNT\<close> counts them and \<open>ZRANGEBYSCORE\<close> and \<open>ZREVRANGEBYSCORE\<close>
  list them in ascending and descending order, after the offset and up to the limit.\<close>

theorem zset_by_score:
  assumes ok: "db_ok d" and i: "i < length (dbs d)" and live: "view now d i key = Some (OZSet z)"
  shows "(let inside = filter (\<lambda>p. in_bounds mn mx (snd p)) (z_items z);
       upto = (\<lambda>xs. take (case cnt of None \<Rightarrow> usize_max | Some c \<Rightarrow> c) (drop offset xs))
     in zcount now i d key mn mx = Ok (length inside) \<and>
       zrangebyscore now i d key mn mx ws offset cnt = Ok (map (with_scores ws) (upto inside)) \<and>
       zrevrangebyscore now i d key mx mn ws offset cnt = Ok (map (with_scores ws) (upto (rev inside))))"
proof -
  note seen = zset_seen [OF ok i live]
  have "z_count_by_score mn mx z = Some (length (filter (\<lambda>p. in_bounds mn mx (snd p)) (z_items z)))"
    by (simp add: z_count_by_score_def z_iter_items [OF seen(1)] bounds_fun)
  then show ?thesis
    by (simp add: Let_def zcount_def zrangebyscore_def zrevrangebyscore_def seen(2)
        z_range_by_score_spec [OF seen(1)] z_revrange_by_score_spec [OF seen(1)])
qed

theorem zset_by_score_witness:
  "\<exists>z. zcount 0 0 (one_db [(''z'', OZSet z)]) ''z'' sb_neg_inf sb_pos_inf = Ok 2"
proof -
  obtain z where z: "z_ok z" "length (z_items z) = 2" using sample_zset by blast
  have "db_ok (one_db [(''z'', OZSet z)])" by (rule one_db_ok) (auto simp: z)
  moreover have "in_bounds sb_neg_inf sb_pos_inf s" for s
    by (simp add: in_bounds_def contains_def contains_upper_def sb_neg_inf_def sb_pos_inf_def)
  ultimately show ?thesis
    using zset_by_score [of "one_db [(''z'', OZSet z)]" 0 0 "''z''" z sb_neg_inf sb_pos_inf] z(2)
    by (intro exI [of _ z]) (auto simp: one_db_simps Let_def)
qed

definition left_zset :: "database \<Rightarrow> nat \<Rightarrow> string \<Rightarrow> (string \<times> f64) list \<Rightarrow> bool" where
  "left_zset d i key items \<longleftrightarrow>
     (if items = [] then hm_get (data (dbs d ! i)) key = None
      else \<exists>z. hm_get (data (dbs d ! i)) key = Some (OZSet z) \<and> z_ok z \<and> z_items z = items)"

lemma z_empty_iff: "z_ok z \<Longrightarrow> z_is_empty z \<longleftrightarrow> z_items z = []"
  using z_items_length [of z] by (auto simp: z_is_empty_def z_len_def)

lemma left_stored:
  assumes i: "i < length (dbs d)" and z: "hm_get (data (dbs d ! i)) key = Some (OZSet z)"
    and f: "\<exists>z'. f z = Some (r, z') \<and> z_ok z' \<and> z_items z' = items"
  shows "fst (with_db i d (on_stored un_zset OZSet z_is_empty absent key (run_zset f))) = Ok r \<and>
    left_zset (snd (with_db i d (on_stored un_zset OZSet z_is_empty absent key (run_zset f)))) i key items"
proof -
  obtain z' where z': "f z = Some (r, z')" "z_ok z'" "z_items z' = items" using f by blast
  have "z_is_empty z' \<longleftrightarrow> items = []" using z_empty_iff [OF z'(2)] z'(3) by simp
  then show ?thesis
    using i z'(2,3) by (auto simp: db_simps zsets.stored_there [OF z] run_zset_def z'(1) left_zset_def get_drop_put)
qed

text \<open>C23: \<open>ZPOPMIN\<close> and \<open>ZPOPMAX\<close> return the members with the lowest and the highest scores, in that order,
  and leave the others; \<open>ZREMRANGEBYRANK\<close> and \<open>ZREMRANGEBYSCORE\<close> remove exactly the slice and the
  interval they name; a sorted set that becomes empty leaves the keyspace.\<close>

theorem zset_removals:
  assumes ok: "db_ok d" and i: "i < length (dbs d)" and z: "hm_get (data (dbs d ! i)) key = Some (OZSet z)"
  shows "(let r = zpopmin i d key n in
       fst r = Ok (take n (z_items z)) \<and> left_zset (snd r) i key (drop n (z_items z))) \<and>
    (let r = zpopmax i d key n in
       fst r = Ok (take n (rev (z_items z))) \<and> left_zset (snd r) i key (rev (drop n (rev (z_items z))))) \<and>
    (let r = zremrangebyrank i d key start stop; cut = slice start stop (z_items z) in
       fst r = Ok (length cut) \<and> left_zset (snd r) i key (filter (\<lambda>p. p \<notin> set cut) (z_items z))) \<and>
    (let r = zremrangebyscore i d key mn mx in
       fst r = Ok (length (filter (\<lambda>p. in_bounds mn mx (snd p)) (z_items z))) \<and>
       left_zset (snd r) i key (filter (\<lambda>p. \<not> in_bounds mn mx (snd p)) (z_items z)))"
proof -
  have zok: "z_ok z" using ldb_okD(4) [OF db_ok_nth [OF ok i] z] by simp
  have mx': "\<exists>z'. z_pop_max n z = Some (take n (rev (z_items z)), z') \<and> z_ok z' \<and>
      z_items z' = rev (drop n (rev (z_items z)))"
    using z_pop_max_spec [OF zok, of n] by (metis rev_rev_ident)
  show ?thesis
    unfolding Let_def zpopmin_def zpopmax_def zremrangebyrank_def zremrangebyscore_def
    by (intro conjI; rule left_stored [OF i z, THEN conjunct1] left_stored [OF i z, THEN conjunct2];
        use z_pop_min_spec [OF zok] mx' z_remove_by_rank_spec [OF zok] z_remove_by_score_spec [OF zok] in blast)
qed

theorem zset_removals_witness:
  "\<exists>z. fst (zpopmin 0 (one_db [(''z'', OZSet z)]) ''z'' 2) = Ok (z_items z) \<and> length (z_items z) = 2"
proof -
  obtain z where z: "z_ok z" "length (z_items z) = 2" using sample_zset by blast
  have "db_ok (one_db [(''z'', OZSet z)])" by (rule one_db_ok) (auto simp: z)
  then show ?thesis
    using zset_removals [of "one_db [(''z'', OZSet z)]" 0 "''z''" z 2] z(2)
    by (intro exI [of _ z]) (auto simp: one_db_simps Let_def)
qed

end
