(* ===== verification/Proto.thy ===== *)
theory Proto imports Errors "HOL-Library.Sublist" begin

text \<open>
  The wire protocol of \<open>src/proto/mod.rs\<close>.  The cursor is the unread rest of the buffer.  Two
  limits of the process are parameters: \<open>fsz\<close>, the size of a \<open>Frame\<close> in bytes, which bounds
  \<open>Vec::with_capacity\<close>, and \<open>stack\<close>, the number of nested calls of \<open>decode_frame\<close> the stack holds.
  Beyond the first the result is \<open>Panic\<close>, which unwinds; beyond the second it is \<^theory_text>\<open>None\<close>, since an
  overflow of the stack aborts the whole process.
\<close>

datatype frame =
    Simple string
  | FError string
  | Integer int
  | Bulk string
  | Null
  | Array "frame list"

definition CR :: char where "CR = chr 13"
definition LF :: char where "LF = chr 10"
definition crlf :: string where "crlf = [CR, LF]"

subsection \<open>Encoding\<close>

fun encode :: "frame \<Rightarrow> string" where
  "encode (Simple s) = ''+'' @ s @ crlf"
| "encode (FError s) = ''-'' @ s @ crlf"
| "encode (Integer n) = '':'' @ show_int n @ crlf"
| "encode (Bulk b) = ''$'' @ show_nat (length b) @ crlf @ b @ crlf"
| "encode Null = ''$-1'' @ crlf"
| "encode (Array fs) = ''*'' @ show_nat (length fs) @ crlf @ concat (map encode fs)"

definition frame_ok_reply :: frame where "frame_ok_reply = Simple ''OK''"
definition frame_pong :: frame where "frame_pong = Simple ''PONG''"
definition frame_from_error :: "redis_error \<Rightarrow> frame" where
  "frame_from_error e = FError (err_to_string e)"

subsection \<open>Decoding\<close>

definition incomplete :: redis_error where "incomplete = Protocol ''incomplete''"

text \<open>The first line of the input without its \<open>CR LF\<close>, and what follows it.\<close>

fun split_crlf :: "string \<Rightarrow> (string \<times> string) option" where
  "split_crlf [] = None"
| "split_crlf [c] = None"
| "split_crlf (c # d # s) =
     (if c = CR \<and> d = LF then Some ([], s)
      else map_option (\<lambda>(l, r). (c # l, r)) (split_crlf (d # s)))"

definition read_line :: "string \<Rightarrow> (string \<times> string) res" where
  "read_line s =
     (case split_crlf s of
        None \<Rightarrow> Err incomplete
      | Some (l, r) \<Rightarrow> (case from_utf8 l of
            None \<Rightarrow> Err (Protocol ''invalid UTF-8'') | Some l' \<Rightarrow> Ok (l', r)))"

definition read_int :: "string \<Rightarrow> string \<Rightarrow> (int \<times> string) res" where
  "read_int what s =
     bind_res (read_line s) (\<lambda>(line, r).
       case parse_i64_str line of
         None \<Rightarrow> Err (Protocol (''invalid '' @ what @ '': '' @ line)) | Some n \<Rightarrow> Ok (n, r))"

definition decode_bulk :: "string \<Rightarrow> (frame \<times> string) res" where
  "decode_bulk s =
     bind_res (read_int ''bulk length'' s) (\<lambda>(len, r).
       if len = - 1 then Ok (Null, r)
       else if len < 0 then Err (Protocol (''invalid bulk length: '' @ show_int len))
       else if length r < as_usize len + 2 then Err incomplete
       else Ok (Bulk (take (as_usize len) r), drop (as_usize len + 2) r))"

definition decode_inline :: "string \<Rightarrow> (frame \<times> string) res" where
  "decode_inline s =
     bind_res (read_line s) (\<lambda>(line, r).
       if split_ascii_whitespace line = [] then Err (Protocol ''empty inline command'')
       else Ok (Array (map Bulk (split_ascii_whitespace line)), r))"

text \<open>A call that may overflow the stack, and the \<open>?\<close> behind it.\<close>

definition map_call :: "('a \<Rightarrow> 'b) \<Rightarrow> 'a res option \<Rightarrow> 'b res option" where
  "map_call f = map_option (map_res f)"

fun bind_call :: "'a res option \<Rightarrow> ('a \<Rightarrow> 'b res option) \<Rightarrow> 'b res option" where
  "bind_call None f = None"
| "bind_call (Some (Ok x)) f = f x"
| "bind_call (Some (Err e)) f = Some (Err e)"
| "bind_call (Some Panic) f = Some Panic"

lemma map_call_simps [simp]: "map_call f None = None" "map_call f (Some r) = Some (map_res f r)"
  by (simp_all add: map_call_def)

lemma bind_call_cong [fundef_cong]:
  "r = r' \<Longrightarrow> (\<And>x. r' = Some (Ok x) \<Longrightarrow> f x = g x) \<Longrightarrow> bind_call r f = bind_call r' g"
  by (cases "(r', f)" rule: bind_call.cases) auto

lemma bind_call_iff:
  "bind_call m f = Some (Ok y) \<longleftrightarrow> (\<exists>x. m = Some (Ok x) \<and> f x = Some (Ok y))"
  "bind_call m f = None \<longleftrightarrow> m = None \<or> (\<exists>x. m = Some (Ok x) \<and> f x = None)"
  by (cases "(m, f)" rule: bind_call.cases; auto)+

lemma map_call_iff:
  "map_call f m = Some (Ok y) \<longleftrightarrow> (\<exists>x. m = Some (Ok x) \<and> y = f x)" "map_call f m = None \<longleftrightarrow> m = None"
  by (cases m; auto simp: map_res_Ok_iff)+

fun decode_frame :: "nat \<Rightarrow> nat \<Rightarrow> string \<Rightarrow> (frame \<times> string) res option"
  and decode_frames :: "nat \<Rightarrow> nat \<Rightarrow> nat \<Rightarrow> string \<Rightarrow> (frame list \<times> string) res option" where
  "decode_frame fsz 0 s = None"
| "decode_frame fsz (Suc stack) [] = Some (Err incomplete)"
| "decode_frame fsz (Suc stack) (b # s) =
     (if b = CHR ''+'' then Some (map_res (\<lambda>(l, r). (Simple l, r)) (read_line s))
      else if b = CHR ''-'' then Some (map_res (\<lambda>(l, r). (FError l, r)) (read_line s))
      else if b = CHR '':'' then Some (map_res (\<lambda>(n, r). (Integer n, r)) (read_int ''integer'' s))
      else if b = CHR ''$'' then Some (decode_bulk s)
      else if b = CHR ''*'' then
        bind_call (Some (read_int ''array length'' s)) (\<lambda>(cnt, r).
          if cnt = - 1 then Some (Ok (Null, r))
          else if cnt < 0 then Some (Err (Protocol (''invalid array length: '' @ show_int cnt)))
          else if \<not> capacity_ok fsz (as_usize cnt) then Some Panic
          else map_call (\<lambda>(fs, r'). (Array fs, r')) (decode_frames fsz stack (as_usize cnt) r))
      else Some (decode_inline (b # s)))"
| "decode_frames fsz stack 0 s = Some (Ok ([], s))"
| "decode_frames fsz stack (Suc n) s =
     bind_call (decode_frame fsz stack s) (\<lambda>(f, r).
       map_call (\<lambda>(fs, r'). (f # fs, r')) (decode_frames fsz stack n r))"

text \<open>The answer of \<open>parse_frame\<close> and the buffer it leaves, if it returns.\<close>

definition parse_frame :: "nat \<Rightarrow> nat \<Rightarrow> string \<Rightarrow> (frame option res \<times> string) option" where
  "parse_frame fsz stack buf =
     (if buf = [] then Some (Ok None, buf)
      else case decode_frame fsz stack buf of
             None \<Rightarrow> None
           | Some (Ok (f, r)) \<Rightarrow> Some (Ok (Some f), r)
           | Some (Err e) \<Rightarrow> if e = incomplete then Some (Ok None, buf) else Some (Err e, buf)
           | Some Panic \<Rightarrow> Some (Panic, buf))"

fun cmd_arg :: "frame \<Rightarrow> string res" where
  "cmd_arg (Bulk b) = Ok b"
| "cmd_arg (Simple s) = Ok s"
| "cmd_arg _ = Err (Protocol ''expected bulk string in command'')"

fun cmd_args :: "frame list \<Rightarrow> string list res" where
  "cmd_args [] = Ok []"
| "cmd_args (f # fs) = bind_res (cmd_arg f) (\<lambda>a. map_res ((#) a) (cmd_args fs))"

definition frame_to_cmd_args :: "frame \<Rightarrow> string list res" where
  "frame_to_cmd_args f =
     (case f of Array fs \<Rightarrow> cmd_args fs | _ \<Rightarrow> Err (Protocol ''expected array frame''))"

subsection \<open>Lines\<close>

lemma split_crlf_append: "split_crlf s = None \<Longrightarrow> split_crlf (s @ crlf @ r) = Some (s, r)"
  by (induction s rule: split_crlf.induct) (auto simp: crlf_def CR_def LF_def chr_def split: if_splits)

lemma split_crlf_length: "split_crlf s = Some (l, r) \<Longrightarrow> length r < length s"
  by (induction s arbitrary: l rule: split_crlf.induct) (auto split: if_splits)

lemma split_crlf_none: "(\<And>c. c \<in> set s \<Longrightarrow> c \<noteq> CR) \<Longrightarrow> split_crlf s = None"
  by (induction s rule: split_crlf.induct) auto

lemma split_crlf_prefix: "split_crlf (s @ t) = None \<Longrightarrow> split_crlf s = None"
proof (induction s rule: split_crlf.induct)
  case (3 c d s)
  then show ?case by (auto split: if_splits)
qed simp_all

lemma split_crlf_cut:
  assumes "split_crlf s = None" "k < length (s @ crlf)"
  shows "split_crlf (take k (s @ crlf)) = None"
proof (cases "k \<le> length s")
  case True
  then show ?thesis using assms(1) split_crlf_prefix [of "take k s" "drop k s"] by simp
next
  case False
  then have k: "k = Suc (length s)" using assms(2) by (simp add: crlf_def)
  have "split_crlf (s @ [CR]) = None" using assms(1)
    by (induction s rule: split_crlf.induct) (auto simp: CR_def LF_def chr_def split: if_splits)
  then show ?thesis by (simp add: k crlf_def)
qed

lemma show_no_cr: "split_crlf (show_int n) = None" "split_crlf (show_nat k) = None"
proof -
  have cr: "byte_of CR = 13" "byte_of (CHR ''-'') = 45" by (simp add: CR_def, simp add: byte_of_def)
  have "c \<noteq> CR" if "c \<in> set (show_int n)" for c n
    using show_int_chars [OF that] cr by auto
  then show "split_crlf (show_int n) = None" by (rule split_crlf_none)
  have "c \<noteq> CR" if "c \<in> set (show_nat k)" for c
    using show_nat_digits [OF that] cr by auto
  then show "split_crlf (show_nat k) = None" by (rule split_crlf_none)
qed

lemma read_line_append: "split_crlf s = None \<Longrightarrow> utf8_valid s \<Longrightarrow> read_line (s @ crlf @ r) = Ok (s, r)"
  by (simp add: read_line_def split_crlf_append from_utf8_def)

lemma show_nat_int: "show_nat n = show_int (int n)"
  by (simp add: show_int_def)

lemma read_int_show: "in_i64 n \<Longrightarrow> read_int what (show_int n @ crlf @ r) = Ok (n, r)"
  by (simp add: read_int_def read_line_append show_no_cr utf8_valid_ascii ascii_show_int parse_i64_show)

lemma read_line_cut:
  "split_crlf s = None \<Longrightarrow> k < length (s @ crlf) \<Longrightarrow> read_line (take k (s @ crlf)) = Err incomplete"
  by (simp add: read_line_def split_crlf_cut del: take_append length_append)

lemma read_int_cut: "k < length (show_int n @ crlf) \<Longrightarrow> read_int what (take k (show_int n @ crlf)) = Err incomplete"
  by (simp add: read_int_def read_line_cut show_no_cr del: take_append length_append)

lemma read_line_length: "read_line s = Ok (l, r) \<Longrightarrow> length r < length s"
  by (auto simp: read_line_def dest: split_crlf_length split: option.splits)

lemma read_int_length: "read_int what s = Ok (n, r) \<Longrightarrow> length r < length s"
  by (auto simp: read_int_def bind_res_Ok_iff dest: read_line_length split: option.splits)

subsection \<open>Progress\<close>

text \<open>Every frame that is read takes at least one byte, so reading frames from a buffer ends.\<close>

lemma decode_progress:
  "decode_frame fsz stack s = Some (Ok (f, r)) \<Longrightarrow> length r < length s"
  "decode_frames fsz stack n s = Some (Ok (fs, r)) \<Longrightarrow> length r \<le> length s"
proof (induction fsz stack s and fsz stack n s arbitrary: f r and fs r rule: decode_frame_decode_frames.induct)
  case (3 fsz stack b s)
  have bulk: "decode_bulk s = Ok (f, r) \<Longrightarrow> length r < Suc (length s)"
    by (auto simp: decode_bulk_def bind_res_Ok_iff dest!: read_int_length split: if_splits)
  have inline: "decode_inline (b # s) = Ok (f, r) \<Longrightarrow> length r < Suc (length s)"
    by (auto simp: decode_inline_def bind_res_Ok_iff dest!: read_line_length split: if_splits)
  have array: "length r < Suc (length s)"
    if c: "read_int ''array length'' s = Ok (cnt, r0)" "b = CHR ''*''" "cnt \<noteq> - 1" "\<not> cnt < 0"
      "capacity_ok fsz (as_usize cnt)" "decode_frames fsz stack (as_usize cnt) r0 = Some (Ok (fs, r))" for cnt r0 fs
    using 3(1) [OF _ _ _ _ c(2), of "(cnt, r0)" cnt r0 fs r] c read_int_length [OF c(1)] by simp
  show ?case
    using 3(2) bulk inline array
    by (auto simp: bind_call_iff map_call_iff map_res_Ok_iff dest: read_int_length read_line_length split: if_splits)
next
  case (5 fsz stack n s)
  then obtain f r1 fs' where d: "decode_frame fsz stack s = Some (Ok (f, r1))" "decode_frames fsz stack n r1 = Some (Ok (fs', r))"
    by (auto simp: bind_call_iff map_call_iff)
  show ?case using 5(1) [OF d(1)] 5(2) [OF d(1) refl d(2)] by simp
qed auto

subsection \<open>Round trips and fragments\<close>

text \<open>
  The frames the wire can carry: strings are UTF-8 without a line break, integers and lengths fit
  \<open>i64\<close>, and arrays fit a vector.  \<open>depth\<close> is the nesting of the frame.
\<close>

fun frame_ok :: "nat \<Rightarrow> frame \<Rightarrow> bool" where
  "frame_ok fsz (Simple s) \<longleftrightarrow> utf8_valid s \<and> split_crlf s = None"
| "frame_ok fsz (FError s) \<longleftrightarrow> utf8_valid s \<and> split_crlf s = None"
| "frame_ok fsz (Integer n) \<longleftrightarrow> in_i64 n"
| "frame_ok fsz (Bulk b) \<longleftrightarrow> in_i64 (int (length b))"
| "frame_ok fsz Null \<longleftrightarrow> True"
| "frame_ok fsz (Array fs) \<longleftrightarrow>
     in_i64 (int (length fs)) \<and> capacity_ok fsz (length fs) \<and> (\<forall>f\<in>set fs. frame_ok fsz f)"

fun depth :: "frame \<Rightarrow> nat" where
  "depth (Array fs) = Suc (foldr max (map depth fs) 0)"
| "depth f = 1"

lemma depth_element: "f \<in> set fs \<Longrightarrow> depth f \<le> foldr max (map depth fs) 0"
  by (induction fs) auto

lemma depth_pos: "0 < depth f"
  by (cases f) auto

lemma as_usize_length: "in_i64 (int n) \<Longrightarrow> as_usize (int n) = n"
  by (simp add: as_usize_id)

lemma length_crlf [simp]: "length crlf = 2"
  by (simp add: crlf_def)

lemma skip_bulk [simp]: "drop (length b + 2) (b @ crlf @ r) = r" "drop (Suc (Suc (length b))) (b @ crlf @ r) = r"
  by (simp_all add: crlf_def)

lemma decode_encode:
  "frame_ok fsz f \<Longrightarrow> depth f \<le> stack \<Longrightarrow> decode_frame fsz stack (encode f @ rest) = Some (Ok (f, rest))"
proof (induction f arbitrary: stack rest)
  case (Bulk b)
  then show ?case
    by (cases stack) (simp_all add: decode_bulk_def show_nat_int read_int_show as_usize_length)
next
  case Null
  have "''-1'' = show_int (- 1)" by code_simp
  then have "read_int what (''-1'' @ crlf @ rest) = Ok (- 1, rest)" for what
    using read_int_show [of "- 1" what rest] by (simp add: in_i64_def i64_min_def i64_max_def)
  then show ?case using Null by (cases stack) (simp_all add: decode_bulk_def)
next
  case (Array fs)
  obtain st where st: "stack = Suc st" using Array.prems(2) by (cases stack) auto
  have all: "frame_ok fsz f" "depth f \<le> st" if "f \<in> set fs" for f
    using Array.prems depth_element [OF that] that by (auto simp: st)
  have "decode_frames fsz st (length gs) (concat (map encode gs) @ rest) = Some (Ok (gs, rest))"
    if "set gs \<subseteq> set fs" for gs
    using that Array.IH all by (induction gs) auto
  then show ?case
    using Array.prems by (simp add: st show_nat_int read_int_show as_usize_length)
next
  case (Simple s)
  then show ?case by (cases stack) (simp_all add: read_line_append)
next
  case (FError s)
  then show ?case by (cases stack) (simp_all add: read_line_append)
next
  case (Integer n)
  then show ?case by (cases stack) (simp_all add: read_int_show)
qed

lemma decode_cut:
  "frame_ok fsz f \<Longrightarrow> depth f \<le> stack \<Longrightarrow> k < length (encode f) \<Longrightarrow>
   decode_frame fsz stack (take k (encode f)) = Some (Err incomplete)"
proof (induction f arbitrary: stack k)
  case (Simple s)
  then show ?case by (cases stack; cases k) (simp_all add: read_line_cut del: take_append)
next
  case (FError s)
  then show ?case by (cases stack; cases k) (simp_all add: read_line_cut del: take_append)
next
  case (Integer n)
  then show ?case by (cases stack; cases k) (simp_all add: read_int_cut del: take_append)
next
  case (Bulk b)
  let ?h = "show_int (int (length b)) @ crlf"
  obtain st where st: "stack = Suc st" using Bulk.prems(2) by (cases stack) auto
  show ?case
  proof (cases k)
    case (Suc j)
    show ?thesis
    proof (cases "j < length ?h")
      case True
      then have "take j (?h @ b @ crlf) = take j ?h" by simp
      then show ?thesis
        using read_int_cut [OF True] by (simp add: st Suc decode_bulk_def show_nat_int del: take_append)
    next
      case False
      then have t: "take j (?h @ b @ crlf) = ?h @ take (j - length ?h) (b @ crlf)" by simp
      have l: "length (take (j - length ?h) (b @ crlf)) < length b + 2"
        using Bulk.prems(3) False by (simp add: Suc show_nat_int)
      have "decode_bulk (take j (?h @ b @ crlf)) = Err incomplete"
        using Bulk.prems(1) l unfolding t
        by (simp add: decode_bulk_def read_int_show as_usize_length)
      then show ?thesis by (simp add: st Suc show_nat_int del: take_append)
    qed
  qed (simp add: st)
next
  case Null
  have i: "''-1'' = show_int (- 1)" by code_simp
  obtain st where st: "stack = Suc st" using Null.prems(2) by (cases stack) auto
  show ?case
  proof (cases k)
    case (Suc j)
    then have "j < length (show_int (- 1) @ crlf)" using Null.prems(3) by (simp flip: i)
    from read_int_cut [OF this] show ?thesis by (simp add: st Suc decode_bulk_def i del: take_append)
  qed (simp add: st)
next
  case (Array fs)
  let ?h = "show_int (int (length fs)) @ crlf"
  obtain st where st: "stack = Suc st" using Array.prems(2) by (cases stack) auto
  have all: "frame_ok fsz f" "depth f \<le> st" if "f \<in> set fs" for f
    using Array.prems depth_element [OF that] that by (auto simp: st)
  have cut: "decode_frames fsz st (length gs) (take j (concat (map encode gs))) = Some (Err incomplete)"
    if "set gs \<subseteq> set fs" "j < length (concat (map encode gs))" for gs j
    using that
  proof (induction gs arbitrary: j)
    case (Cons g gs)
    then have g: "g \<in> set fs" by simp
    show ?case
    proof (cases "j < length (encode g)")
      case True
      then show ?thesis using Array.IH [OF g all [OF g] True] by simp
    next
      case False
      then have "decode_frame fsz st (encode g @ take (j - length (encode g)) (concat (map encode gs))) =
          Some (Ok (g, take (j - length (encode g)) (concat (map encode gs))))"
        using decode_encode [OF all [OF g]] by simp
      then show ?thesis using Cons.IH [of "j - length (encode g)"] Cons.prems False by simp
    qed
  qed simp
  show ?case
  proof (cases k)
    case (Suc j)
    show ?thesis
    proof (cases "j < length ?h")
      case True
      then have "take j (?h @ concat (map encode fs)) = take j ?h" by simp
      then show ?thesis
        using read_int_cut [OF True] by (simp add: st Suc show_nat_int del: take_append)
    next
      case False
      then have t: "take j (?h @ concat (map encode fs)) = ?h @ take (j - length ?h) (concat (map encode fs))"
        by simp
      have "decode_frames fsz st (length fs) (take (j - length ?h) (concat (map encode fs))) = Some (Err incomplete)"
        using Array.prems(3) False by (intro cut) (auto simp: Suc show_nat_int)
      then show ?thesis
        using Array.prems(1) t by (simp add: st Suc show_nat_int read_int_show as_usize_length del: take_append)
    qed
  qed (simp add: st)
qed

lemma encode_ne [simp]: "encode f \<noteq> []"
  by (cases f) auto

text \<open>C24: Whatever frame the server or a client writes is read back as the same frame, and the bytes behind
  it stay in the buffer.\<close>

theorem frame_roundtrip:
  assumes "frame_ok fsz f" "depth f \<le> stack"
  shows "parse_frame fsz stack (encode f @ rest) = Some (Ok (Some f), rest)"
  by (simp add: parse_frame_def decode_encode [OF assms])

theorem frame_roundtrip_witness:
  "parse_frame 40 2 (encode (Array [Bulk ''GET'', Integer (- 5), Null]) @ ''+PING'') =
     Some (Ok (Some (Array [Bulk ''GET'', Integer (- 5), Null])), ''+PING'')"
  by (rule frame_roundtrip) (simp_all add: in_i64_def i64_min_def i64_max_def capacity_ok_def isize_max_def)

text \<open>C36: A frame that has arrived only in part is not read, not rejected and not lost: every proper prefix
  of its bytes leaves the buffer as it is and asks for more.\<close>

theorem frame_fragment:
  assumes "frame_ok fsz f" "depth f \<le> stack" "k < length (encode f)"
  shows "parse_frame fsz stack (take k (encode f)) = Some (Ok None, take k (encode f))"
  using decode_cut [OF assms] by (simp add: parse_frame_def)

theorem frame_fragment_witness:
  "parse_frame 40 1 (take 7 (encode (Bulk ''hello''))) = Some (Ok None, take 7 (encode (Bulk ''hello'')))"
  by (rule frame_fragment) (simp_all add: in_i64_def i64_min_def i64_max_def)

text \<open>A client that announces an array longer than a vector can be panics the server.\<close>

lemma array_header_panics:
  assumes "1 < fsz" "0 < stack"
  shows "parse_frame fsz stack (''*9223372036854775807'' @ crlf) = Some (Panic, ''*9223372036854775807'' @ crlf)"
proof -
  have s: "''9223372036854775807'' = show_int i64_max"
    by (simp add: i64_max_def show_int_def show_nat.simps chr_def char_of_def bit_Suc_0_iff)
  have i: "in_i64 i64_max" "0 \<le> i64_max" "i64_max \<noteq> - 1" by (simp_all add: in_i64_def i64_min_def i64_max_def)
  have "\<not> capacity_ok fsz (as_usize i64_max)"
  proof -
    have "nat i64_max = isize_max" "0 < isize_max" by (simp_all add: i64_max_def isize_max_def)
    then show ?thesis using assms(1) i by (simp add: as_usize_id capacity_ok_def)
  qed
  then have "decode_frame fsz stack (''*'' @ show_int i64_max @ crlf) = Some Panic"
    using assms(2) read_int_show [of i64_max "''array length''" "[]"] i by (cases stack) simp_all
  then show ?thesis by (simp add: parse_frame_def s)
qed

end
