(* ===== verification/Command.thy ===== *)
theory Command imports ZSet LogicalDb begin

text \<open>
  The commands and their argument parsers, from \<open>src/cmd/mod.rs\<close> and the parsers of the modules
  \<open>generic\<close>, \<open>string\<close>, \<open>list\<close>, \<open>hash\<close>, \<open>set\<close> and \<open>zset\<close> beside it.  \<open>uc\<close> is the upper-case mapping of
  Unicode beyond ASCII, \<open>wall\<close> the system clock.  An index past the arguments is \<open>Panic\<close>.
\<close>

record set_args =
  sa_key :: string
  sa_value :: string
  sa_expire :: "nat option"
  sa_nx :: bool
  sa_xx :: bool
  sa_get :: bool
  sa_keepttl :: bool

record getex_args =
  ga_key :: string
  ga_expire :: "nat option"
  ga_persist :: bool

record zadd_args =
  za_key :: string
  za_members :: "(f64 \<times> string) list"
  za_nx :: bool
  za_xx :: bool
  za_gt :: bool
  za_lt :: bool
  za_ch :: bool

record zrange_by_score_args =
  zr_key :: string
  zr_min :: string
  zr_max :: string
  zr_rev :: bool
  zr_withscores :: bool
  zr_offset :: nat
  zr_count :: "nat option"

text \<open>The enumeration \<open>Command\<close>, one datatype per section of it.\<close>

datatype server_cmd =
    Ping "string option" | Echo string | Select nat | Dbsize | Flushdb | Flushall | Info | Quit

datatype key_cmd =
    Del "string list" | Exists "string list" | Type string | Rename string string
  | Renamenx string string | Expire string int | PExpire string int | ExpireAt string int
  | PExpireAt string int | Ttl string | Pttl string | Persist string | Keys string | Randomkey

datatype string_cmd =
    CSet set_args | Get string | GetSet string string | GetDel string | GetEx getex_args
  | Mset "(string \<times> string) list" | Mget "string list" | Msetnx "(string \<times> string) list"
  | Setnx string string | Setex string int string | PSetex string int string | Incr string
  | IncrBy string int | IncrByFloat string f64 | Decr string | DecrBy string int
  | CAppend string string | Strlen string | GetRange string int int | SetRange string nat string

datatype list_cmd =
    LPush string "string list" | RPush string "string list" | LPushX string "string list"
  | RPushX string "string list" | LPop string nat | RPop string nat | LLen string
  | LRange string int int | LIndex string int | LSet string int string
  | LInsert string bool string string | LRem string int string | LTrim string int int
  | LMove string string bool bool

datatype hash_cmd =
    HSet string "(string \<times> string) list" | HSetnx string string string | HGet string string
  | HMGet string "string list" | HMSet string "(string \<times> string) list" | HDel string "string list"
  | HExists string string | HGetAll string | HKeys string | HVals string | HLen string
  | HIncrBy string string int | HIncrByFloat string string f64

datatype set_cmd =
    SAdd string "string list" | SRem string "string list" | SMembers string
  | SIsMember string string | SMIsMember string "string list" | SCard string
  | SUnion "string list" | SInter "string list" | SDiff "string list"
  | SUnionStore string "string list" | SInterStore string "string list"
  | SDiffStore string "string list" | SPop string nat | SRandMember string int
  | SMove string string string

datatype zset_cmd =
    ZAdd zadd_args | ZRem string "string list" | ZScore string string | ZMScore string "string list"
  | ZIncrBy string f64 string | ZRank string string | ZRevRank string string | ZCard string
  | ZCount string string string | ZRange string int int bool bool
  | ZRangeByScore zrange_by_score_args | ZRevRangeByScore zrange_by_score_args
  | ZRevRange string int int bool | ZRemRangeByRank string int int
  | ZRemRangeByScore string string string | ZPopMin string nat | ZPopMax string nat

datatype script_cmd =
    Eval string nat "string list" "string list" | EvalSha string nat "string list" "string list"
  | ScriptLoad string | ScriptFlush

datatype command =
    Server server_cmd | OnKey key_cmd | OnStr string_cmd | OnList list_cmd | OnHash hash_cmd
  | OnSet set_cmd | OnZSet zset_cmd | Scripting script_cmd

subsection \<open>Numbers and texts\<close>

definition parse_i64 :: "string \<Rightarrow> string \<Rightarrow> int res" where
  "parse_i64 b cmd =
     (case from_utf8 b of None \<Rightarrow> Err (WrongArity cmd)
      | Some s \<Rightarrow> (case parse_i64_str (trim s) of None \<Rightarrow> Err NotInteger | Some n \<Rightarrow> Ok n))"

definition parse_usize :: "string \<Rightarrow> string \<Rightarrow> nat res" where
  "parse_usize b cmd =
     bind_res (parse_i64 b cmd) (\<lambda>n.
       if n < 0 then Err (Generic ''ERR value is out of range, must be a positive integer or zero'')
       else Ok (as_usize n))"

definition parse_f64 :: "string \<Rightarrow> f64 res" where
  "parse_f64 b =
     (case from_utf8 b of None \<Rightarrow> Err NotFloat
      | Some s \<Rightarrow> (case parse_f64_str (trim s) of None \<Rightarrow> Err NotFloat | Some x \<Rightarrow> Ok x))"

abbreviation lossy :: "string \<Rightarrow> string" where "lossy \<equiv> from_utf8_lossy"

text \<open>\<open>String::from_utf8_lossy(b).to_uppercase()\<close>, the way options and names are compared.\<close>

definition upper :: "(string \<Rightarrow> string) \<Rightarrow> string \<Rightarrow> string" where
  "upper uc b = to_uppercase uc (lossy b)"

text \<open>The pairs of \<open>args.chunks(2)\<close>, a key or field and a value.\<close>

fun chunk_pairs :: "string list \<Rightarrow> (string \<times> string) list res" where
  "chunk_pairs [] = Ok []"
| "chunk_pairs [k] = Panic"
| "chunk_pairs (k # v # rest) = map_res ((#) (lossy k, v)) (chunk_pairs rest)"

text \<open>Parsers that take exactly one, two or three arguments, or at least one or two.\<close>

definition one_arg :: "string \<Rightarrow> (string \<Rightarrow> command) \<Rightarrow> string list \<Rightarrow> command res" where
  "one_arg name c args = (case args of [a] \<Rightarrow> Ok (c (lossy a)) | _ \<Rightarrow> Err (WrongArity name))"

definition two_args :: "string \<Rightarrow> (string \<Rightarrow> string \<Rightarrow> command res) \<Rightarrow> string list \<Rightarrow> command res" where
  "two_args name c args = (case args of [a, b] \<Rightarrow> c (lossy a) b | _ \<Rightarrow> Err (WrongArity name))"

definition three_args ::
    "string \<Rightarrow> (string \<Rightarrow> string \<Rightarrow> string \<Rightarrow> command res) \<Rightarrow> string list \<Rightarrow> command res" where
  "three_args name c args = (case args of [a, b, d] \<Rightarrow> c (lossy a) b d | _ \<Rightarrow> Err (WrongArity name))"

definition key_and_more ::
    "string \<Rightarrow> (string \<Rightarrow> string list \<Rightarrow> command) \<Rightarrow> string list \<Rightarrow> command res" where
  "key_and_more name c args =
     (case args of a # b # rest \<Rightarrow> Ok (c (lossy a) (map lossy (b # rest))) | _ \<Rightarrow> Err (WrongArity name))"

definition some_keys :: "string \<Rightarrow> (string list \<Rightarrow> command) \<Rightarrow> string list \<Rightarrow> command res" where
  "some_keys name c args = (if args = [] then Err (WrongArity name) else Ok (c (map lossy args)))"

subsection \<open>Connection and keys\<close>

definition parse_ping :: "string list \<Rightarrow> command res" where
  "parse_ping args =
     (case args of [] \<Rightarrow> Ok (Server (Ping None)) | [a] \<Rightarrow> Ok (Server (Ping (Some a))) | _ \<Rightarrow> Err (WrongArity ''PING''))"

definition parse_echo :: "string list \<Rightarrow> command res" where
  "parse_echo args = (case args of [a] \<Rightarrow> Ok (Server (Echo a)) | _ \<Rightarrow> Err (WrongArity ''ECHO''))"

definition parse_select :: "string list \<Rightarrow> command res" where
  "parse_select args =
     (case args of
        [a] \<Rightarrow> bind_res (parse_i64 a ''SELECT'') (\<lambda>n.
          if \<not> (0 \<le> n \<and> n < 16) then Err DbIndexOutOfRange else Ok (Server (Select (as_usize n))))
      | _ \<Rightarrow> Err (WrongArity ''SELECT''))"

definition parse_del :: "string list \<Rightarrow> command res" where "parse_del = some_keys ''DEL'' (OnKey \<circ> Del)"
definition parse_exists :: "string list \<Rightarrow> command res" where "parse_exists = some_keys ''EXISTS'' (OnKey \<circ> Exists)"
definition parse_type :: "string list \<Rightarrow> command res" where "parse_type = one_arg ''TYPE'' (OnKey \<circ> Type)"

definition parse_rename :: "bool \<Rightarrow> string list \<Rightarrow> command res" where
  "parse_rename nx =
     two_args (if nx then ''RENAMENX'' else ''RENAME'')
       (\<lambda>src dst. Ok (OnKey (if nx then Renamenx src (lossy dst) else Rename src (lossy dst))))"

text \<open>The flag \<open>_at\<close> of \<open>parse_expire\<close> is not used: \<open>EXPIREAT\<close> is parsed as \<open>EXPIRE\<close>.\<close>

definition parse_expire :: "bool \<Rightarrow> bool \<Rightarrow> string list \<Rightarrow> command res" where
  "parse_expire at_flag p_flag args =
     (case args of
        a # b # _ \<Rightarrow> map_res (\<lambda>n. OnKey (Expire (lossy a) n)) (parse_i64 b ''EXPIRE'')
      | _ \<Rightarrow> Err (WrongArity ''EXPIRE''))"

definition parse_pexpire :: "string list \<Rightarrow> command res" where
  "parse_pexpire args =
     (case args of
        a # b # _ \<Rightarrow> map_res (\<lambda>n. OnKey (PExpire (lossy a) n)) (parse_i64 b ''PEXPIRE'')
      | _ \<Rightarrow> Err (WrongArity ''PEXPIRE''))"

definition parse_pexpireat :: "string list \<Rightarrow> command res" where
  "parse_pexpireat args =
     (case args of
        a # b # _ \<Rightarrow> map_res (\<lambda>n. OnKey (PExpireAt (lossy a) n)) (parse_i64 b ''PEXPIREAT'')
      | _ \<Rightarrow> Err (WrongArity ''PEXPIREAT''))"

definition parse_ttl :: "bool \<Rightarrow> string list \<Rightarrow> command res" where
  "parse_ttl pttl = one_arg (if pttl then ''PTTL'' else ''TTL'') (\<lambda>k. OnKey (if pttl then Pttl k else Ttl k))"

definition parse_persist :: "string list \<Rightarrow> command res" where "parse_persist = one_arg ''PERSIST'' (OnKey \<circ> Persist)"
definition parse_keys :: "string list \<Rightarrow> command res" where "parse_keys = one_arg ''KEYS'' (OnKey \<circ> Keys)"

subsection \<open>Strings\<close>

text \<open>
  The option loop of \<open>parse_set\<close>.  A missing operand is an index out of range; \<open>EXAT\<close> and \<open>PXAT\<close>
  subtract the clock in \<open>i64\<close> arithmetic that wraps.
\<close>

abbreviation bad_set_expire :: redis_error where
  "bad_set_expire \<equiv> Generic (''ERR invalid expire time in '' @ [chr 39] @ ''set'' @ [chr 39] @ '' command'')"

definition secs_until :: "nat \<Rightarrow> int \<Rightarrow> nat" where
  "secs_until wall ts = from_secs (nat (max (wrap_i64 (ts - wrap_i64 (int (as_secs wall)))) 0))"

definition millis_until :: "nat \<Rightarrow> int \<Rightarrow> nat" where
  "millis_until wall ts = from_millis (nat (max (wrap_i64 (ts - wrap_i64 (int (as_millis wall)))) 0))"

fun set_options :: "(string \<Rightarrow> string) \<Rightarrow> nat \<Rightarrow> string list \<Rightarrow> set_args \<Rightarrow> set_args res" where
  "set_options uc wall [] a = Ok a"
| "set_options uc wall (b # rest) a =
     (let opt = upper uc b in
      if opt \<in> {''EX'', ''PX'', ''EXAT'', ''PXAT''} then
        (case rest of
           [] \<Rightarrow> Panic
         | v # others \<Rightarrow>
             bind_res (parse_i64 v ''SET'') (\<lambda>n.
               if opt \<in> {''EX'', ''PX''} \<and> n \<le> 0 then Err bad_set_expire
               else set_options uc wall others
                 (a\<lparr>sa_expire := Some (if opt = ''EX'' then from_secs (nat n)
                                     else if opt = ''PX'' then from_millis (nat n)
                                     else if opt = ''EXAT'' then secs_until wall n
                                     else millis_until wall n)\<rparr>)))
      else if opt = ''NX'' then set_options uc wall rest (a\<lparr>sa_nx := True\<rparr>)
      else if opt = ''XX'' then set_options uc wall rest (a\<lparr>sa_xx := True\<rparr>)
      else if opt = ''GET'' then set_options uc wall rest (a\<lparr>sa_get := True\<rparr>)
      else if opt = ''KEEPTTL'' then set_options uc wall rest (a\<lparr>sa_keepttl := True\<rparr>)
      else Err SyntaxError)"

definition parse_set :: "(string \<Rightarrow> string) \<Rightarrow> nat \<Rightarrow> string list \<Rightarrow> command res" where
  "parse_set uc wall args =
     (case args of
        k # v # opts \<Rightarrow>
          bind_res
            (set_options uc wall opts
              \<lparr>sa_key = lossy k, sa_value = v, sa_expire = None, sa_nx = False, sa_xx = False,
               sa_get = False, sa_keepttl = False\<rparr>)
            (\<lambda>a. if sa_nx a \<and> sa_xx a then Err SyntaxError else Ok (OnStr (CSet a)))
      | _ \<Rightarrow> Err (WrongArity ''SET''))"

definition parse_get :: "string list \<Rightarrow> command res" where "parse_get = one_arg ''GET'' (OnStr \<circ> Get)"

definition parse_getset :: "string list \<Rightarrow> command res" where
  "parse_getset = two_args ''GETSET'' (\<lambda>k v. Ok (OnStr (GetSet k v)))"

definition parse_getdel :: "string list \<Rightarrow> command res" where "parse_getdel = one_arg ''GETDEL'' (OnStr \<circ> GetDel)"

fun getex_options :: "(string \<Rightarrow> string) \<Rightarrow> string list \<Rightarrow> getex_args \<Rightarrow> getex_args res" where
  "getex_options uc [] a = Ok a"
| "getex_options uc (b # rest) a =
     (let opt = upper uc b in
      if opt \<in> {''EX'', ''PX''} then
        (case rest of
           [] \<Rightarrow> Panic
         | v # others \<Rightarrow>
             bind_res (parse_i64 v ''GETEX'') (\<lambda>n.
               getex_options uc others
                 (a\<lparr>ga_expire := Some (if opt = ''EX'' then from_secs (as_usize n) else from_millis (as_usize n))\<rparr>)))
      else if opt = ''PERSIST'' then getex_options uc rest (a\<lparr>ga_persist := True\<rparr>)
      else Err SyntaxError)"

definition parse_getex :: "(string \<Rightarrow> string) \<Rightarrow> string list \<Rightarrow> command res" where
  "parse_getex uc args =
     (case args of
        [] \<Rightarrow> Err (WrongArity ''GETEX'')
      | k # opts \<Rightarrow>
          map_res (OnStr \<circ> GetEx)
            (getex_options uc opts \<lparr>ga_key = lossy k, ga_expire = None, ga_persist = False\<rparr>))"

definition parse_mset :: "string list \<Rightarrow> command res" where
  "parse_mset args =
     (if length args < 2 \<or> odd (length args) then Err (WrongArity ''MSET'')
      else map_res (OnStr \<circ> Mset) (chunk_pairs args))"

definition parse_mget :: "string list \<Rightarrow> command res" where "parse_mget = some_keys ''MGET'' (OnStr \<circ> Mget)"

definition parse_msetnx :: "string list \<Rightarrow> command res" where
  "parse_msetnx args =
     (if length args < 2 \<or> odd (length args) then Err (WrongArity ''MSETNX'')
      else map_res (OnStr \<circ> Msetnx) (chunk_pairs args))"

definition parse_setnx :: "string list \<Rightarrow> command res" where
  "parse_setnx = two_args ''SETNX'' (\<lambda>k v. Ok (OnStr (Setnx k v)))"

definition parse_setex :: "string list \<Rightarrow> command res" where
  "parse_setex = three_args ''SETEX'' (\<lambda>k n v.
     bind_res (parse_i64 n ''SETEX'') (\<lambda>secs.
       if secs \<le> 0 then Err (Generic (''ERR invalid expire time in '' @ [chr 39] @ ''setex'' @ [chr 39] @ '' command''))
       else Ok (OnStr (Setex k secs v))))"

definition parse_psetex :: "string list \<Rightarrow> command res" where
  "parse_psetex = three_args ''PSETEX'' (\<lambda>k n v.
     bind_res (parse_i64 n ''PSETEX'') (\<lambda>ms.
       if ms \<le> 0 then Err (Generic (''ERR invalid expire time in '' @ [chr 39] @ ''psetex'' @ [chr 39] @ '' command''))
       else Ok (OnStr (PSetex k ms v))))"

definition parse_incr :: "string \<Rightarrow> string list \<Rightarrow> command res" where "parse_incr cmd = one_arg cmd (OnStr \<circ> Incr)"

definition parse_incrby :: "string list \<Rightarrow> command res" where
  "parse_incrby = two_args ''INCRBY'' (\<lambda>k n. map_res (OnStr \<circ> IncrBy k) (parse_i64 n ''INCRBY''))"

definition parse_incrbyfloat :: "string list \<Rightarrow> command res" where
  "parse_incrbyfloat = two_args ''INCRBYFLOAT'' (\<lambda>k x. map_res (OnStr \<circ> IncrByFloat k) (parse_f64 x))"

definition parse_decr :: "string list \<Rightarrow> command res" where "parse_decr = one_arg ''DECR'' (OnStr \<circ> Decr)"

definition parse_decrby :: "string list \<Rightarrow> command res" where
  "parse_decrby = two_args ''DECRBY'' (\<lambda>k n. map_res (OnStr \<circ> DecrBy k) (parse_i64 n ''DECRBY''))"

definition parse_append :: "string list \<Rightarrow> command res" where
  "parse_append = two_args ''APPEND'' (\<lambda>k v. Ok (OnStr (CAppend k v)))"

definition parse_strlen :: "string list \<Rightarrow> command res" where "parse_strlen = one_arg ''STRLEN'' (OnStr \<circ> Strlen)"

text \<open>Two integers after a key.\<close>

definition two_ints :: "string \<Rightarrow> (string \<Rightarrow> int \<Rightarrow> int \<Rightarrow> command) \<Rightarrow> string \<Rightarrow> string \<Rightarrow> string \<Rightarrow> command res" where
  "two_ints name c k a b =
     bind_res (parse_i64 a name) (\<lambda>m. map_res (c k m) (parse_i64 b name))"

definition parse_getrange :: "string list \<Rightarrow> command res" where
  "parse_getrange = three_args ''GETRANGE'' (two_ints ''GETRANGE'' (\<lambda>k m n. OnStr (GetRange k m n)))"

definition parse_setrange :: "string list \<Rightarrow> command res" where
  "parse_setrange = three_args ''SETRANGE'' (\<lambda>k n v.
     map_res (\<lambda>off. OnStr (SetRange k off v)) (parse_usize n ''SETRANGE''))"

subsection \<open>Lists\<close>

definition parse_push :: "bool \<Rightarrow> bool \<Rightarrow> string list \<Rightarrow> command res" where
  "parse_push left x args =
     (case args of
        k # v # rest \<Rightarrow>
          Ok (OnList ((if left then if x then LPushX else LPush else if x then RPushX else RPush)
                        (lossy k) (v # rest)))
      | _ \<Rightarrow> Err (WrongArity (if left then if x then ''LPUSHX'' else ''LPUSH''
                              else if x then ''RPUSHX'' else ''RPUSH'')))"

text \<open>A key and an optional count, 1 by default; later arguments are not looked at.\<close>

definition key_and_count ::
    "string \<Rightarrow> (string \<Rightarrow> 'n res) \<Rightarrow> 'n \<Rightarrow> (string \<Rightarrow> 'n \<Rightarrow> command) \<Rightarrow> string list \<Rightarrow> command res" where
  "key_and_count name num dflt c args =
     (case args of
        [] \<Rightarrow> Err (WrongArity name)
      | [k] \<Rightarrow> Ok (c (lossy k) dflt)
      | k # n # _ \<Rightarrow> map_res (c (lossy k)) (num n))"

definition parse_pop :: "bool \<Rightarrow> string list \<Rightarrow> command res" where
  "parse_pop left =
     key_and_count (if left then ''LPOP'' else ''RPOP'')
       (\<lambda>n. parse_usize n (if left then ''LPOP'' else ''RPOP'')) 1
       (\<lambda>k n. OnList (if left then LPop k n else RPop k n))"

definition parse_llen :: "string list \<Rightarrow> command res" where "parse_llen = one_arg ''LLEN'' (OnList \<circ> LLen)"

definition parse_lrange :: "string list \<Rightarrow> command res" where
  "parse_lrange = three_args ''LRANGE'' (two_ints ''LRANGE'' (\<lambda>k m n. OnList (LRange k m n)))"

definition parse_lindex :: "string list \<Rightarrow> command res" where
  "parse_lindex = two_args ''LINDEX'' (\<lambda>k n. map_res (OnList \<circ> LIndex k) (parse_i64 n ''LINDEX''))"

definition parse_lset :: "string list \<Rightarrow> command res" where
  "parse_lset = three_args ''LSET'' (\<lambda>k n v. map_res (\<lambda>i. OnList (LSet k i v)) (parse_i64 n ''LSET''))"

definition parse_linsert :: "(string \<Rightarrow> string) \<Rightarrow> string list \<Rightarrow> command res" where
  "parse_linsert uc args =
     (case args of
        [k, w, pivot, v] \<Rightarrow>
          (if upper uc w = ''BEFORE'' then Ok (OnList (LInsert (lossy k) True pivot v))
           else if upper uc w = ''AFTER'' then Ok (OnList (LInsert (lossy k) False pivot v))
           else Err SyntaxError)
      | _ \<Rightarrow> Err (WrongArity ''LINSERT''))"

definition parse_lrem :: "string list \<Rightarrow> command res" where
  "parse_lrem = three_args ''LREM'' (\<lambda>k n v. map_res (\<lambda>i. OnList (LRem k i v)) (parse_i64 n ''LREM''))"

definition parse_ltrim :: "string list \<Rightarrow> command res" where
  "parse_ltrim = three_args ''LTRIM'' (two_ints ''LTRIM'' (\<lambda>k m n. OnList (LTrim k m n)))"

text \<open>\<open>"LEFT"\<close> or \<open>"RIGHT"\<close>.\<close>

definition left_right :: "string \<Rightarrow> bool res" where
  "left_right w = (if w = ''LEFT'' then Ok True else if w = ''RIGHT'' then Ok False else Err SyntaxError)"

definition parse_lmove :: "(string \<Rightarrow> string) \<Rightarrow> string list \<Rightarrow> command res" where
  "parse_lmove uc args =
     (case args of
        [src, dst, sd, dd] \<Rightarrow>
          bind_res (left_right (upper uc sd)) (\<lambda>src_left.
            map_res (\<lambda>dst_left. OnList (LMove (lossy src) (lossy dst) src_left dst_left))
              (left_right (upper uc dd)))
      | _ \<Rightarrow> Err (WrongArity ''LMOVE''))"

subsection \<open>Hashes\<close>

text \<open>A key followed by pairs, an odd number of arguments of at least three.\<close>

definition key_and_pairs ::
    "string \<Rightarrow> (string \<Rightarrow> (string \<times> string) list \<Rightarrow> command) \<Rightarrow> string list \<Rightarrow> command res" where
  "key_and_pairs name c args =
     (if length args < 3 \<or> even (length args) then Err (WrongArity name)
      else map_res (c (lossy (hd args))) (chunk_pairs (tl args)))"

definition parse_hset :: "string list \<Rightarrow> command res" where
  "parse_hset = key_and_pairs ''HSET'' (\<lambda>k ps. OnHash (HSet k ps))"

definition parse_hsetnx :: "string list \<Rightarrow> command res" where
  "parse_hsetnx = three_args ''HSETNX'' (\<lambda>k f v. Ok (OnHash (HSetnx k (lossy f) v)))"

definition parse_hget :: "string list \<Rightarrow> command res" where
  "parse_hget = two_args ''HGET'' (\<lambda>k f. Ok (OnHash (HGet k (lossy f))))"

definition parse_hmget :: "string list \<Rightarrow> command res" where
  "parse_hmget = key_and_more ''HMGET'' (\<lambda>k fs. OnHash (HMGet k fs))"

definition parse_hmset :: "string list \<Rightarrow> command res" where
  "parse_hmset = key_and_pairs ''HMSET'' (\<lambda>k ps. OnHash (HMSet k ps))"

definition parse_hdel :: "string list \<Rightarrow> command res" where
  "parse_hdel = key_and_more ''HDEL'' (\<lambda>k fs. OnHash (HDel k fs))"

definition parse_hexists :: "string list \<Rightarrow> command res" where
  "parse_hexists = two_args ''HEXISTS'' (\<lambda>k f. Ok (OnHash (HExists k (lossy f))))"

definition parse_hgetall :: "string list \<Rightarrow> command res" where "parse_hgetall = one_arg ''HGETALL'' (OnHash \<circ> HGetAll)"
definition parse_hkeys :: "string list \<Rightarrow> command res" where "parse_hkeys = one_arg ''HKEYS'' (OnHash \<circ> HKeys)"
definition parse_hvals :: "string list \<Rightarrow> command res" where "parse_hvals = one_arg ''HVALS'' (OnHash \<circ> HVals)"
definition parse_hlen :: "string list \<Rightarrow> command res" where "parse_hlen = one_arg ''HLEN'' (OnHash \<circ> HLen)"

definition parse_hincrby :: "string list \<Rightarrow> command res" where
  "parse_hincrby = three_args ''HINCRBY'' (\<lambda>k f n.
     map_res (OnHash \<circ> HIncrBy k (lossy f)) (parse_i64 n ''HINCRBY''))"

definition parse_hincrbyfloat :: "string list \<Rightarrow> command res" where
  "parse_hincrbyfloat = three_args ''HINCRBYFLOAT'' (\<lambda>k f x.
     map_res (OnHash \<circ> HIncrByFloat k (lossy f)) (parse_f64 x))"

subsection \<open>Sets\<close>

definition parse_sadd :: "string list \<Rightarrow> command res" where
  "parse_sadd = key_and_more ''SADD'' (\<lambda>k ms. OnSet (SAdd k ms))"
definition parse_srem :: "string list \<Rightarrow> command res" where
  "parse_srem = key_and_more ''SREM'' (\<lambda>k ms. OnSet (SRem k ms))"
definition parse_smembers :: "string list \<Rightarrow> command res" where "parse_smembers = one_arg ''SMEMBERS'' (OnSet \<circ> SMembers)"
definition parse_sismember :: "string list \<Rightarrow> command res" where
  "parse_sismember = two_args ''SISMEMBER'' (\<lambda>k x. Ok (OnSet (SIsMember k (lossy x))))"
definition parse_smismember :: "string list \<Rightarrow> command res" where
  "parse_smismember = key_and_more ''SMISMEMBER'' (\<lambda>k ms. OnSet (SMIsMember k ms))"
definition parse_scard :: "string list \<Rightarrow> command res" where "parse_scard = one_arg ''SCARD'' (OnSet \<circ> SCard)"
definition parse_sunion :: "string list \<Rightarrow> command res" where "parse_sunion = some_keys ''SUNION'' (OnSet \<circ> SUnion)"
definition parse_sinter :: "string list \<Rightarrow> command res" where "parse_sinter = some_keys ''SINTER'' (OnSet \<circ> SInter)"
definition parse_sdiff :: "string list \<Rightarrow> command res" where "parse_sdiff = some_keys ''SDIFF'' (OnSet \<circ> SDiff)"

definition parse_store :: "string \<Rightarrow> string list \<Rightarrow> command res" where
  "parse_store cmd args =
     (case args of
        d # k # ks \<Rightarrow>
          (let dst = lossy d; keys = map lossy (k # ks) in
           if cmd = ''SUNIONSTORE'' then Ok (OnSet (SUnionStore dst keys))
           else if cmd = ''SINTERSTORE'' then Ok (OnSet (SInterStore dst keys))
           else if cmd = ''SDIFFSTORE'' then Ok (OnSet (SDiffStore dst keys))
           else Panic)
      | _ \<Rightarrow> Err (WrongArity cmd))"

definition parse_spop :: "string list \<Rightarrow> command res" where
  "parse_spop = key_and_count ''SPOP'' (\<lambda>n. parse_usize n ''SPOP'') 1 (\<lambda>k n. OnSet (SPop k n))"

definition parse_srandmember :: "string list \<Rightarrow> command res" where
  "parse_srandmember =
     key_and_count ''SRANDMEMBER'' (\<lambda>n. parse_i64 n ''SRANDMEMBER'') 1 (\<lambda>k n. OnSet (SRandMember k n))"

definition parse_smove :: "string list \<Rightarrow> command res" where
  "parse_smove = three_args ''SMOVE'' (\<lambda>s d x. Ok (OnSet (SMove s (lossy d) (lossy x))))"

subsection \<open>Sorted sets\<close>

text \<open>The leading flags of \<open>ZADD\<close>, and the arguments after them.\<close>

fun zadd_flags :: "(string \<Rightarrow> string) \<Rightarrow> string list \<Rightarrow> zadd_args \<Rightarrow> zadd_args \<times> string list" where
  "zadd_flags uc [] a = (a, [])"
| "zadd_flags uc (b # rest) a =
     (let opt = upper uc b in
      if opt = ''NX'' then zadd_flags uc rest (a\<lparr>za_nx := True\<rparr>)
      else if opt = ''XX'' then zadd_flags uc rest (a\<lparr>za_xx := True\<rparr>)
      else if opt = ''GT'' then zadd_flags uc rest (a\<lparr>za_gt := True\<rparr>)
      else if opt = ''LT'' then zadd_flags uc rest (a\<lparr>za_lt := True\<rparr>)
      else if opt = ''CH'' then zadd_flags uc rest (a\<lparr>za_ch := True\<rparr>)
      else (a, b # rest))"

fun score_pairs :: "string list \<Rightarrow> (f64 \<times> string) list res" where
  "score_pairs (s # x # rest) =
     bind_res (parse_f64 s) (\<lambda>v. map_res ((#) (v, lossy x)) (score_pairs rest))"
| "score_pairs _ = Ok []"

definition parse_zadd :: "(string \<Rightarrow> string) \<Rightarrow> string list \<Rightarrow> command res" where
  "parse_zadd uc args =
     (if length args < 3 then Err (WrongArity ''ZADD'')
      else
        let (a, rest) = zadd_flags uc (tl args)
              \<lparr>za_key = lossy (hd args), za_members = [], za_nx = False, za_xx = False, za_gt = False,
               za_lt = False, za_ch = False\<rparr> in
        if length rest < 2 \<or> odd (length rest) then Err (WrongArity ''ZADD'')
        else bind_res (score_pairs rest) (\<lambda>ms.
               if za_nx a \<and> za_xx a \<or> za_gt a \<and> za_lt a then Err SyntaxError
               else Ok (OnZSet (ZAdd (a\<lparr>za_members := ms\<rparr>)))))"

definition parse_zrem :: "string list \<Rightarrow> command res" where
  "parse_zrem = key_and_more ''ZREM'' (\<lambda>k ms. OnZSet (ZRem k ms))"
definition parse_zscore :: "string list \<Rightarrow> command res" where
  "parse_zscore = two_args ''ZSCORE'' (\<lambda>k x. Ok (OnZSet (ZScore k (lossy x))))"
definition parse_zmscore :: "string list \<Rightarrow> command res" where
  "parse_zmscore = key_and_more ''ZMSCORE'' (\<lambda>k ms. OnZSet (ZMScore k ms))"

definition parse_zincrby :: "string list \<Rightarrow> command res" where
  "parse_zincrby = three_args ''ZINCRBY'' (\<lambda>k v x.
     map_res (\<lambda>delta. OnZSet (ZIncrBy k delta (lossy x))) (parse_f64 v))"

definition parse_zrank :: "string list \<Rightarrow> command res" where
  "parse_zrank args =
     (case args of k # x # _ \<Rightarrow> Ok (OnZSet (ZRank (lossy k) (lossy x))) | _ \<Rightarrow> Err (WrongArity ''ZRANK''))"

definition parse_zrevrank :: "string list \<Rightarrow> command res" where
  "parse_zrevrank args =
     (case args of k # x # _ \<Rightarrow> Ok (OnZSet (ZRevRank (lossy k) (lossy x))) | _ \<Rightarrow> Err (WrongArity ''ZREVRANK''))"

definition parse_zcard :: "string list \<Rightarrow> command res" where "parse_zcard = one_arg ''ZCARD'' (OnZSet \<circ> ZCard)"

definition parse_zcount :: "string list \<Rightarrow> command res" where
  "parse_zcount = three_args ''ZCOUNT'' (\<lambda>k lo hi. Ok (OnZSet (ZCount k (lossy lo) (lossy hi))))"

text \<open>A key, two integers and options.\<close>

definition range_and_options ::
    "string \<Rightarrow> (string \<Rightarrow> int \<Rightarrow> int \<Rightarrow> string list \<Rightarrow> command) \<Rightarrow> string list \<Rightarrow> command res" where
  "range_and_options name c args =
     (case args of
        k # a # b # opts \<Rightarrow> two_ints name (\<lambda>k m n. c k m n opts) (lossy k) a b
      | _ \<Rightarrow> Err (WrongArity name))"

definition parse_zrange :: "(string \<Rightarrow> string) \<Rightarrow> string list \<Rightarrow> command res" where
  "parse_zrange uc = range_and_options ''ZRANGE'' (\<lambda>k m n opts.
     OnZSet (ZRange k m n (list_ex (\<lambda>b. upper uc b = ''REV'') opts)
                          (list_ex (\<lambda>b. upper uc b = ''WITHSCORES'') opts)))"

fun range_options :: "(string \<Rightarrow> string) \<Rightarrow> string list \<Rightarrow> zrange_by_score_args \<Rightarrow> zrange_by_score_args res" where
  "range_options uc [] a = Ok a"
| "range_options uc (b # rest) a =
     (let opt = upper uc b in
      if opt = ''WITHSCORES'' then range_options uc rest (a\<lparr>zr_withscores := True\<rparr>)
      else if opt = ''LIMIT'' then
        (case rest of
           [] \<Rightarrow> Panic
         | off # rest' \<Rightarrow>
             bind_res (parse_usize off ''ZRANGEBYSCORE'') (\<lambda>n.
               case rest' of
                 [] \<Rightarrow> Panic
               | c # others \<Rightarrow>
                   bind_res (parse_i64 c ''ZRANGEBYSCORE'') (\<lambda>m.
                     range_options uc others
                       (a\<lparr>zr_offset := n, zr_count := (if m < 0 then None else Some (nat m))\<rparr>))))
      else Err SyntaxError)"

definition parse_zrangebyscore :: "(string \<Rightarrow> string) \<Rightarrow> bool \<Rightarrow> string list \<Rightarrow> command res" where
  "parse_zrangebyscore uc rev_flag args =
     (case args of
        k # a # b # opts \<Rightarrow>
          map_res (\<lambda>z. OnZSet (if rev_flag then ZRevRangeByScore z else ZRangeByScore z))
            (range_options uc opts
              \<lparr>zr_key = lossy k, zr_min = lossy (if rev_flag then b else a),
               zr_max = lossy (if rev_flag then a else b), zr_rev = rev_flag, zr_withscores = False,
               zr_offset = 0, zr_count = None\<rparr>)
      | _ \<Rightarrow> Err (WrongArity (if rev_flag then ''ZREVRANGEBYSCORE'' else ''ZRANGEBYSCORE'')))"

definition parse_zrevrange :: "(string \<Rightarrow> string) \<Rightarrow> string list \<Rightarrow> command res" where
  "parse_zrevrange uc = range_and_options ''ZREVRANGE'' (\<lambda>k m n opts.
     OnZSet (ZRevRange k m n (list_ex (\<lambda>b. upper uc b = ''WITHSCORES'') opts)))"

definition parse_zremrangebyrank :: "string list \<Rightarrow> command res" where
  "parse_zremrangebyrank =
     three_args ''ZREMRANGEBYRANK'' (two_ints ''ZREMRANGEBYRANK'' (\<lambda>k m n. OnZSet (ZRemRangeByRank k m n)))"

definition parse_zremrangebyscore :: "string list \<Rightarrow> command res" where
  "parse_zremrangebyscore = three_args ''ZREMRANGEBYSCORE'' (\<lambda>k lo hi.
     Ok (OnZSet (ZRemRangeByScore k (lossy lo) (lossy hi))))"

definition parse_zpop :: "bool \<Rightarrow> string list \<Rightarrow> command res" where
  "parse_zpop least =
     key_and_count (if least then ''ZPOPMIN'' else ''ZPOPMAX'') (\<lambda>n. parse_usize n ''ZPOP'') 1
       (\<lambda>k n. OnZSet (if least then ZPopMin k n else ZPopMax k n))"

subsection \<open>Scripts\<close>

definition parse_eval :: "bool \<Rightarrow> string list \<Rightarrow> command res" where
  "parse_eval is_sha args =
     (case args of
        s # n # rest \<Rightarrow>
          bind_res (parse_usize n ''EVAL'') (\<lambda>numkeys.
            if length rest < numkeys then Err (Generic ''ERR not enough arguments for EVAL'')
            else Ok (Scripting ((if is_sha then EvalSha else Eval) s numkeys (take numkeys rest) (drop numkeys rest))))
      | _ \<Rightarrow> Err (WrongArity (if is_sha then ''EVALSHA'' else ''EVAL'')))"

definition parse_script :: "(string \<Rightarrow> string) \<Rightarrow> string list \<Rightarrow> command res" where
  "parse_script uc args =
     (case args of
        [] \<Rightarrow> Err (WrongArity ''SCRIPT'')
      | a # rest \<Rightarrow>
          (let sub = upper uc a in
           if sub = ''LOAD'' then
             (case rest of [] \<Rightarrow> Err (WrongArity ''SCRIPT LOAD'') | s # _ \<Rightarrow> Ok (Scripting (ScriptLoad s)))
           else if sub = ''FLUSH'' then Ok (Scripting ScriptFlush)
           else Err (Generic (''ERR unknown SCRIPT subcommand: '' @ sub))))"

subsection \<open>The dispatch by name\<close>

definition server_parsers :: "(string \<times> (string list \<Rightarrow> command res)) list" where
  "server_parsers =
     [(''PING'', parse_ping), (''ECHO'', parse_echo), (''SELECT'', parse_select),
      (''DBSIZE'', \<lambda>_. Ok (Server Dbsize)), (''FLUSHDB'', \<lambda>_. Ok (Server Flushdb)),
      (''FLUSHALL'', \<lambda>_. Ok (Server Flushall)), (''INFO'', \<lambda>_. Ok (Server Info)), (''QUIT'', \<lambda>_. Ok (Server Quit))]"

definition key_parsers :: "(string \<times> (string list \<Rightarrow> command res)) list" where
  "key_parsers =
     [(''DEL'', parse_del), (''UNLINK'', parse_del), (''EXISTS'', parse_exists), (''TYPE'', parse_type),
      (''RENAME'', parse_rename False), (''RENAMENX'', parse_rename True),
      (''EXPIRE'', parse_expire False False), (''PEXPIRE'', parse_pexpire),
      (''EXPIREAT'', parse_expire True False), (''PEXPIREAT'', parse_pexpireat),
      (''TTL'', parse_ttl False), (''PTTL'', parse_ttl True), (''PERSIST'', parse_persist),
      (''KEYS'', parse_keys), (''RANDOMKEY'', \<lambda>_. Ok (OnKey Randomkey))]"

definition string_parsers :: "(string \<Rightarrow> string) \<Rightarrow> nat \<Rightarrow> (string \<times> (string list \<Rightarrow> command res)) list" where
  "string_parsers uc wall =
     [(''SET'', parse_set uc wall), (''GET'', parse_get), (''GETSET'', parse_getset),
      (''GETDEL'', parse_getdel), (''GETEX'', parse_getex uc), (''MSET'', parse_mset),
      (''MGET'', parse_mget), (''MSETNX'', parse_msetnx), (''SETNX'', parse_setnx),
      (''SETEX'', parse_setex), (''PSETEX'', parse_psetex), (''INCR'', parse_incr ''INCR''),
      (''INCRBY'', parse_incrby), (''INCRBYFLOAT'', parse_incrbyfloat), (''DECR'', parse_decr),
      (''DECRBY'', parse_decrby), (''APPEND'', parse_append), (''STRLEN'', parse_strlen),
      (''GETRANGE'', parse_getrange), (''SUBSTR'', parse_getrange), (''SETRANGE'', parse_setrange)]"

definition list_parsers :: "(string \<Rightarrow> string) \<Rightarrow> (string \<times> (string list \<Rightarrow> command res)) list" where
  "list_parsers uc =
     [(''LPUSH'', parse_push True False), (''RPUSH'', parse_push False False),
      (''LPUSHX'', parse_push True True), (''RPUSHX'', parse_push False True),
      (''LPOP'', parse_pop True), (''RPOP'', parse_pop False), (''LLEN'', parse_llen),
      (''LRANGE'', parse_lrange), (''LINDEX'', parse_lindex), (''LSET'', parse_lset),
      (''LINSERT'', parse_linsert uc), (''LREM'', parse_lrem), (''LTRIM'', parse_ltrim),
      (''LMOVE'', parse_lmove uc)]"

definition hash_parsers :: "(string \<times> (string list \<Rightarrow> command res)) list" where
  "hash_parsers =
     [(''HSET'', parse_hset), (''HSETNX'', parse_hsetnx), (''HGET'', parse_hget),
      (''HMGET'', parse_hmget), (''HMSET'', parse_hmset), (''HDEL'', parse_hdel),
      (''HEXISTS'', parse_hexists), (''HGETALL'', parse_hgetall), (''HKEYS'', parse_hkeys),
      (''HVALS'', parse_hvals), (''HLEN'', parse_hlen), (''HINCRBY'', parse_hincrby),
      (''HINCRBYFLOAT'', parse_hincrbyfloat)]"

definition set_parsers :: "(string \<times> (string list \<Rightarrow> command res)) list" where
  "set_parsers =
     [(''SADD'', parse_sadd), (''SREM'', parse_srem), (''SMEMBERS'', parse_smembers),
      (''SISMEMBER'', parse_sismember), (''SMISMEMBER'', parse_smismember), (''SCARD'', parse_scard),
      (''SUNION'', parse_sunion), (''SINTER'', parse_sinter), (''SDIFF'', parse_sdiff),
      (''SUNIONSTORE'', parse_store ''SUNIONSTORE''), (''SINTERSTORE'', parse_store ''SINTERSTORE''),
      (''SDIFFSTORE'', parse_store ''SDIFFSTORE''), (''SPOP'', parse_spop),
      (''SRANDMEMBER'', parse_srandmember), (''SMOVE'', parse_smove)]"

definition zset_parsers :: "(string \<Rightarrow> string) \<Rightarrow> (string \<times> (string list \<Rightarrow> command res)) list" where
  "zset_parsers uc =
     [(''ZADD'', parse_zadd uc), (''ZREM'', parse_zrem), (''ZSCORE'', parse_zscore),
      (''ZMSCORE'', parse_zmscore), (''ZINCRBY'', parse_zincrby), (''ZRANK'', parse_zrank),
      (''ZREVRANK'', parse_zrevrank), (''ZCARD'', parse_zcard), (''ZCOUNT'', parse_zcount),
      (''ZRANGE'', parse_zrange uc), (''ZRANGEBYSCORE'', parse_zrangebyscore uc False),
      (''ZREVRANGEBYSCORE'', parse_zrangebyscore uc True), (''ZREVRANGE'', parse_zrevrange uc),
      (''ZREMRANGEBYRANK'', parse_zremrangebyrank), (''ZREMRANGEBYSCORE'', parse_zremrangebyscore),
      (''ZPOPMIN'', parse_zpop True), (''ZPOPMAX'', parse_zpop False)]"

definition script_parsers :: "(string \<Rightarrow> string) \<Rightarrow> (string \<times> (string list \<Rightarrow> command res)) list" where
  "script_parsers uc =
     [(''EVAL'', parse_eval False), (''EVALSHA'', parse_eval True), (''SCRIPT'', parse_script uc)]"

definition parsers :: "(string \<Rightarrow> string) \<Rightarrow> nat \<Rightarrow> (string \<times> (string list \<Rightarrow> command res)) list" where
  "parsers uc wall =
     server_parsers @ key_parsers @ string_parsers uc wall @ list_parsers uc @ hash_parsers @ set_parsers @
     zset_parsers uc @ script_parsers uc"

text \<open>\<open>[..].join(", ")\<close>\<close>

fun join :: "string \<Rightarrow> string list \<Rightarrow> string" where
  "join sep [] = []"
| "join sep [a] = a"
| "join sep (a # b # rest) = a @ sep @ join sep (b # rest)"

definition unknown_command :: "string \<Rightarrow> string list \<Rightarrow> redis_error" where
  "unknown_command name rest =
     Generic (''ERR unknown command `'' @ name @ ''`, with args beginning with: '' @
       join '', '' (map (\<lambda>b. ''`'' @ lossy b @ ''`'') (take 3 rest)))"

definition parse :: "(string \<Rightarrow> string) \<Rightarrow> nat \<Rightarrow> string list \<Rightarrow> command res" where
  "parse uc wall args =
     (case args of
        [] \<Rightarrow> Err (Protocol ''empty command'')
      | a # rest \<Rightarrow>
          (let cmd_name = upper uc a in
           case map_of (parsers uc wall) cmd_name of
             Some p \<Rightarrow> p rest
           | None \<Rightarrow> Err (unknown_command cmd_name rest)))"

end
