(* ===== verification/Exec.thy ===== *)
theory Exec imports Keyspace DbString DbList DbHash DbSet DbZSet Proto Command begin

text \<open>
  The execution of commands: \<open>execute\<close> of \<open>src/cmd/mod.rs\<close> and the \<open>execute\<close> functions of the
  modules it hands on to, except for the scripting commands (theory \<open>Script\<close>).  A \<open>world\<close> is what one
  command sees of its surroundings: the clocks, read once per command, the random choices, and the
  name of the operating system.  The reply is \<^theory_text>\<open>None\<close> when the command panics.
\<close>

record world =
  w_now :: nat
  w_wall :: nat
  w_coins :: "nat \<Rightarrow> bool list"
  w_sample :: "nat \<Rightarrow> string list \<Rightarrow> string list option"
  w_draw :: "nat \<Rightarrow> nat \<Rightarrow> nat"
  w_pick :: "string list \<Rightarrow> string"
  w_os :: string

subsection \<open>Replies\<close>

fun reply :: "('a \<Rightarrow> frame) \<Rightarrow> 'a res \<Rightarrow> frame option" where
  "reply f (Ok x) = Some (f x)"
| "reply f (Err e) = Some (frame_from_error e)"
| "reply f Panic = None"

text \<open>\<open>n as i64\<close> of a \<open>usize\<close>.\<close>

definition as_i64 :: "nat \<Rightarrow> int" where "as_i64 n = wrap_i64 (int n)"

definition bool_int :: "bool \<Rightarrow> frame" where "bool_int b = Integer (if b then 1 else 0)"

definition opt_bulk :: "string option \<Rightarrow> frame" where
  "opt_bulk v = (case v of Some b \<Rightarrow> Bulk b | None \<Rightarrow> Null)"

definition int_result :: "int res \<Rightarrow> frame option" where "int_result = reply Integer"
definition ok_result :: "unit res \<Rightarrow> frame option" where "ok_result = reply (\<lambda>_. frame_ok_reply)"
definition bool_int_result :: "bool res \<Rightarrow> frame option" where "bool_int_result = reply bool_int"
definition null_or_bulk :: "string option res \<Rightarrow> frame option" where "null_or_bulk = reply opt_bulk"
definition bulk_array :: "string list res \<Rightarrow> frame option" where "bulk_array = reply (\<lambda>xs. Array (map Bulk xs))"
definition len_result :: "nat res \<Rightarrow> frame option" where "len_result r = int_result (map_res as_i64 r)"
definition opt_bulk_array :: "string option list res \<Rightarrow> frame option" where
  "opt_bulk_array = reply (\<lambda>vs. Array (map opt_bulk vs))"
definition float_bulk :: "f64 \<Rightarrow> frame" where "float_bulk x = Bulk (format_float x)"
definition opt_int :: "nat option \<Rightarrow> frame" where
  "opt_int r = (case r of Some n \<Rightarrow> Integer (as_i64 n) | None \<Rightarrow> Null)"

text \<open>One bulk alone when a single element was asked for, \<open>Null\<close> when there is none, else an array.\<close>

definition exec_pop_result :: "string list res \<Rightarrow> bool \<Rightarrow> frame option" where
  "exec_pop_result r single =
     reply (\<lambda>xs. if xs = [] then Null else if single then Bulk (hd xs) else Array (map Bulk xs)) r"

definition one_or_array :: "string list res \<Rightarrow> bool \<Rightarrow> frame option" where
  "one_or_array r single =
     reply (\<lambda>xs. if single then (case xs of x # _ \<Rightarrow> Bulk x | [] \<Rightarrow> Null) else Array (map Bulk xs)) r"

fun member_score_frames :: "(string \<times> f64 option) list \<Rightarrow> frame list" where
  "member_score_frames [] = []"
| "member_score_frames ((m, s) # items) =
     Bulk m # (case s of Some x \<Rightarrow> [float_bulk x] | None \<Rightarrow> []) @ member_score_frames items"

definition build_member_score_array :: "(string \<times> f64 option) list \<Rightarrow> frame" where
  "build_member_score_array items = Array (member_score_frames items)"

definition popped_pairs :: "(string \<times> f64) list \<Rightarrow> frame" where
  "popped_pairs items = Array (concat (map (\<lambda>(m, s). [Bulk m, float_bulk s]) items))"

text \<open>A method that only reads, and one that returns the database it leaves.\<close>

definition reads :: "('a res \<Rightarrow> frame option) \<Rightarrow> 'a res \<Rightarrow> database \<Rightarrow> frame option \<times> database" where
  "reads f r d = (f r, d)"

definition runs :: "('a res \<Rightarrow> frame option) \<Rightarrow> 'a res \<times> database \<Rightarrow> frame option \<times> database" where
  "runs f p = (f (fst p), snd p)"

subsection \<open>Connection and keys\<close>

definition info_string :: "string \<Rightarrow> string" where
  "info_string os =
     ''# Server'' @ crlf @ ''redis_version:7.0.0-mini-rudis'' @ crlf @ ''redis_mode:standalone'' @ crlf @
     ''os:'' @ os @ crlf @ ''arch_bits:64'' @ crlf @ ''executable:mini-rudis'' @ crlf @
     ''# Keyspace'' @ crlf"

text \<open>The server commands also return the logical database the connection has selected.\<close>

fun exec_server :: "world \<Rightarrow> server_cmd \<Rightarrow> nat \<Rightarrow> database \<Rightarrow> (frame option \<times> database) \<times> nat" where
  "exec_server w (Ping msg) i d = ((Some (case msg of None \<Rightarrow> frame_pong | Some m \<Rightarrow> Bulk m), d), i)"
| "exec_server w (Echo msg) i d = ((Some (Bulk msg), d), i)"
| "exec_server w (Select j) i d =
     (if j \<ge> 16 then ((Some (frame_from_error DbIndexOutOfRange), d), i) else ((Some frame_ok_reply, d), j))"
| "exec_server w Dbsize i d = (reads len_result (dbsize (w_now w) i d) d, i)"
| "exec_server w Flushdb i d = (runs ok_result (flushdb i d), i)"
| "exec_server w Flushall i d = ((Some frame_ok_reply, flushall d), i)"
| "exec_server w Info i d = ((Some (Bulk (info_string (w_os w))), d), i)"
| "exec_server w Quit i d = ((Some frame_ok_reply, d), i)"

fun exec_key :: "world \<Rightarrow> key_cmd \<Rightarrow> nat \<Rightarrow> database \<Rightarrow> frame option \<times> database" where
  "exec_key w (Del ks) i d = runs int_result (del i d ks)"
| "exec_key w (Exists ks) i d = reads int_result (exists_keys (w_now w) i d ks) d"
| "exec_key w (Type k) i d = reads (reply Simple) (type_of (w_now w) i d k) d"
| "exec_key w (Rename src dst) i d = runs ok_result (rename i d src dst)"
| "exec_key w (Renamenx src dst) i d = runs bool_int_result (renamenx (w_now w) i d src dst)"
| "exec_key w (Expire k secs) i d = runs bool_int_result (expire (w_now w) i d k secs)"
| "exec_key w (PExpire k ms) i d = runs bool_int_result (pexpire (w_now w) i d k ms)"
| "exec_key w (ExpireAt k ts) i d = runs bool_int_result (expireat (w_now w) (w_wall w) i d k ts)"
| "exec_key w (PExpireAt k ts) i d = runs bool_int_result (pexpireat (w_now w) (w_wall w) i d k ts)"
| "exec_key w (Ttl k) i d = reads int_result (ttl (w_now w) i d k) d"
| "exec_key w (Pttl k) i d = reads int_result (pttl (w_now w) i d k) d"
| "exec_key w (Persist k) i d = runs bool_int_result (persist i d k)"
| "exec_key w (Keys pat) i d = reads bulk_array (keys (w_now w) i d pat) d"
| "exec_key w Randomkey i d = reads null_or_bulk (randomkey (w_pick w) (w_now w) i d) d"

subsection \<open>Strings\<close>

text \<open>
  \<open>SET\<close>.  The old value is read first when \<open>GET\<close> asks for it; \<open>NX\<close> sets the deadline after the
  insertion, in whole seconds and ignoring its answer; \<open>KEEPTTL\<close> is not looked at.
\<close>

definition set_new :: "world \<Rightarrow> set_args \<Rightarrow> nat \<Rightarrow> database \<Rightarrow> bool res \<times> database" where
  "set_new w a i d =
     (case str_setnx (w_now w) i d (sa_key a) (sa_value a) of
        (Ok True, d1) \<Rightarrow>
          (case sa_expire a of
             None \<Rightarrow> (Ok True, d1)
           | Some e \<Rightarrow>
               (case expire (w_now w) i d1 (sa_key a) (wrap_i64 (int (as_secs e))) of
                  (Panic, d2) \<Rightarrow> (Panic, d2)
                | (_, d2) \<Rightarrow> (Ok True, d2)))
      | other \<Rightarrow> other)"

definition exec_set :: "world \<Rightarrow> set_args \<Rightarrow> nat \<Rightarrow> database \<Rightarrow> frame option \<times> database" where
  "exec_set w a i d =
     (case (if sa_get a then str_get (w_now w) i d (sa_key a) else Ok None) of
        Err e \<Rightarrow> (Some (frame_from_error e), d)
      | Panic \<Rightarrow> (None, d)
      | Ok old_val \<Rightarrow>
          runs
            (reply (\<lambda>stored. if stored then (if sa_get a then opt_bulk old_val else frame_ok_reply) else Null))
            (if sa_nx a then set_new w a i d
             else if sa_xx a then str_setxx (w_now w) i d (sa_key a) (sa_value a) (sa_expire a)
             else (case str_set (w_now w) i d (sa_key a) (sa_value a) (sa_expire a) of
                     (r, d1) \<Rightarrow> (map_res (\<lambda>_. True) r, d1))))"

definition exec_getex :: "world \<Rightarrow> getex_args \<Rightarrow> nat \<Rightarrow> database \<Rightarrow> frame option \<times> database" where
  "exec_getex w a i d =
     (case str_get (w_now w) i d (ga_key a) of
        Err e \<Rightarrow> (Some (frame_from_error e), d)
      | Panic \<Rightarrow> (None, d)
      | Ok None \<Rightarrow> (Some Null, d)
      | Ok (Some v) \<Rightarrow>
          (if ga_persist a then (Some (Bulk v), snd (persist i d (ga_key a)))
           else case ga_expire a of
             None \<Rightarrow> (Some (Bulk v), d)
           | Some e \<Rightarrow>
               (case pexpire (w_now w) i d (ga_key a) (wrap_i64 (int (as_millis e))) of
                  (Panic, d1) \<Rightarrow> (None, d1)
                | (_, d1) \<Rightarrow> (Some (Bulk v), d1))))"

fun exec_string :: "world \<Rightarrow> string_cmd \<Rightarrow> nat \<Rightarrow> database \<Rightarrow> frame option \<times> database" where
  "exec_string w (CSet a) i d = exec_set w a i d"
| "exec_string w (Get k) i d = reads null_or_bulk (str_get (w_now w) i d k) d"
| "exec_string w (GetSet k v) i d = runs null_or_bulk (str_getset (w_now w) i d k v)"
| "exec_string w (GetDel k) i d = runs null_or_bulk (str_getdel i d k)"
| "exec_string w (GetEx a) i d = exec_getex w a i d"
| "exec_string w (Mset ps) i d = runs ok_result (mset_pairs i d ps)"
| "exec_string w (Mget ks) i d = reads opt_bulk_array (mget (w_now w) i d ks) d"
| "exec_string w (Msetnx ps) i d = runs bool_int_result (msetnx (w_now w) i d ps)"
| "exec_string w (Setnx k v) i d = runs bool_int_result (str_setnx (w_now w) i d k v)"
| "exec_string w (Setex k secs v) i d =
     runs ok_result (str_set (w_now w) i d k v (Some (from_secs (as_usize secs))))"
| "exec_string w (PSetex k ms v) i d =
     runs ok_result (str_set (w_now w) i d k v (Some (from_millis (as_usize ms))))"
| "exec_string w (Incr k) i d = runs int_result (str_incr i d k 1)"
| "exec_string w (IncrBy k n) i d = runs int_result (str_incr i d k n)"
| "exec_string w (IncrByFloat k x) i d = runs (reply float_bulk) (str_incr_float i d k x)"
| "exec_string w (Decr k) i d = runs int_result (str_incr i d k (- 1))"
| "exec_string w (DecrBy k n) i d = runs int_result (str_incr i d k (wrap_i64 (- n)))"
| "exec_string w (CAppend k v) i d = runs len_result (str_append i d k v)"
| "exec_string w (Strlen k) i d = reads len_result (str_strlen (w_now w) i d k) d"
| "exec_string w (GetRange k a b) i d = reads (reply Bulk) (str_getrange (w_now w) i d k a b) d"
| "exec_string w (SetRange k off v) i d = runs len_result (str_setrange i d k off v)"

subsection \<open>Lists\<close>

fun exec_list :: "world \<Rightarrow> list_cmd \<Rightarrow> nat \<Rightarrow> database \<Rightarrow> frame option \<times> database" where
  "exec_list w (LPush k vs) i d = runs len_result (lpush i d k vs)"
| "exec_list w (RPush k vs) i d = runs len_result (rpush i d k vs)"
| "exec_list w (LPushX k vs) i d = runs len_result (lpushx (w_now w) i d k vs)"
| "exec_list w (RPushX k vs) i d = runs len_result (rpushx (w_now w) i d k vs)"
| "exec_list w (LPop k n) i d = runs (\<lambda>r. exec_pop_result r (n = 1)) (lpop i d k n)"
| "exec_list w (RPop k n) i d = runs (\<lambda>r. exec_pop_result r (n = 1)) (rpop i d k n)"
| "exec_list w (LLen k) i d = reads len_result (llen (w_now w) i d k) d"
| "exec_list w (LRange k a b) i d = reads bulk_array (lrange (w_now w) i d k a b) d"
| "exec_list w (LIndex k n) i d = reads null_or_bulk (lindex (w_now w) i d k n) d"
| "exec_list w (LSet k n v) i d = runs ok_result (lset (w_now w) i d k n v)"
| "exec_list w (LInsert k before pivot v) i d = runs int_result (linsert (w_now w) i d k before pivot v)"
| "exec_list w (LRem k n v) i d = runs len_result (lrem (w_now w) i d k n v)"
| "exec_list w (LTrim k a b) i d = runs ok_result (ltrim i d k a b)"
| "exec_list w (LMove src dst a b) i d = runs null_or_bulk (lmove i d src dst a b)"

subsection \<open>Hashes\<close>

definition pair_frames :: "(string \<times> string) list \<Rightarrow> frame" where
  "pair_frames ps = Array (concat (map (\<lambda>(f, v). [Bulk f, Bulk v]) ps))"

fun exec_hash :: "world \<Rightarrow> hash_cmd \<Rightarrow> nat \<Rightarrow> database \<Rightarrow> frame option \<times> database" where
  "exec_hash w (HSet k fs) i d = runs len_result (hset i d k fs)"
| "exec_hash w (HSetnx k f v) i d = runs bool_int_result (hsetnx i d k f v)"
| "exec_hash w (HGet k f) i d = reads null_or_bulk (hget (w_now w) i d k f) d"
| "exec_hash w (HMGet k fs) i d = reads opt_bulk_array (hmget (w_now w) i d k fs) d"
| "exec_hash w (HMSet k fs) i d = runs (\<lambda>r. ok_result (map_res (\<lambda>_. ()) r)) (hset i d k fs)"
| "exec_hash w (HDel k fs) i d = runs len_result (hdel i d k fs)"
| "exec_hash w (HExists k f) i d = reads bool_int_result (hexists (w_now w) i d k f) d"
| "exec_hash w (HGetAll k) i d = reads (reply pair_frames) (hgetall (w_now w) i d k) d"
| "exec_hash w (HKeys k) i d = reads bulk_array (hkeys (w_now w) i d k) d"
| "exec_hash w (HVals k) i d = reads bulk_array (hvals (w_now w) i d k) d"
| "exec_hash w (HLen k) i d = reads len_result (hlen (w_now w) i d k) d"
| "exec_hash w (HIncrBy k f n) i d = runs int_result (hincrby i d k f n)"
| "exec_hash w (HIncrByFloat k f x) i d = runs (reply float_bulk) (hincrbyfloat i d k f x)"

subsection \<open>Sets\<close>

fun exec_set_cmd :: "world \<Rightarrow> set_cmd \<Rightarrow> nat \<Rightarrow> database \<Rightarrow> frame option \<times> database" where
  "exec_set_cmd w (SAdd k ms) i d = runs len_result (sadd i d k ms)"
| "exec_set_cmd w (SRem k ms) i d = runs len_result (srem i d k ms)"
| "exec_set_cmd w (SMembers k) i d = reads bulk_array (smembers (w_now w) i d k) d"
| "exec_set_cmd w (SIsMember k m) i d = reads bool_int_result (sismember (w_now w) i d k m) d"
| "exec_set_cmd w (SMIsMember k ms) i d =
     reads (reply (\<lambda>bs. Array (map bool_int bs))) (smismember (w_now w) i d k ms) d"
| "exec_set_cmd w (SCard k) i d = reads len_result (scard (w_now w) i d k) d"
| "exec_set_cmd w (SUnion ks) i d = reads bulk_array (sunion (w_now w) i d ks) d"
| "exec_set_cmd w (SInter ks) i d = reads bulk_array (sinter (w_now w) i d ks) d"
| "exec_set_cmd w (SDiff ks) i d = reads bulk_array (sdiff (w_now w) i d ks) d"
| "exec_set_cmd w (SUnionStore dst ks) i d = runs len_result (sunionstore (w_now w) i d dst ks)"
| "exec_set_cmd w (SInterStore dst ks) i d = runs len_result (sinterstore (w_now w) i d dst ks)"
| "exec_set_cmd w (SDiffStore dst ks) i d = runs len_result (sdiffstore (w_now w) i d dst ks)"
| "exec_set_cmd w (SPop k n) i d = runs (\<lambda>r. one_or_array r (n = 1)) (spop (w_sample w) i d k n)"
| "exec_set_cmd w (SRandMember k n) i d =
     reads (\<lambda>r. one_or_array r (n = 1)) (srandmember (w_sample w) (w_draw w) (w_now w) i d k n) d"
| "exec_set_cmd w (SMove src dst m) i d = runs bool_int_result (smove i d src dst m)"

subsection \<open>Sorted sets\<close>

text \<open>Two score bounds read from the command, in this order, before the method runs.\<close>

definition with_bounds ::
    "score_bound res \<Rightarrow> score_bound res \<Rightarrow> database \<Rightarrow>
     (score_bound \<Rightarrow> score_bound \<Rightarrow> frame option \<times> database) \<Rightarrow> frame option \<times> database" where
  "with_bounds r1 r2 d f =
     (case bind_res r1 (\<lambda>b1. map_res (Pair b1) r2) of
        Ok (b1, b2) \<Rightarrow> f b1 b2
      | Err e \<Rightarrow> (Some (frame_from_error e), d)
      | Panic \<Rightarrow> (None, d))"

fun exec_zset :: "world \<Rightarrow> zset_cmd \<Rightarrow> nat \<Rightarrow> database \<Rightarrow> frame option \<times> database" where
  "exec_zset w (ZAdd a) i d =
     runs int_result (zadd (w_coins w) i d (za_key a) (za_members a) (za_nx a) (za_xx a) (za_gt a) (za_lt a) (za_ch a))"
| "exec_zset w (ZRem k ms) i d = runs len_result (zrem i d k ms)"
| "exec_zset w (ZScore k m) i d = reads (reply (case_option Null float_bulk)) (zscore (w_now w) i d k m) d"
| "exec_zset w (ZMScore k ms) i d =
     reads (reply (\<lambda>vs. Array (map (case_option Null float_bulk) vs))) (zmscore (w_now w) i d k ms) d"
| "exec_zset w (ZIncrBy k x m) i d = runs (reply float_bulk) (zincrby (w_coins w 0) i d k x m)"
| "exec_zset w (ZRank k m) i d = reads (reply opt_int) (zrank (w_now w) i d k m) d"
| "exec_zset w (ZRevRank k m) i d = reads (reply opt_int) (zrevrank (w_now w) i d k m) d"
| "exec_zset w (ZCard k) i d = reads len_result (zcard (w_now w) i d k) d"
| "exec_zset w (ZCount k lo hi) i d =
     with_bounds (parse_min lo) (parse_max hi) d (\<lambda>mn mx.
       reads len_result (zcount (w_now w) i d k mn mx) d)"
| "exec_zset w (ZRange k a b rv ws) i d =
     reads (reply build_member_score_array) (zrange (w_now w) i d k a b rv ws) d"
| "exec_zset w (ZRangeByScore z) i d =
     with_bounds (parse_min (zr_min z)) (parse_max (zr_max z)) d (\<lambda>mn mx.
       reads (reply build_member_score_array)
         (zrangebyscore (w_now w) i d (zr_key z) mn mx (zr_withscores z) (zr_offset z) (zr_count z)) d)"
| "exec_zset w (ZRevRangeByScore z) i d =
     with_bounds (parse_max (zr_max z)) (parse_min (zr_min z)) d (\<lambda>mx mn.
       reads (reply build_member_score_array)
         (zrevrangebyscore (w_now w) i d (zr_key z) mx mn (zr_withscores z) (zr_offset z) (zr_count z)) d)"
| "exec_zset w (ZRevRange k a b ws) i d =
     reads (reply build_member_score_array) (zrange (w_now w) i d k a b True ws) d"
| "exec_zset w (ZRemRangeByRank k a b) i d = runs len_result (zremrangebyrank i d k a b)"
| "exec_zset w (ZRemRangeByScore k lo hi) i d =
     with_bounds (parse_min lo) (parse_max hi) d (\<lambda>mn mx.
       runs len_result (zremrangebyscore i d k mn mx))"
| "exec_zset w (ZPopMin k n) i d = runs (reply popped_pairs) (zpopmin i d k n)"
| "exec_zset w (ZPopMax k n) i d = runs (reply popped_pairs) (zpopmax i d k n)"

subsection \<open>The dispatch\<close>

text \<open>
  Every command but the scripting ones, for which \<open>script\<close> stands.  Only a \<open>Server\<close> command
  changes the selected logical database.
\<close>

definition execute ::
    "(script_cmd \<Rightarrow> nat \<Rightarrow> database \<Rightarrow> frame option \<times> database) \<Rightarrow>
     world \<Rightarrow> command \<Rightarrow> nat \<Rightarrow> database \<Rightarrow> (frame option \<times> database) \<times> nat" where
  "execute script w c i d =
     (case c of
        Server s \<Rightarrow> exec_server w s i d
      | OnKey k \<Rightarrow> (exec_key w k i d, i)
      | OnStr s \<Rightarrow> (exec_string w s i d, i)
      | OnList l \<Rightarrow> (exec_list w l i d, i)
      | OnHash h \<Rightarrow> (exec_hash w h i d, i)
      | OnSet s \<Rightarrow> (exec_set_cmd w s i d, i)
      | OnZSet z \<Rightarrow> (exec_zset w z i d, i)
      | Scripting s \<Rightarrow> (script s i d, i))"

subsection \<open>What a command can change\<close>

text \<open>The keys a command may change, by name.\<close>

fun key_writes :: "key_cmd \<Rightarrow> string set" where
  "key_writes (Del ks) = set ks"
| "key_writes (Rename src dst) = {src, dst}"
| "key_writes (Renamenx src dst) = {src, dst}"
| "key_writes (Expire k n) = {k}"
| "key_writes (PExpire k n) = {k}"
| "key_writes (ExpireAt k n) = {k}"
| "key_writes (PExpireAt k n) = {k}"
| "key_writes (Persist k) = {k}"
| "key_writes _ = {}"

fun string_writes :: "string_cmd \<Rightarrow> string set" where
  "string_writes (CSet a) = {sa_key a}"
| "string_writes (GetSet k v) = {k}"
| "string_writes (GetDel k) = {k}"
| "string_writes (GetEx a) = {ga_key a}"
| "string_writes (Mset ps) = fst ` set ps"
| "string_writes (Msetnx ps) = fst ` set ps"
| "string_writes (Setnx k v) = {k}"
| "string_writes (Setex k n v) = {k}"
| "string_writes (PSetex k n v) = {k}"
| "string_writes (Incr k) = {k}"
| "string_writes (IncrBy k n) = {k}"
| "string_writes (IncrByFloat k x) = {k}"
| "string_writes (Decr k) = {k}"
| "string_writes (DecrBy k n) = {k}"
| "string_writes (CAppend k v) = {k}"
| "string_writes (SetRange k n v) = {k}"
| "string_writes _ = {}"

fun list_writes :: "list_cmd \<Rightarrow> string set" where
  "list_writes (LPush k vs) = {k}"
| "list_writes (RPush k vs) = {k}"
| "list_writes (LPushX k vs) = {k}"
| "list_writes (RPushX k vs) = {k}"
| "list_writes (LPop k n) = {k}"
| "list_writes (RPop k n) = {k}"
| "list_writes (LSet k n v) = {k}"
| "list_writes (LInsert k b p v) = {k}"
| "list_writes (LRem k n v) = {k}"
| "list_writes (LTrim k a b) = {k}"
| "list_writes (LMove src dst a b) = {src, dst}"
| "list_writes _ = {}"

fun hash_writes :: "hash_cmd \<Rightarrow> string set" where
  "hash_writes (HSet k fs) = {k}"
| "hash_writes (HSetnx k f v) = {k}"
| "hash_writes (HMSet k fs) = {k}"
| "hash_writes (HDel k fs) = {k}"
| "hash_writes (HIncrBy k f n) = {k}"
| "hash_writes (HIncrByFloat k f x) = {k}"
| "hash_writes _ = {}"

fun set_writes :: "set_cmd \<Rightarrow> string set" where
  "set_writes (SAdd k ms) = {k}"
| "set_writes (SRem k ms) = {k}"
| "set_writes (SUnionStore dst ks) = {dst}"
| "set_writes (SInterStore dst ks) = {dst}"
| "set_writes (SDiffStore dst ks) = {dst}"
| "set_writes (SPop k n) = {k}"
| "set_writes (SMove src dst m) = {src, dst}"
| "set_writes _ = {}"

fun zset_writes :: "zset_cmd \<Rightarrow> string set" where
  "zset_writes (ZAdd a) = {za_key a}"
| "zset_writes (ZRem k ms) = {k}"
| "zset_writes (ZIncrBy k x m) = {k}"
| "zset_writes (ZRemRangeByRank k a b) = {k}"
| "zset_writes (ZRemRangeByScore k a b) = {k}"
| "zset_writes (ZPopMin k n) = {k}"
| "zset_writes (ZPopMax k n) = {k}"
| "zset_writes _ = {}"

fun cmd_writes :: "command \<Rightarrow> string set" where
  "cmd_writes (Server s) = (if s = Flushdb then UNIV else {})"
| "cmd_writes (OnKey k) = key_writes k"
| "cmd_writes (OnStr s) = string_writes s"
| "cmd_writes (OnList l) = list_writes l"
| "cmd_writes (OnHash h) = hash_writes h"
| "cmd_writes (OnSet s) = set_writes s"
| "cmd_writes (OnZSet z) = zset_writes z"
| "cmd_writes (Scripting s) = UNIV"

definition confined :: "nat \<Rightarrow> string set \<Rightarrow> database \<Rightarrow> database \<Rightarrow> bool" where
  "confined i K d d' \<longleftrightarrow> touches i K d d' \<and> (K = {} \<longrightarrow> d' = d)"

lemma within_same [simp]: "confined i K d d"
  by (simp add: confined_def)

lemma within_touches: "K \<noteq> {} \<Longrightarrow> confined i K d d' = touches i K d d'"
  by (simp add: confined_def)

lemma snd_reads [simp]: "snd (reads f r d) = d"
  by (simp add: reads_def)

lemma snd_runs [simp]: "snd (runs f p) = snd p"
  by (simp add: runs_def)

lemma within_with_bounds:
  "(\<And>b1 b2. confined i K d (snd (f b1 b2))) \<Longrightarrow> confined i K d (snd (with_bounds r1 r2 d f))"
  by (auto simp: with_bounds_def split: res.splits prod.splits)

lemma within_empty: "(\<And>l. snd (f l) = l) \<Longrightarrow> confined i {} d (snd (with_db i d f))"
  by (simp add: confined_def with_db_def case_prod_beta)

lemmas within_steps =
  del.stays rename.stays renamenx.stays expire.stays pexpire.stays expireat.stays pexpireat.stays persist.stays
  str_getset.stays str_getdel.stays mset_pairs.stays msetnx.stays str_setnx.stays str_set.stays str_setxx.stays
  str_incr.stays str_incr_float.stays str_append.stays str_setrange.stays
  lpush.stays rpush.stays lpushx.stays rpushx.stays lpop.stays rpop.stays lset.stays linsert.stays lrem.stays
  ltrim.stays lmove.stays hset.stays hsetnx.stays hdel.stays hincrby.stays hincrbyfloat.stays
  sadd.stays srem.stays spop.stays smove.stays store_set_stays
  zadd.stays zrem.stays zincrby.stays zremrangebyrank.stays zremrangebyscore.stays zpopmin.stays zpopmax.stays

lemma no_keys_within:
  "confined i {} d (snd (del i d []))"
  "confined i {} d (snd (mset_pairs i d []))"
  "confined i {} d (snd (msetnx now i d []))"
  by (simp_all add: del_def mset_pairs_def msetnx_def within_empty)

lemma key_within: "confined i (key_writes c) d (snd (exec_key w c i d))"
proof (cases c)
  case (Del ks)
  then show ?thesis by (cases "ks = []") (simp_all add: no_keys_within within_touches within_steps)
qed (simp_all add: within_touches within_steps)

lemma set_new_touches: "touches i {sa_key a} d (snd (set_new w a i d))"
proof -
  have s: "touches i {sa_key a} d d1" if "str_setnx (w_now w) i d (sa_key a) (sa_value a) = (r, d1)" for r d1
    using str_setnx.stays [of i "sa_key a" d "w_now w" "sa_value a"] that by simp
  have e: "touches i {sa_key a} d d2"
    if "str_setnx (w_now w) i d (sa_key a) (sa_value a) = (r, d1)"
      and "expire (w_now w) i d1 (sa_key a) n = (r', d2)" for r d1 n r' d2
    using touches_trans [OF s [OF that(1)]] expire.stays [of i "sa_key a" d1 "w_now w" n] that(2) by simp
  show ?thesis
    using s e by (auto simp: set_new_def split: res.splits bool.splits option.splits prod.splits)
qed

lemma exec_set_touches: "touches i {sa_key a} d (snd (exec_set w a i d))"
  by (auto simp: exec_set_def case_prod_beta set_new_touches str_setxx.stays str_set.stays split: res.splits)

lemma exec_getex_touches: "touches i {ga_key a} d (snd (exec_getex w a i d))"
proof -
  have "touches i {ga_key a} d d1" if "pexpire (w_now w) i d (ga_key a) n = (r, d1)" for n r d1
    using pexpire.stays [of i "ga_key a" d "w_now w" n] that by simp
  then show ?thesis
    by (auto simp: exec_getex_def persist.stays split: res.splits option.splits prod.splits)
qed

lemma string_within: "confined i (string_writes c) d (snd (exec_string w c i d))"
proof (cases c)
  case (Mset ps)
  then show ?thesis by (cases "ps = []") (simp_all add: no_keys_within within_touches within_steps)
next
  case (Msetnx ps)
  then show ?thesis by (cases "ps = []") (simp_all add: no_keys_within within_touches within_steps)
qed (simp_all add: within_touches within_steps exec_set_touches exec_getex_touches)

lemma list_within: "confined i (list_writes c) d (snd (exec_list w c i d))"
  by (cases c) (simp_all add: within_touches within_steps)

lemma hash_within: "confined i (hash_writes c) d (snd (exec_hash w c i d))"
  by (cases c) (simp_all add: within_touches within_steps)

lemma set_within: "confined i (set_writes c) d (snd (exec_set_cmd w c i d))"
  by (cases c)
     (simp_all add: within_touches within_steps sunionstore_def sinterstore_def sdiffstore_def)

lemma zset_within: "confined i (zset_writes c) d (snd (exec_zset w c i d))"
proof (cases c)
  case (ZRemRangeByScore k lo hi)
  show ?thesis unfolding ZRemRangeByScore exec_zset.simps
    by (rule within_with_bounds) (simp add: within_touches within_steps)
qed (simp_all add: within_touches within_steps within_with_bounds)

lemma flushall_ok: "db_ok (flushall d)"
  by (auto simp: flushall_def db_ok_def ldb_clear_ok)

lemma execute_within:
  assumes "c \<noteq> Server Flushall" "\<And>s. c \<noteq> Scripting s"
  shows "confined i (cmd_writes c) d (snd (fst (execute script w c i d)))"
proof (cases c)
  case (Server s)
  then show ?thesis using assms(1) by (cases s) (simp_all add: execute_def within_touches flushdb.stays)
qed (simp_all add: execute_def key_within string_within list_within hash_within set_within zset_within assms(2))

definition sample_world :: world where
  "sample_world = \<lparr>w_now = 5, w_wall = 0, w_coins = (\<lambda>_. []), w_sample = (\<lambda>n xs. if capacity_ok ref_size n then Some (take n xs) else None), w_draw = (\<lambda>_ _. 0),
     w_pick = hd, w_os = ''linux''\<rparr>"

text \<open>C15: A command other than FLUSHALL and the scripting commands keeps the database well-formed and changes
  nothing but the keys it names, in the logical database the connection has selected: value and deadline
  of every other key, and every other logical database, stay as they are.  A command that names no key to
  write returns the database itself.\<close>
theorem execute_frame:
  assumes "c \<noteq> Server Flushall" "\<forall>s. c \<noteq> Scripting s" "db_ok d"
    and d': "d' = snd (fst (execute script w c i d))"
  shows "db_ok d' \<and> length (dbs d') = length (dbs d) \<and>
    (\<forall>j k. j < length (dbs d) \<and> (j \<noteq> i \<or> k \<notin> cmd_writes c) \<longrightarrow> slot (dbs d' ! j) k = slot (dbs d ! j) k) \<and>
    (cmd_writes c = {} \<longrightarrow> d' = d)"
  using execute_within [of c i d script w] assms by (auto simp: confined_def touches_def)

theorem execute_frame_witness:
  "slot (dbs (snd (fst (execute (\<lambda>s i d. (None, d)) sample_world (OnStr (Incr ''n'')) 0
      (one_db [(''n'', Str ''1''), (''m'', Str ''x'')])))) ! 0) ''m'' = (Some (Str ''x''), None)"
proof -
  have "db_ok (one_db [(''n'', Str ''1''), (''m'', Str ''x'')])" by (rule one_db_ok) auto
  then show ?thesis
    using execute_frame [of "OnStr (Incr ''n'')" "one_db [(''n'', Str ''1''), (''m'', Str ''x'')]"
        "snd (fst (execute (\<lambda>s i d. (None, d)) sample_world (OnStr (Incr ''n'')) 0
          (one_db [(''n'', Str ''1''), (''m'', Str ''x'')])))" "\<lambda>s i d. (None, d)" sample_world 0]
    by (auto simp: one_db_simps slot_def)
qed

subsection \<open>SET\<close>

lemma insert_str_fits:
  assumes "\<forall>t. dur = Some t \<longrightarrow> now + t \<le> instant_max"
  shows "fst (insert_str now key v dur r l) = Ok r"
    "ldb_get later (snd (insert_str now key v dur r l)) key =
       (case dur of None \<Rightarrow> Some (Str v) | Some t \<Rightarrow> if later < now + t then Some (Str v) else None)"
  using assms
  by (auto simp: insert_str_def ldb_set_expiry_def instant_add_def ldb_get_def ldb_insert_def hm_contains_def
      hm_get_insert hm_get_remove split: option.splits)

lemma set_new_fits:
  assumes i: "i < length (dbs d)" and fits: "\<forall>t. sa_expire a = Some t \<longrightarrow> w_now w + t \<le> instant_max"
    and free: "view (w_now w) d i (sa_key a) = None"
  shows "fst (set_new w a i d) = Ok True"
    "view later (snd (set_new w a i d)) i (sa_key a) =
      (case sa_expire a of None \<Rightarrow> Some (Str (sa_value a))
       | Some t \<Rightarrow> if later < w_now w + from_secs (as_secs t) then Some (Str (sa_value a)) else None)"
proof -
  let ?k = "sa_key a" and ?now = "w_now w"
  let ?d1 = "d\<lparr>dbs := (dbs d)[i := ldb_insert ?k (Str (sa_value a)) (dbs d ! i)]\<rparr>"
  have nx: "str_setnx ?now i d ?k (sa_value a) = (Ok True, ?d1)"
    using i free by (simp add: str_setnx_def db_simps view_def)
  have i1: "i < length (dbs ?d1)" using i by simp
  have e: "fst (expire ?now i ?d1 ?k (int (as_secs t))) = Ok True \<and>
      view later (snd (expire ?now i ?d1 ?k (int (as_secs t)))) i ?k =
        (if later < ?now + from_secs (as_secs t) then Some (Str (sa_value a)) else None)"
    if t: "?now + t \<le> instant_max" for t
  proof -
    have "as_secs t * 1000000000 \<le> t" by (simp add: as_secs_def)
    then have le: "?now + as_secs t * 1000000000 \<le> instant_max" using t by simp
    have s: "in_i64 (int (as_secs t))"
      using t by (simp add: in_i64_def i64_min_def i64_max_def as_secs_def instant_max_def)
    show ?thesis
      using i le s
      by (simp add: expire_def db_simps ldb_set_expiry_def instant_add_def from_secs_def as_usize_id view_def
          ldb_get_def ldb_insert_def hm_contains_def hm_get_insert)
  qed
  have w: "wrap_i64 (int (as_secs t)) = int (as_secs t)" if "?now + t \<le> instant_max" for t
    using that by (intro wrap_i64_id) (simp add: in_i64_def i64_min_def i64_max_def as_secs_def instant_max_def)
  have "fst (set_new w a i d) = Ok True \<and> view later (snd (set_new w a i d)) i ?k =
      (case sa_expire a of None \<Rightarrow> Some (Str (sa_value a))
       | Some t \<Rightarrow> if later < ?now + from_secs (as_secs t) then Some (Str (sa_value a)) else None)"
  proof (cases "sa_expire a")
    case None
    then show ?thesis
      using i by (simp add: set_new_def nx view_def ldb_get_def ldb_insert_def hm_get_insert hm_get_remove)
  next
    case (Some t)
    then have t: "?now + t \<le> instant_max" using fits by simp
    obtain d2 where "expire ?now i ?d1 ?k (int (as_secs t)) = (Ok True, d2)"
      using e [OF t] by (metis prod.collapse)
    then show ?thesis
      using Some e [OF t] w [OF t] by (simp add: set_new_def nx)
  qed
  then show "fst (set_new w a i d) = Ok True"
    "view later (snd (set_new w a i d)) i ?k =
      (case sa_expire a of None \<Rightarrow> Some (Str (sa_value a))
       | Some t \<Rightarrow> if later < ?now + from_secs (as_secs t) then Some (Str (sa_value a)) else None)" by auto
qed

text \<open>C18: SET stores its value exactly when the options allow it (NX: a client sees no value, XX: it sees
  one), and then the value is visible until the deadline the options give, in whole seconds with NX and
  to the millisecond otherwise, and without deadline when they give none; when they do not allow it, SET
  answers Null and changes nothing.  With GET the reply is the string a client saw before, and a value of
  another kind is an error that changes nothing.\<close>
theorem set_command:
  assumes i: "i < length (dbs d)" and fits: "\<forall>t. sa_expire a = Some t \<longrightarrow> w_now w + t \<le> instant_max"
    and old: "old = view (w_now w) d i (sa_key a)"
    and allowed: "allowed = (if sa_nx a then old = None else sa_xx a \<longrightarrow> old \<noteq> None)"
    and r: "r = exec_string w (CSet a) i d"
  shows "if sa_get a \<and> old \<noteq> None \<and> (\<forall>v. old \<noteq> Some (Str v)) then r = (Some (frame_from_error WrongType), d)
    else if \<not> allowed then r = (Some Null, d)
    else fst r = Some (if sa_get a then (case old of Some (Str v) \<Rightarrow> Bulk v | _ \<Rightarrow> Null) else frame_ok_reply) \<and>
      view later (snd r) i (sa_key a) =
        (case sa_expire a of
           None \<Rightarrow> Some (Str (sa_value a))
         | Some t \<Rightarrow>
             if later < w_now w + (if sa_nx a then from_secs (as_secs t) else t) then Some (Str (sa_value a)) else None)"
proof -
  let ?k = "sa_key a" and ?now = "w_now w"
  have get: "str_get ?now i d ?k =
      (case old of None \<Rightarrow> Ok None | Some (Str v) \<Rightarrow> Ok (Some v) | _ \<Rightarrow> Err WrongType)"
    using i by (simp add: str_get_def db_simps old view_def)
  define op where "op = (if sa_nx a then set_new w a i d
      else if sa_xx a then str_setxx ?now i d ?k (sa_value a) (sa_expire a)
      else (map_res (\<lambda>_. True) (fst (str_set ?now i d ?k (sa_value a) (sa_expire a))),
            snd (str_set ?now i d ?k (sa_value a) (sa_expire a))))"
  have no: "op = (Ok False, d)" if "\<not> allowed"
    using that i old by (auto simp: op_def allowed set_new_def str_setnx_def str_setxx_def db_simps view_def
        list_update_id split: if_splits)
  have yes: "fst op = Ok True \<and> view later (snd op) i ?k =
        (case sa_expire a of None \<Rightarrow> Some (Str (sa_value a))
         | Some t \<Rightarrow> if later < ?now + (if sa_nx a then from_secs (as_secs t) else t)
             then Some (Str (sa_value a)) else None)" if al: allowed
  proof (cases "sa_nx a")
    case True
    then show ?thesis using set_new_fits [OF i fits] al old by (auto simp: op_def allowed split: option.splits)
  next
    case False
    then show ?thesis
      using al old i by (auto simp: op_def allowed str_setxx_def str_set_def db_simps view_def insert_str_fits [OF fits]
          split: option.splits)
  qed
  have r: "r = (case (if sa_get a then str_get ?now i d ?k else Ok None) of
      Err e \<Rightarrow> (Some (frame_from_error e), d) | Panic \<Rightarrow> (None, d)
    | Ok v \<Rightarrow> runs (reply (\<lambda>stored. if stored then (if sa_get a then opt_bulk v else frame_ok_reply) else Null)) op)"
    by (simp only: r exec_string.simps exec_set_def op_def case_prod_beta)
  show ?thesis
  proof (cases "sa_get a \<and> old \<noteq> None \<and> (\<forall>v. old \<noteq> Some (Str v))")
    case True
    then show ?thesis by (auto simp: r get split: option.splits rudis_object.splits)
  next
    case False
    then have "\<exists>v. (if sa_get a then str_get ?now i d ?k else Ok None) = Ok v \<and>
      (sa_get a \<longrightarrow> opt_bulk v = (case old of Some (Str s) \<Rightarrow> Bulk s | _ \<Rightarrow> Null))"
      by (auto simp: get opt_bulk_def split: option.splits rudis_object.splits)
    then obtain v where v: "(if sa_get a then str_get ?now i d ?k else Ok None) = Ok v"
      "sa_get a \<Longrightarrow> opt_bulk v = (case old of Some (Str s) \<Rightarrow> Bulk s | _ \<Rightarrow> Null)" by blast
    show ?thesis
      using False no yes v by (cases allowed) (auto simp: r runs_def)
  qed
qed

theorem set_command_witness:
  "view 1500000004 (snd (exec_string sample_world (CSet \<lparr>sa_key = ''k'', sa_value = ''new'',
     sa_expire = Some 1500000000, sa_nx = False, sa_xx = True, sa_get = True, sa_keepttl = False\<rparr>) 0
     (one_db [(''k'', Str ''old'')]))) 0 ''k'' = Some (Str ''new'')"
  using set_command [of 0 "one_db [(''k'', Str ''old'')]" "\<lparr>sa_key = ''k'', sa_value = ''new'',
      sa_expire = Some 1500000000, sa_nx = False, sa_xx = True, sa_get = True, sa_keepttl = False\<rparr>" sample_world
      "Some (Str ''old'')" True _ 1500000004, OF _ _ _ _ refl]
  by (simp add: one_db_simps sample_world_def instant_max_def)

end
