(* ===== verification/CommandText.thy ===== *)
theory CommandText imports Command begin

text \<open>
  How commands are written on the wire, and that the parser reads every one of them back:
  \<open>request\<close> is a client's side of \<open>src/cmd/mod.rs\<close>, one section per enumeration.  \<open>ft\<close> writes a
  floating point number.
\<close>

subsection \<open>Names and numbers\<close>

text \<open>A text without lower-case letters, such as the name of a command or an option.\<close>

definition plain_name :: "string \<Rightarrow> bool" where
  "plain_name s \<longleftrightarrow> list_all (\<lambda>c. byte_of c < 97) s"

lemma upper_plain: "plain_name s \<Longrightarrow> upper uc s = s"
proof -
  assume "plain_name s"
  then have s: "c \<in> set s \<Longrightarrow> byte_of c < 97" for c by (auto simp: plain_name_def list_all_iff)
  then have a: "ascii s" by (fastforce simp: ascii_def)
  have "map ascii_upper s = s" using s by (force intro: map_idI simp: ascii_upper_def)
  with a show ?thesis by (simp add: upper_def from_utf8_lossy_valid utf8_valid_ascii to_uppercase_ascii)
qed

lemmas name_simps = upper_plain plain_name_def byte_of_def

text \<open>The dispatch by name: no name occurs twice, so every entry of the table is reached.\<close>

lemmas parser_tables =
  parsers_def server_parsers_def key_parsers_def string_parsers_def list_parsers_def hash_parsers_def
  set_parsers_def zset_parsers_def script_parsers_def

lemma names_plain: "list_all plain_name (map fst (parsers uc wall))"
  by (simp add: parser_tables plain_name_def byte_of_def)

lemma names_distinct: "distinct (map fst (parsers uc wall))"
  by code_simp

lemma parse_entry:
  assumes "(n, p) \<in> set (parsers uc wall)" shows "parse uc wall (n # rest) = p rest"
proof -
  have "plain_name n" using assms names_plain [of uc wall] by (force simp: list_all_iff)
  moreover have "map_of (parsers uc wall) n = Some p" using assms names_distinct by simp
  ultimately show ?thesis by (simp add: parse_def upper_plain)
qed

lemma server_dispatch:
  "parse uc wall (''PING'' # rest) = parse_ping rest"
  "parse uc wall (''ECHO'' # rest) = parse_echo rest"
  "parse uc wall (''SELECT'' # rest) = parse_select rest"
  "parse uc wall (''DBSIZE'' # rest) = Ok (Server Dbsize)"
  "parse uc wall (''FLUSHDB'' # rest) = Ok (Server Flushdb)"
  "parse uc wall (''FLUSHALL'' # rest) = Ok (Server Flushall)"
  "parse uc wall (''INFO'' # rest) = Ok (Server Info)"
  "parse uc wall (''QUIT'' # rest) = Ok (Server Quit)"
  by (rule parse_entry, simp add: parsers_def server_parsers_def)+

lemma key_dispatch:
  "parse uc wall (''DEL'' # rest) = parse_del rest"
  "parse uc wall (''UNLINK'' # rest) = parse_del rest"
  "parse uc wall (''EXISTS'' # rest) = parse_exists rest"
  "parse uc wall (''TYPE'' # rest) = parse_type rest"
  "parse uc wall (''RENAME'' # rest) = parse_rename False rest"
  "parse uc wall (''RENAMENX'' # rest) = parse_rename True rest"
  "parse uc wall (''EXPIRE'' # rest) = parse_expire False False rest"
  "parse uc wall (''PEXPIRE'' # rest) = parse_pexpire rest"
  "parse uc wall (''EXPIREAT'' # rest) = parse_expire True False rest"
  "parse uc wall (''PEXPIREAT'' # rest) = parse_pexpireat rest"
  "parse uc wall (''TTL'' # rest) = parse_ttl False rest"
  "parse uc wall (''PTTL'' # rest) = parse_ttl True rest"
  "parse uc wall (''PERSIST'' # rest) = parse_persist rest"
  "parse uc wall (''KEYS'' # rest) = parse_keys rest"
  "parse uc wall (''RANDOMKEY'' # rest) = Ok (OnKey Randomkey)"
  by (rule parse_entry, simp add: parsers_def key_parsers_def)+

lemma string_dispatch:
  "parse uc wall (''SET'' # rest) = parse_set uc wall rest"
  "parse uc wall (''GET'' # rest) = parse_get rest"
  "parse uc wall (''GETSET'' # rest) = parse_getset rest"
  "parse uc wall (''GETDEL'' # rest) = parse_getdel rest"
  "parse uc wall (''GETEX'' # rest) = parse_getex uc rest"
  "parse uc wall (''MSET'' # rest) = parse_mset rest"
  "parse uc wall (''MGET'' # rest) = parse_mget rest"
  "parse uc wall (''MSETNX'' # rest) = parse_msetnx rest"
  "parse uc wall (''SETNX'' # rest) = parse_setnx rest"
  "parse uc wall (''SETEX'' # rest) = parse_setex rest"
  "parse uc wall (''PSETEX'' # rest) = parse_psetex rest"
  "parse uc wall (''INCR'' # rest) = parse_incr ''INCR'' rest"
  "parse uc wall (''INCRBY'' # rest) = parse_incrby rest"
  "parse uc wall (''INCRBYFLOAT'' # rest) = parse_incrbyfloat rest"
  "parse uc wall (''DECR'' # rest) = parse_decr rest"
  "parse uc wall (''DECRBY'' # rest) = parse_decrby rest"
  "parse uc wall (''APPEND'' # rest) = parse_append rest"
  "parse uc wall (''STRLEN'' # rest) = parse_strlen rest"
  "parse uc wall (''GETRANGE'' # rest) = parse_getrange rest"
  "parse uc wall (''SUBSTR'' # rest) = parse_getrange rest"
  "parse uc wall (''SETRANGE'' # rest) = parse_setrange rest"
  by (rule parse_entry, simp add: parsers_def string_parsers_def)+

lemma list_dispatch:
  "parse uc wall (''LPUSH'' # rest) = parse_push True False rest"
  "parse uc wall (''RPUSH'' # rest) = parse_push False False rest"
  "parse uc wall (''LPUSHX'' # rest) = parse_push True True rest"
  "parse uc wall (''RPUSHX'' # rest) = parse_push False True rest"
  "parse uc wall (''LPOP'' # rest) = parse_pop True rest"
  "parse uc wall (''RPOP'' # rest) = parse_pop False rest"
  "parse uc wall (''LLEN'' # rest) = parse_llen rest"
  "parse uc wall (''LRANGE'' # rest) = parse_lrange rest"
  "parse uc wall (''LINDEX'' # rest) = parse_lindex rest"
  "parse uc wall (''LSET'' # rest) = parse_lset rest"
  "parse uc wall (''LINSERT'' # rest) = parse_linsert uc rest"
  "parse uc wall (''LREM'' # rest) = parse_lrem rest"
  "parse uc wall (''LTRIM'' # rest) = parse_ltrim rest"
  "parse uc wall (''LMOVE'' # rest) = parse_lmove uc rest"
  by (rule parse_entry, simp add: parsers_def list_parsers_def)+

lemma hash_dispatch:
  "parse uc wall (''HSET'' # rest) = parse_hset rest"
  "parse uc wall (''HSETNX'' # rest) = parse_hsetnx rest"
  "parse uc wall (''HGET'' # rest) = parse_hget rest"
  "parse uc wall (''HMGET'' # rest) = parse_hmget rest"
  "parse uc wall (''HMSET'' # rest) = parse_hmset rest"
  "parse uc wall (''HDEL'' # rest) = parse_hdel rest"
  "parse uc wall (''HEXISTS'' # rest) = parse_hexists rest"
  "parse uc wall (''HGETALL'' # rest) = parse_hgetall rest"
  "parse uc wall (''HKEYS'' # rest) = parse_hkeys rest"
  "parse uc wall (''HVALS'' # rest) = parse_hvals rest"
  "parse uc wall (''HLEN'' # rest) = parse_hlen rest"
  "parse uc wall (''HINCRBY'' # rest) = parse_hincrby rest"
  "parse uc wall (''HINCRBYFLOAT'' # rest) = parse_hincrbyfloat rest"
  by (rule parse_entry, simp add: parsers_def hash_parsers_def)+

lemma set_dispatch:
  "parse uc wall (''SADD'' # rest) = parse_sadd rest"
  "parse uc wall (''SREM'' # rest) = parse_srem rest"
  "parse uc wall (''SMEMBERS'' # rest) = parse_smembers rest"
  "parse uc wall (''SISMEMBER'' # rest) = parse_sismember rest"
  "parse uc wall (''SMISMEMBER'' # rest) = parse_smismember rest"
  "parse uc wall (''SCARD'' # rest) = parse_scard rest"
  "parse uc wall (''SUNION'' # rest) = parse_sunion rest"
  "parse uc wall (''SINTER'' # rest) = parse_sinter rest"
  "parse uc wall (''SDIFF'' # rest) = parse_sdiff rest"
  "parse uc wall (''SUNIONSTORE'' # rest) = parse_store ''SUNIONSTORE'' rest"
  "parse uc wall (''SINTERSTORE'' # rest) = parse_store ''SINTERSTORE'' rest"
  "parse uc wall (''SDIFFSTORE'' # rest) = parse_store ''SDIFFSTORE'' rest"
  "parse uc wall (''SPOP'' # rest) = parse_spop rest"
  "parse uc wall (''SRANDMEMBER'' # rest) = parse_srandmember rest"
  "parse uc wall (''SMOVE'' # rest) = parse_smove rest"
  by (rule parse_entry, simp add: parsers_def set_parsers_def)+

lemma zset_dispatch:
  "parse uc wall (''ZADD'' # rest) = parse_zadd uc rest"
  "parse uc wall (''ZREM'' # rest) = parse_zrem rest"
  "parse uc wall (''ZSCORE'' # rest) = parse_zscore rest"
  "parse uc wall (''ZMSCORE'' # rest) = parse_zmscore rest"
  "parse uc wall (''ZINCRBY'' # rest) = parse_zincrby rest"
  "parse uc wall (''ZRANK'' # rest) = parse_zrank rest"
  "parse uc wall (''ZREVRANK'' # rest) = parse_zrevrank rest"
  "parse uc wall (''ZCARD'' # rest) = parse_zcard rest"
  "parse uc wall (''ZCOUNT'' # rest) = parse_zcount rest"
  "parse uc wall (''ZRANGE'' # rest) = parse_zrange uc rest"
  "parse uc wall (''ZRANGEBYSCORE'' # rest) = parse_zrangebyscore uc False rest"
  "parse uc wall (''ZREVRANGEBYSCORE'' # rest) = parse_zrangebyscore uc True rest"
  "parse uc wall (''ZREVRANGE'' # rest) = parse_zrevrange uc rest"
  "parse uc wall (''ZREMRANGEBYRANK'' # rest) = parse_zremrangebyrank rest"
  "parse uc wall (''ZREMRANGEBYSCORE'' # rest) = parse_zremrangebyscore rest"
  "parse uc wall (''ZPOPMIN'' # rest) = parse_zpop True rest"
  "parse uc wall (''ZPOPMAX'' # rest) = parse_zpop False rest"
  by (rule parse_entry, simp add: parsers_def zset_parsers_def)+

lemma script_dispatch:
  "parse uc wall (''EVAL'' # rest) = parse_eval False rest"
  "parse uc wall (''EVALSHA'' # rest) = parse_eval True rest"
  "parse uc wall (''SCRIPT'' # rest) = parse_script uc rest"
  by (rule parse_entry, simp add: parsers_def script_parsers_def)+

lemma lossy_valid [simp]: "utf8_valid s \<Longrightarrow> lossy s = s"
  by (rule from_utf8_lossy_valid)

lemma map_lossy_valid [simp]: "\<forall>s\<in>set ss. utf8_valid s \<Longrightarrow> map lossy ss = ss"
  by (simp add: map_idI)

lemma parse_i64_show_int [simp]: "in_i64 n \<Longrightarrow> parse_i64 (show_int n) cmd = Ok n"
  by (simp add: parse_i64_def from_utf8_def utf8_valid_ascii ascii_show_int parse_i64_show)

definition usize_arg :: "nat \<Rightarrow> bool" where
  "usize_arg n \<longleftrightarrow> in_i64 (int n)"

lemma usize_arg_simps [simp]: "usize_arg n \<Longrightarrow> in_i64 (int n)" "usize_arg n \<Longrightarrow> as_usize (int n) = n"
  by (simp_all add: usize_arg_def as_usize_id)

lemma parse_usize_show [simp]: "usize_arg n \<Longrightarrow> parse_usize (show_int (int n)) cmd = Ok n"
  by (simp add: parse_usize_def)

lemma chunk_pairs_concat [simp]:
  "\<forall>(k, v)\<in>set ps. utf8_valid k \<Longrightarrow> chunk_pairs (concat (map (\<lambda>(k, v). [k, v]) ps)) = Ok ps"
  by (induction ps) auto

lemma length_concat_pairs [simp]:
  "length (concat (map (\<lambda>(k, v). [k, v]) ps)) = 2 * length ps"
  by (induction ps) auto

text \<open>A text that reads as the number and is no option of \<open>ZADD\<close>.\<close>

definition float_text :: "(string \<Rightarrow> string) \<Rightarrow> (f64 \<Rightarrow> string) \<Rightarrow> f64 \<Rightarrow> bool" where
  "float_text uc ft x \<longleftrightarrow>
     parse_f64 (ft x) = Ok x \<and> upper uc (ft x) \<notin> {''NX'', ''XX'', ''GT'', ''LT'', ''CH''}"

subsection \<open>Requests\<close>

definition flag :: "bool \<Rightarrow> string \<Rightarrow> string list" where
  "flag b w = (if b then [w] else [])"

fun server_request :: "server_cmd \<Rightarrow> string list" where
  "server_request (Ping None) = [''PING'']"
| "server_request (Ping (Some m)) = [''PING'', m]"
| "server_request (Echo m) = [''ECHO'', m]"
| "server_request (Select n) = [''SELECT'', show_int (int n)]"
| "server_request Dbsize = [''DBSIZE'']"
| "server_request Flushdb = [''FLUSHDB'']"
| "server_request Flushall = [''FLUSHALL'']"
| "server_request Info = [''INFO'']"
| "server_request Quit = [''QUIT'']"

fun server_ok :: "server_cmd \<Rightarrow> bool" where
  "server_ok (Select n) \<longleftrightarrow> n < 16"
| "server_ok _ \<longleftrightarrow> True"

abbreviation "texts ss \<equiv> \<forall>s\<in>set ss. utf8_valid s"

text \<open>There is no request for \<open>ExpireAt\<close>.\<close>

fun key_request :: "key_cmd \<Rightarrow> string list" where
  "key_request (Del ks) = ''DEL'' # ks"
| "key_request (Exists ks) = ''EXISTS'' # ks"
| "key_request (Type k) = [''TYPE'', k]"
| "key_request (Rename a b) = [''RENAME'', a, b]"
| "key_request (Renamenx a b) = [''RENAMENX'', a, b]"
| "key_request (Expire k n) = [''EXPIRE'', k, show_int n]"
| "key_request (PExpire k n) = [''PEXPIRE'', k, show_int n]"
| "key_request (ExpireAt k n) = []"
| "key_request (PExpireAt k n) = [''PEXPIREAT'', k, show_int n]"
| "key_request (Ttl k) = [''TTL'', k]"
| "key_request (Pttl k) = [''PTTL'', k]"
| "key_request (Persist k) = [''PERSIST'', k]"
| "key_request (Keys p) = [''KEYS'', p]"
| "key_request Randomkey = [''RANDOMKEY'']"

fun key_ok :: "key_cmd \<Rightarrow> bool" where
  "key_ok (Del ks) \<longleftrightarrow> ks \<noteq> [] \<and> texts ks"
| "key_ok (Exists ks) \<longleftrightarrow> ks \<noteq> [] \<and> texts ks"
| "key_ok (Rename a b) \<longleftrightarrow> texts [a, b]"
| "key_ok (Renamenx a b) \<longleftrightarrow> texts [a, b]"
| "key_ok (Expire k n) \<longleftrightarrow> utf8_valid k \<and> in_i64 n"
| "key_ok (PExpire k n) \<longleftrightarrow> utf8_valid k \<and> in_i64 n"
| "key_ok (ExpireAt k n) \<longleftrightarrow> False"
| "key_ok (PExpireAt k n) \<longleftrightarrow> utf8_valid k \<and> in_i64 n"
| "key_ok (Type k) \<longleftrightarrow> utf8_valid k"
| "key_ok (Ttl k) \<longleftrightarrow> utf8_valid k"
| "key_ok (Pttl k) \<longleftrightarrow> utf8_valid k"
| "key_ok (Persist k) \<longleftrightarrow> utf8_valid k"
| "key_ok (Keys p) \<longleftrightarrow> utf8_valid p"
| "key_ok Randomkey \<longleftrightarrow> True"

text \<open>A time to live is written in milliseconds.\<close>

definition px_arg :: "nat option \<Rightarrow> string list" where
  "px_arg e = (case e of None \<Rightarrow> [] | Some t \<Rightarrow> [''PX'', show_int (int (as_millis t))])"

definition px_ok :: "nat \<Rightarrow> nat option \<Rightarrow> bool" where
  "px_ok least e =
     (case e of None \<Rightarrow> True
      | Some t \<Rightarrow> least \<le> as_millis t \<and> usize_arg (as_millis t) \<and> t = from_millis (as_millis t))"

fun string_request :: "(f64 \<Rightarrow> string) \<Rightarrow> string_cmd \<Rightarrow> string list" where
  "string_request ft (CSet a) =
     [''SET'', sa_key a, sa_value a] @ px_arg (sa_expire a) @ flag (sa_nx a) ''NX'' @ flag (sa_xx a) ''XX'' @
     flag (sa_get a) ''GET'' @ flag (sa_keepttl a) ''KEEPTTL''"
| "string_request ft (Get k) = [''GET'', k]"
| "string_request ft (GetSet k v) = [''GETSET'', k, v]"
| "string_request ft (GetDel k) = [''GETDEL'', k]"
| "string_request ft (GetEx a) = [''GETEX'', ga_key a] @ px_arg (ga_expire a) @ flag (ga_persist a) ''PERSIST''"
| "string_request ft (Mset ps) = ''MSET'' # concat (map (\<lambda>(k, v). [k, v]) ps)"
| "string_request ft (Mget ks) = ''MGET'' # ks"
| "string_request ft (Msetnx ps) = ''MSETNX'' # concat (map (\<lambda>(k, v). [k, v]) ps)"
| "string_request ft (Setnx k v) = [''SETNX'', k, v]"
| "string_request ft (Setex k n v) = [''SETEX'', k, show_int n, v]"
| "string_request ft (PSetex k n v) = [''PSETEX'', k, show_int n, v]"
| "string_request ft (Incr k) = [''INCR'', k]"
| "string_request ft (IncrBy k n) = [''INCRBY'', k, show_int n]"
| "string_request ft (IncrByFloat k x) = [''INCRBYFLOAT'', k, ft x]"
| "string_request ft (Decr k) = [''DECR'', k]"
| "string_request ft (DecrBy k n) = [''DECRBY'', k, show_int n]"
| "string_request ft (CAppend k v) = [''APPEND'', k, v]"
| "string_request ft (Strlen k) = [''STRLEN'', k]"
| "string_request ft (GetRange k a b) = [''GETRANGE'', k, show_int a, show_int b]"
| "string_request ft (SetRange k n v) = [''SETRANGE'', k, show_int (int n), v]"

fun string_ok :: "(string \<Rightarrow> string) \<Rightarrow> (f64 \<Rightarrow> string) \<Rightarrow> string_cmd \<Rightarrow> bool" where
  "string_ok uc ft (CSet a) \<longleftrightarrow> utf8_valid (sa_key a) \<and> px_ok 1 (sa_expire a) \<and> \<not> (sa_nx a \<and> sa_xx a)"
| "string_ok uc ft (Get k) \<longleftrightarrow> utf8_valid k"
| "string_ok uc ft (GetSet k v) \<longleftrightarrow> utf8_valid k"
| "string_ok uc ft (GetDel k) \<longleftrightarrow> utf8_valid k"
| "string_ok uc ft (GetEx a) \<longleftrightarrow> utf8_valid (ga_key a) \<and> px_ok 0 (ga_expire a)"
| "string_ok uc ft (Mset ps) \<longleftrightarrow> ps \<noteq> [] \<and> (\<forall>(k, v)\<in>set ps. utf8_valid k)"
| "string_ok uc ft (Mget ks) \<longleftrightarrow> ks \<noteq> [] \<and> texts ks"
| "string_ok uc ft (Msetnx ps) \<longleftrightarrow> ps \<noteq> [] \<and> (\<forall>(k, v)\<in>set ps. utf8_valid k)"
| "string_ok uc ft (Setnx k v) \<longleftrightarrow> utf8_valid k"
| "string_ok uc ft (Setex k n v) \<longleftrightarrow> utf8_valid k \<and> in_i64 n \<and> 0 < n"
| "string_ok uc ft (PSetex k n v) \<longleftrightarrow> utf8_valid k \<and> in_i64 n \<and> 0 < n"
| "string_ok uc ft (Incr k) \<longleftrightarrow> utf8_valid k"
| "string_ok uc ft (IncrBy k n) \<longleftrightarrow> utf8_valid k \<and> in_i64 n"
| "string_ok uc ft (IncrByFloat k x) \<longleftrightarrow> utf8_valid k \<and> float_text uc ft x"
| "string_ok uc ft (Decr k) \<longleftrightarrow> utf8_valid k"
| "string_ok uc ft (DecrBy k n) \<longleftrightarrow> utf8_valid k \<and> in_i64 n"
| "string_ok uc ft (CAppend k v) \<longleftrightarrow> utf8_valid k"
| "string_ok uc ft (Strlen k) \<longleftrightarrow> utf8_valid k"
| "string_ok uc ft (GetRange k a b) \<longleftrightarrow> utf8_valid k \<and> in_i64 a \<and> in_i64 b"
| "string_ok uc ft (SetRange k n v) \<longleftrightarrow> utf8_valid k \<and> usize_arg n"

lemmas arity_simps =
  one_arg_def two_args_def three_args_def key_and_more_def some_keys_def key_and_count_def two_ints_def
  key_and_pairs_def range_and_options_def flag_def

lemma server_parse: "server_ok c \<Longrightarrow> parse uc wall (server_request c) = Ok (Server c)"
proof (cases c rule: server_request.cases)
  case (4 n)
  assume "server_ok c"
  then have "usize_arg n" "n < 16" using 4 by (simp_all add: usize_arg_def in_i64_def i64_min_def i64_max_def)
  then show ?thesis using 4 by (simp add: server_dispatch name_simps parse_select_def)
qed (simp_all add: server_dispatch name_simps parse_ping_def parse_echo_def)

lemma key_parse: "key_ok c \<Longrightarrow> parse uc wall (key_request c) = Ok (OnKey c)"
  by (cases c)
     (auto simp: key_dispatch name_simps arity_simps parse_del_def parse_exists_def parse_type_def
       parse_rename_def parse_expire_def parse_pexpire_def parse_pexpireat_def parse_ttl_def parse_persist_def
       parse_keys_def)

lemma set_options_px:
  "px_ok 1 e \<Longrightarrow>
   set_options uc wall (px_arg e @ rest) a =
     set_options uc wall rest (case e of None \<Rightarrow> a | Some t \<Rightarrow> a\<lparr>sa_expire := Some t\<rparr>)"
  by (auto simp: px_ok_def px_arg_def name_simps split: option.splits)

lemma getex_options_px:
  "px_ok 0 e \<Longrightarrow>
   getex_options uc (px_arg e @ rest) a =
     getex_options uc rest (case e of None \<Rightarrow> a | Some t \<Rightarrow> a\<lparr>ga_expire := Some t\<rparr>)"
  by (auto simp: px_ok_def px_arg_def name_simps split: option.splits)

lemma set_options_flags:
  "set_options uc wall (flag nx ''NX'' @ flag xx ''XX'' @ flag get ''GET'' @ flag kt ''KEEPTTL'') a =
   Ok (a\<lparr>sa_nx := nx \<or> sa_nx a, sa_xx := xx \<or> sa_xx a, sa_get := get \<or> sa_get a, sa_keepttl := kt \<or> sa_keepttl a\<rparr>)"
  by (simp add: flag_def name_simps)

lemma string_parse: "string_ok uc ft c \<Longrightarrow> parse uc wall (string_request ft c) = Ok (OnStr c)"
proof (cases c)
  case (CSet a)
  assume "string_ok uc ft c"
  then show ?thesis
    using CSet by (cases a; cases "sa_expire a")
      (simp_all add: string_dispatch name_simps parse_set_def set_options_px set_options_flags)
next
  case (GetEx a)
  assume "string_ok uc ft c"
  then show ?thesis
    using GetEx by (cases a; cases "ga_expire a")
      (simp_all add: string_dispatch name_simps parse_getex_def getex_options_px flag_def)
next
  case (Mset ps)
  assume "string_ok uc ft c"
  then show ?thesis using Mset by (cases ps) (auto simp: string_dispatch name_simps parse_mset_def)
next
  case (Msetnx ps)
  assume "string_ok uc ft c"
  then show ?thesis using Msetnx by (cases ps) (auto simp: string_dispatch name_simps parse_msetnx_def)
qed (auto simp: string_dispatch name_simps arity_simps parse_get_def parse_getset_def parse_getdel_def
       parse_mget_def parse_setnx_def parse_setex_def parse_psetex_def parse_incr_def parse_incrby_def
       parse_incrbyfloat_def parse_decr_def parse_decrby_def parse_append_def parse_strlen_def
       parse_getrange_def parse_setrange_def float_text_def)

subsection \<open>Lists and hashes\<close>

fun list_request :: "list_cmd \<Rightarrow> string list" where
  "list_request (LPush k vs) = ''LPUSH'' # k # vs"
| "list_request (RPush k vs) = ''RPUSH'' # k # vs"
| "list_request (LPushX k vs) = ''LPUSHX'' # k # vs"
| "list_request (RPushX k vs) = ''RPUSHX'' # k # vs"
| "list_request (LPop k n) = [''LPOP'', k, show_int (int n)]"
| "list_request (RPop k n) = [''RPOP'', k, show_int (int n)]"
| "list_request (LLen k) = [''LLEN'', k]"
| "list_request (LRange k a b) = [''LRANGE'', k, show_int a, show_int b]"
| "list_request (LIndex k n) = [''LINDEX'', k, show_int n]"
| "list_request (LSet k n v) = [''LSET'', k, show_int n, v]"
| "list_request (LInsert k before p v) = [''LINSERT'', k, if before then ''BEFORE'' else ''AFTER'', p, v]"
| "list_request (LRem k n v) = [''LREM'', k, show_int n, v]"
| "list_request (LTrim k a b) = [''LTRIM'', k, show_int a, show_int b]"
| "list_request (LMove a b x y) =
     [''LMOVE'', a, b, if x then ''LEFT'' else ''RIGHT'', if y then ''LEFT'' else ''RIGHT'']"

fun list_ok :: "list_cmd \<Rightarrow> bool" where
  "list_ok (LPush k vs) \<longleftrightarrow> utf8_valid k \<and> vs \<noteq> []"
| "list_ok (RPush k vs) \<longleftrightarrow> utf8_valid k \<and> vs \<noteq> []"
| "list_ok (LPushX k vs) \<longleftrightarrow> utf8_valid k \<and> vs \<noteq> []"
| "list_ok (RPushX k vs) \<longleftrightarrow> utf8_valid k \<and> vs \<noteq> []"
| "list_ok (LPop k n) \<longleftrightarrow> utf8_valid k \<and> usize_arg n"
| "list_ok (RPop k n) \<longleftrightarrow> utf8_valid k \<and> usize_arg n"
| "list_ok (LLen k) \<longleftrightarrow> utf8_valid k"
| "list_ok (LRange k a b) \<longleftrightarrow> utf8_valid k \<and> in_i64 a \<and> in_i64 b"
| "list_ok (LIndex k n) \<longleftrightarrow> utf8_valid k \<and> in_i64 n"
| "list_ok (LSet k n v) \<longleftrightarrow> utf8_valid k \<and> in_i64 n"
| "list_ok (LInsert k b p v) \<longleftrightarrow> utf8_valid k"
| "list_ok (LRem k n v) \<longleftrightarrow> utf8_valid k \<and> in_i64 n"
| "list_ok (LTrim k a b) \<longleftrightarrow> utf8_valid k \<and> in_i64 a \<and> in_i64 b"
| "list_ok (LMove a b x y) \<longleftrightarrow> texts [a, b]"

lemma list_parse: "list_ok c \<Longrightarrow> parse uc wall (list_request c) = Ok (OnList c)"
  by (cases c)
     (auto simp: list_dispatch name_simps arity_simps parse_push_def parse_pop_def parse_llen_def
       parse_lrange_def parse_lindex_def parse_lset_def parse_linsert_def parse_lrem_def parse_ltrim_def
       parse_lmove_def left_right_def neq_Nil_conv)

fun hash_request :: "(f64 \<Rightarrow> string) \<Rightarrow> hash_cmd \<Rightarrow> string list" where
  "hash_request ft (HSet k ps) = ''HSET'' # k # concat (map (\<lambda>(f, v). [f, v]) ps)"
| "hash_request ft (HSetnx k f v) = [''HSETNX'', k, f, v]"
| "hash_request ft (HGet k f) = [''HGET'', k, f]"
| "hash_request ft (HMGet k fs) = ''HMGET'' # k # fs"
| "hash_request ft (HMSet k ps) = ''HMSET'' # k # concat (map (\<lambda>(f, v). [f, v]) ps)"
| "hash_request ft (HDel k fs) = ''HDEL'' # k # fs"
| "hash_request ft (HExists k f) = [''HEXISTS'', k, f]"
| "hash_request ft (HGetAll k) = [''HGETALL'', k]"
| "hash_request ft (HKeys k) = [''HKEYS'', k]"
| "hash_request ft (HVals k) = [''HVALS'', k]"
| "hash_request ft (HLen k) = [''HLEN'', k]"
| "hash_request ft (HIncrBy k f n) = [''HINCRBY'', k, f, show_int n]"
| "hash_request ft (HIncrByFloat k f x) = [''HINCRBYFLOAT'', k, f, ft x]"

fun hash_ok :: "(string \<Rightarrow> string) \<Rightarrow> (f64 \<Rightarrow> string) \<Rightarrow> hash_cmd \<Rightarrow> bool" where
  "hash_ok uc ft (HSet k ps) \<longleftrightarrow> utf8_valid k \<and> ps \<noteq> [] \<and> (\<forall>(f, v)\<in>set ps. utf8_valid f)"
| "hash_ok uc ft (HSetnx k f v) \<longleftrightarrow> texts [k, f]"
| "hash_ok uc ft (HGet k f) \<longleftrightarrow> texts [k, f]"
| "hash_ok uc ft (HMGet k fs) \<longleftrightarrow> fs \<noteq> [] \<and> texts (k # fs)"
| "hash_ok uc ft (HMSet k ps) \<longleftrightarrow> utf8_valid k \<and> ps \<noteq> [] \<and> (\<forall>(f, v)\<in>set ps. utf8_valid f)"
| "hash_ok uc ft (HDel k fs) \<longleftrightarrow> fs \<noteq> [] \<and> texts (k # fs)"
| "hash_ok uc ft (HExists k f) \<longleftrightarrow> texts [k, f]"
| "hash_ok uc ft (HGetAll k) \<longleftrightarrow> utf8_valid k"
| "hash_ok uc ft (HKeys k) \<longleftrightarrow> utf8_valid k"
| "hash_ok uc ft (HVals k) \<longleftrightarrow> utf8_valid k"
| "hash_ok uc ft (HLen k) \<longleftrightarrow> utf8_valid k"
| "hash_ok uc ft (HIncrBy k f n) \<longleftrightarrow> texts [k, f] \<and> in_i64 n"
| "hash_ok uc ft (HIncrByFloat k f x) \<longleftrightarrow> texts [k, f] \<and> float_text uc ft x"

lemma hash_parse: "hash_ok uc ft c \<Longrightarrow> parse uc wall (hash_request ft c) = Ok (OnHash c)"
proof (cases c)
  case (HSet k ps)
  assume "hash_ok uc ft c"
  then show ?thesis
    using HSet by (cases ps) (auto simp: hash_dispatch name_simps parse_hset_def key_and_pairs_def)
next
  case (HMSet k ps)
  assume "hash_ok uc ft c"
  then show ?thesis
    using HMSet by (cases ps) (auto simp: hash_dispatch name_simps parse_hmset_def key_and_pairs_def)
qed (auto simp: hash_dispatch name_simps arity_simps parse_hsetnx_def parse_hget_def parse_hmget_def
       parse_hdel_def parse_hexists_def parse_hgetall_def parse_hkeys_def parse_hvals_def parse_hlen_def
       parse_hincrby_def parse_hincrbyfloat_def float_text_def neq_Nil_conv)

subsection \<open>Sets and sorted sets\<close>

fun set_request :: "set_cmd \<Rightarrow> string list" where
  "set_request (SAdd k ms) = ''SADD'' # k # ms"
| "set_request (SRem k ms) = ''SREM'' # k # ms"
| "set_request (SMembers k) = [''SMEMBERS'', k]"
| "set_request (SIsMember k m) = [''SISMEMBER'', k, m]"
| "set_request (SMIsMember k ms) = ''SMISMEMBER'' # k # ms"
| "set_request (SCard k) = [''SCARD'', k]"
| "set_request (SUnion ks) = ''SUNION'' # ks"
| "set_request (SInter ks) = ''SINTER'' # ks"
| "set_request (SDiff ks) = ''SDIFF'' # ks"
| "set_request (SUnionStore d ks) = ''SUNIONSTORE'' # d # ks"
| "set_request (SInterStore d ks) = ''SINTERSTORE'' # d # ks"
| "set_request (SDiffStore d ks) = ''SDIFFSTORE'' # d # ks"
| "set_request (SPop k n) = [''SPOP'', k, show_int (int n)]"
| "set_request (SRandMember k n) = [''SRANDMEMBER'', k, show_int n]"
| "set_request (SMove a b m) = [''SMOVE'', a, b, m]"

fun set_ok :: "set_cmd \<Rightarrow> bool" where
  "set_ok (SAdd k ms) \<longleftrightarrow> ms \<noteq> [] \<and> texts (k # ms)"
| "set_ok (SRem k ms) \<longleftrightarrow> ms \<noteq> [] \<and> texts (k # ms)"
| "set_ok (SMembers k) \<longleftrightarrow> utf8_valid k"
| "set_ok (SIsMember k m) \<longleftrightarrow> texts [k, m]"
| "set_ok (SMIsMember k ms) \<longleftrightarrow> ms \<noteq> [] \<and> texts (k # ms)"
| "set_ok (SCard k) \<longleftrightarrow> utf8_valid k"
| "set_ok (SUnion ks) \<longleftrightarrow> ks \<noteq> [] \<and> texts ks"
| "set_ok (SInter ks) \<longleftrightarrow> ks \<noteq> [] \<and> texts ks"
| "set_ok (SDiff ks) \<longleftrightarrow> ks \<noteq> [] \<and> texts ks"
| "set_ok (SUnionStore d ks) \<longleftrightarrow> ks \<noteq> [] \<and> texts (d # ks)"
| "set_ok (SInterStore d ks) \<longleftrightarrow> ks \<noteq> [] \<and> texts (d # ks)"
| "set_ok (SDiffStore d ks) \<longleftrightarrow> ks \<noteq> [] \<and> texts (d # ks)"
| "set_ok (SPop k n) \<longleftrightarrow> utf8_valid k \<and> usize_arg n"
| "set_ok (SRandMember k n) \<longleftrightarrow> utf8_valid k \<and> in_i64 n"
| "set_ok (SMove a b m) \<longleftrightarrow> texts [a, b, m]"

lemma set_parse: "set_ok c \<Longrightarrow> parse uc wall (set_request c) = Ok (OnSet c)"
  by (cases c)
     (auto simp: set_dispatch name_simps arity_simps parse_sadd_def parse_srem_def
       parse_smembers_def parse_sismember_def parse_smismember_def parse_scard_def parse_sunion_def
       parse_sinter_def parse_sdiff_def parse_store_def parse_spop_def parse_srandmember_def parse_smove_def
       neq_Nil_conv)

text \<open>The options of \<open>ZRANGEBYSCORE\<close>; \<open>LIMIT\<close> with a negative count has no bound.\<close>

definition range_opts :: "zrange_by_score_args \<Rightarrow> string list" where
  "range_opts z =
     flag (zr_withscores z) ''WITHSCORES'' @
     [''LIMIT'', show_int (int (zr_offset z)), show_int (case zr_count z of None \<Rightarrow> - 1 | Some n \<Rightarrow> int n)]"

definition bounds_ok :: "zrange_by_score_args \<Rightarrow> bool" where
  "bounds_ok z \<longleftrightarrow>
     texts [zr_key z, zr_min z, zr_max z] \<and> usize_arg (zr_offset z) \<and>
     (case zr_count z of None \<Rightarrow> True | Some n \<Rightarrow> usize_arg n)"

fun zset_request :: "(f64 \<Rightarrow> string) \<Rightarrow> zset_cmd \<Rightarrow> string list" where
  "zset_request ft (ZAdd a) =
     ''ZADD'' # za_key a # flag (za_nx a) ''NX'' @ flag (za_xx a) ''XX'' @ flag (za_gt a) ''GT'' @ flag (za_lt a) ''LT'' @
     flag (za_ch a) ''CH'' @ concat (map (\<lambda>(x, m). [ft x, m]) (za_members a))"
| "zset_request ft (ZRem k ms) = ''ZREM'' # k # ms"
| "zset_request ft (ZScore k m) = [''ZSCORE'', k, m]"
| "zset_request ft (ZMScore k ms) = ''ZMSCORE'' # k # ms"
| "zset_request ft (ZIncrBy k x m) = [''ZINCRBY'', k, ft x, m]"
| "zset_request ft (ZRank k m) = [''ZRANK'', k, m]"
| "zset_request ft (ZRevRank k m) = [''ZREVRANK'', k, m]"
| "zset_request ft (ZCard k) = [''ZCARD'', k]"
| "zset_request ft (ZCount k lo hi) = [''ZCOUNT'', k, lo, hi]"
| "zset_request ft (ZRange k a b rv ws) =
     [''ZRANGE'', k, show_int a, show_int b] @ flag rv ''REV'' @ flag ws ''WITHSCORES''"
| "zset_request ft (ZRangeByScore z) = ''ZRANGEBYSCORE'' # zr_key z # zr_min z # zr_max z # range_opts z"
| "zset_request ft (ZRevRangeByScore z) = ''ZREVRANGEBYSCORE'' # zr_key z # zr_max z # zr_min z # range_opts z"
| "zset_request ft (ZRevRange k a b ws) = [''ZREVRANGE'', k, show_int a, show_int b] @ flag ws ''WITHSCORES''"
| "zset_request ft (ZRemRangeByRank k a b) = [''ZREMRANGEBYRANK'', k, show_int a, show_int b]"
| "zset_request ft (ZRemRangeByScore k lo hi) = [''ZREMRANGEBYSCORE'', k, lo, hi]"
| "zset_request ft (ZPopMin k n) = [''ZPOPMIN'', k, show_int (int n)]"
| "zset_request ft (ZPopMax k n) = [''ZPOPMAX'', k, show_int (int n)]"

fun zset_ok :: "(string \<Rightarrow> string) \<Rightarrow> (f64 \<Rightarrow> string) \<Rightarrow> zset_cmd \<Rightarrow> bool" where
  "zset_ok uc ft (ZAdd a) \<longleftrightarrow>
     utf8_valid (za_key a) \<and> za_members a \<noteq> [] \<and> \<not> (za_nx a \<and> za_xx a) \<and> \<not> (za_gt a \<and> za_lt a) \<and>
     (\<forall>(x, m)\<in>set (za_members a). float_text uc ft x \<and> utf8_valid m)"
| "zset_ok uc ft (ZRem k ms) \<longleftrightarrow> ms \<noteq> [] \<and> texts (k # ms)"
| "zset_ok uc ft (ZScore k m) \<longleftrightarrow> texts [k, m]"
| "zset_ok uc ft (ZMScore k ms) \<longleftrightarrow> ms \<noteq> [] \<and> texts (k # ms)"
| "zset_ok uc ft (ZIncrBy k x m) \<longleftrightarrow> texts [k, m] \<and> float_text uc ft x"
| "zset_ok uc ft (ZRank k m) \<longleftrightarrow> texts [k, m]"
| "zset_ok uc ft (ZRevRank k m) \<longleftrightarrow> texts [k, m]"
| "zset_ok uc ft (ZCard k) \<longleftrightarrow> utf8_valid k"
| "zset_ok uc ft (ZCount k lo hi) \<longleftrightarrow> texts [k, lo, hi]"
| "zset_ok uc ft (ZRange k a b rv ws) \<longleftrightarrow> utf8_valid k \<and> in_i64 a \<and> in_i64 b"
| "zset_ok uc ft (ZRangeByScore z) \<longleftrightarrow> bounds_ok z \<and> \<not> zr_rev z"
| "zset_ok uc ft (ZRevRangeByScore z) \<longleftrightarrow> bounds_ok z \<and> zr_rev z"
| "zset_ok uc ft (ZRevRange k a b ws) \<longleftrightarrow> utf8_valid k \<and> in_i64 a \<and> in_i64 b"
| "zset_ok uc ft (ZRemRangeByRank k a b) \<longleftrightarrow> utf8_valid k \<and> in_i64 a \<and> in_i64 b"
| "zset_ok uc ft (ZRemRangeByScore k lo hi) \<longleftrightarrow> texts [k, lo, hi]"
| "zset_ok uc ft (ZPopMin k n) \<longleftrightarrow> utf8_valid k \<and> usize_arg n"
| "zset_ok uc ft (ZPopMax k n) \<longleftrightarrow> utf8_valid k \<and> usize_arg n"

lemma zadd_flags_request:
  "zadd_flags uc (flag nx ''NX'' @ flag xx ''XX'' @ flag gt ''GT'' @ flag lt ''LT'' @ flag ch ''CH'' @ rest) a =
   zadd_flags uc rest (a\<lparr>za_nx := nx \<or> za_nx a, za_xx := xx \<or> za_xx a, za_gt := gt \<or> za_gt a,
     za_lt := lt \<or> za_lt a, za_ch := ch \<or> za_ch a\<rparr>)"
  by (simp add: flag_def name_simps)

lemma score_pairs_request:
  "\<forall>(x, m)\<in>set ms. float_text uc ft x \<and> utf8_valid m \<Longrightarrow>
   score_pairs (concat (map (\<lambda>(x, m). [ft x, m]) ms)) = Ok ms"
  by (induction ms) (auto simp: float_text_def)

lemma zadd_flags_stop:
  "\<forall>(x, m)\<in>set ms. float_text uc ft x \<and> utf8_valid m \<Longrightarrow>
   zadd_flags uc (concat (map (\<lambda>(x, m). [ft x, m]) ms)) a = (a, concat (map (\<lambda>(x, m). [ft x, m]) ms))"
  by (cases ms) (auto simp: float_text_def)

lemma length_score_pairs: "length (concat (map (\<lambda>(x, m). [ft x, m]) ms)) = 2 * length ms"
  by (induction ms) auto

lemma in_i64_minus_one: "in_i64 (- 1)"
  by (simp add: in_i64_def i64_min_def i64_max_def)

lemma range_opts_read:
  "bounds_ok z \<Longrightarrow>
   range_options uc (range_opts z) (z\<lparr>zr_withscores := False, zr_offset := 0, zr_count := None\<rparr>) = Ok z"
  by (cases z) (auto simp: range_opts_def bounds_ok_def flag_def name_simps in_i64_minus_one
      split: option.splits)

lemma zset_parse: "zset_ok uc ft c \<Longrightarrow> parse uc wall (zset_request ft c) = Ok (OnZSet c)"
proof (cases c)
  case (ZAdd a)
  assume ok: "zset_ok uc ft c"
  obtain n where "length (za_members a) = Suc n" using ok ZAdd by (cases "za_members a") auto
  then show ?thesis
    using ok ZAdd by (cases a) (auto simp: zset_dispatch parse_zadd_def zadd_flags_request zadd_flags_stop
        length_score_pairs score_pairs_request [where uc = uc])
next
  case (ZRangeByScore z)
  assume "zset_ok uc ft c"
  then show ?thesis
    using ZRangeByScore range_opts_read [of z uc]
    by (cases z) (simp add: zset_dispatch parse_zrangebyscore_def bounds_ok_def)
next
  case (ZRevRangeByScore z)
  assume "zset_ok uc ft c"
  then show ?thesis
    using ZRevRangeByScore range_opts_read [of z uc]
    by (cases z) (simp add: zset_dispatch parse_zrangebyscore_def bounds_ok_def)
qed (auto simp: zset_dispatch name_simps arity_simps parse_zrem_def parse_zscore_def parse_zmscore_def
       parse_zincrby_def parse_zrank_def parse_zrevrank_def parse_zcard_def parse_zcount_def parse_zrange_def
       parse_zrevrange_def parse_zremrangebyrank_def parse_zremrangebyscore_def parse_zpop_def float_text_def
       neq_Nil_conv)

subsection \<open>Scripts, and all commands\<close>

fun script_request :: "script_cmd \<Rightarrow> string list" where
  "script_request (Eval s n ks as) = [''EVAL'', s, show_int (int n)] @ ks @ as"
| "script_request (EvalSha s n ks as) = [''EVALSHA'', s, show_int (int n)] @ ks @ as"
| "script_request (ScriptLoad s) = [''SCRIPT'', ''LOAD'', s]"
| "script_request ScriptFlush = [''SCRIPT'', ''FLUSH'']"

fun script_ok :: "script_cmd \<Rightarrow> bool" where
  "script_ok (Eval s n ks as) \<longleftrightarrow> n = length ks \<and> usize_arg n"
| "script_ok (EvalSha s n ks as) \<longleftrightarrow> n = length ks \<and> usize_arg n"
| "script_ok _ \<longleftrightarrow> True"

lemma script_parse: "script_ok c \<Longrightarrow> parse uc wall (script_request c) = Ok (Scripting c)"
  by (cases c) (auto simp: script_dispatch name_simps parse_eval_def parse_script_def)

fun request :: "(f64 \<Rightarrow> string) \<Rightarrow> command \<Rightarrow> string list" where
  "request ft (Server c) = server_request c"
| "request ft (OnKey c) = key_request c"
| "request ft (OnStr c) = string_request ft c"
| "request ft (OnList c) = list_request c"
| "request ft (OnHash c) = hash_request ft c"
| "request ft (OnSet c) = set_request c"
| "request ft (OnZSet c) = zset_request ft c"
| "request ft (Scripting c) = script_request c"

fun request_ok :: "(string \<Rightarrow> string) \<Rightarrow> (f64 \<Rightarrow> string) \<Rightarrow> command \<Rightarrow> bool" where
  "request_ok uc ft (Server c) = server_ok c"
| "request_ok uc ft (OnKey c) = key_ok c"
| "request_ok uc ft (OnStr c) = string_ok uc ft c"
| "request_ok uc ft (OnList c) = list_ok c"
| "request_ok uc ft (OnHash c) = hash_ok uc ft c"
| "request_ok uc ft (OnSet c) = set_ok c"
| "request_ok uc ft (OnZSet c) = zset_ok uc ft c"
| "request_ok uc ft (Scripting c) = script_ok c"

text \<open>C17: Every command has a request that the parser reads back as exactly this command, with all its
  options, whatever the clock: keys and members that are valid UTF-8, integers of 64 bits, at least
  one element where the command wants some, a time to live in whole milliseconds, and a writer of
  floating point numbers that the parser inverts.  The only command without a request is
  \<open>ExpireAt\<close>.\<close>
theorem parse_request:
  assumes "request_ok uc ft c"
  shows "parse uc wall (request ft c) = Ok c"
  using assms
  by (cases c) (simp_all add: server_parse key_parse string_parse list_parse hash_parse set_parse zset_parse
      script_parse)

theorem parse_request_witness:
  "parse id 0 [''SET'', ''k'', ''v'', ''PX'', ''1500'', ''XX''] =
     Ok (OnStr (CSet \<lparr>sa_key = ''k'', sa_value = ''v'', sa_expire = Some 1500000000, sa_nx = False,
       sa_xx = True, sa_get = False, sa_keepttl = False\<rparr>))"
proof -
  have v: "utf8_valid ''k''" by (rule utf8_valid_ascii) (simp add: ascii_def byte_of_def)
  have t: "show_int 1500 = ''1500''" by (simp add: show_int_def show_nat.simps chr_def char_of_def bit_Suc_0_iff)
  show ?thesis
    using parse_request [of id "\<lambda>_. []" "OnStr (CSet \<lparr>sa_key = ''k'', sa_value = ''v'', sa_expire = Some 1500000000,
       sa_nx = False, sa_xx = True, sa_get = False, sa_keepttl = False\<rparr>)" 0]
    by (simp add: v t px_ok_def px_arg_def flag_def as_millis_def from_millis_def usize_arg_def in_i64_def
        i64_min_def i64_max_def)
qed

text \<open>\<open>EXPIREAT\<close> is read as \<open>EXPIRE\<close>: the absolute time becomes a time to live.\<close>

lemma expireat_is_expire: "parse uc wall (''EXPIREAT'' # args) = parse uc wall (''EXPIRE'' # args)"
  by (simp add: key_dispatch parse_expire_def)

subsection \<open>Parsers that panic\<close>

lemma map_res_Panic [simp]: "map_res f r = Panic \<longleftrightarrow> r = Panic"
  by (cases r) auto

lemma bind_res_Panic: "bind_res r f = Panic \<longleftrightarrow> r = Panic \<or> (\<exists>x. r = Ok x \<and> f x = Panic)"
  by (cases r) auto

lemma numbers_no_panic [simp]: "parse_i64 b cmd \<noteq> Panic" "parse_usize b cmd \<noteq> Panic" "parse_f64 b \<noteq> Panic"
  by (auto simp: parse_i64_def parse_usize_def parse_f64_def bind_res_Panic split: option.splits)

lemma chunk_pairs_no_panic: "even (length args) \<Longrightarrow> chunk_pairs args \<noteq> Panic"
  by (induction args rule: chunk_pairs.induct) auto

lemma score_pairs_no_panic [simp]: "score_pairs args \<noteq> Panic"
  by (induction args rule: score_pairs.induct) (auto simp: bind_res_Panic)

lemma left_right_no_panic [simp]: "left_right w \<noteq> Panic"
  by (simp add: left_right_def)

lemma shapes_no_panic [simp]:
  "one_arg name c args \<noteq> Panic" "some_keys name c' args \<noteq> Panic" "key_and_more name c'' args \<noteq> Panic"
  "key_and_pairs name c''' args \<noteq> Panic"
  by (auto simp: one_arg_def some_keys_def key_and_more_def key_and_pairs_def chunk_pairs_no_panic split: list.splits)

lemma shapes_Panic:
  "two_args name f args = Panic \<Longrightarrow> \<exists>a b. f a b = Panic"
  "three_args name g args = Panic \<Longrightarrow> \<exists>a b d. g a b d = Panic"
  "key_and_count name num dflt c args = Panic \<Longrightarrow> \<exists>n. num n = Panic"
  by (auto simp: two_args_def three_args_def key_and_count_def split: list.splits)

lemma two_ints_no_panic [simp]: "two_ints name c k a b \<noteq> Panic" "range_and_options name c' args \<noteq> Panic"
  by (auto simp: two_ints_def range_and_options_def bind_res_Panic split: list.splits)

text \<open>What a request lacks when its parser panics: an operand of its last option.\<close>

definition cut_option :: "(string \<Rightarrow> bool) \<Rightarrow> nat \<Rightarrow> string list \<Rightarrow> bool" where
  "cut_option P w opts \<longleftrightarrow> (\<exists>pre b post. opts = pre @ b # post \<and> length post < w \<and> P b)"

lemma cut_option_drop: "cut_option P w (drop k opts) \<Longrightarrow> cut_option P w (x # opts)"
  unfolding cut_option_def by (metis append.assoc append_Cons append_take_drop_id)

lemma cut_option_Cons: "cut_option P w opts \<Longrightarrow> cut_option P w (x # opts)"
  using cut_option_drop [of P w 0 opts x] by simp

text \<open>A loop over options panics only at an option whose operands are cut off.\<close>

lemma option_loop:
  assumes turn: "\<And>b rest a. loop (b # rest) a = Panic \<Longrightarrow>
      length rest < w \<and> P b \<or> (\<exists>k a'. loop (drop k rest) a' = Panic)"
    and stop: "\<And>a. loop [] a \<noteq> Panic"
  shows "loop opts a = Panic \<Longrightarrow> cut_option P w opts"
proof (induction opts arbitrary: a rule: length_induct)
  case (1 opts)
  obtain b rest where opts: "opts = b # rest" using "1.prems" stop by (cases opts) auto
  consider "length rest < w" "P b" | k a' where "loop (drop k rest) a' = Panic"
    using turn "1.prems" unfolding opts by blast
  then show ?case
  proof cases
    case 1
    then show ?thesis unfolding opts cut_option_def by blast
  next
    case 2
    moreover have "length (drop k rest) < length opts" by (simp add: opts)
    ultimately have "cut_option P w (drop k rest)" using "1.IH" by blast
    then show ?thesis unfolding opts by (rule cut_option_drop)
  qed
qed

lemma drop_panics:
  "loop rest a = Panic \<Longrightarrow> \<exists>k a'. loop (drop k rest) a' = Panic"
  "loop others a = Panic \<Longrightarrow> \<exists>k a'. loop (drop k (v # others)) a' = Panic"
  "loop others a = Panic \<Longrightarrow> \<exists>k a'. loop (drop k (v # v' # others)) a' = Panic"
  by (rule exI [of _ 0], auto) (rule exI [of _ 1], auto, rule exI [of _ 2], auto)

lemma set_options_Panic:
  "set_options uc wall opts a = Panic \<Longrightarrow> cut_option (\<lambda>b. upper uc b \<in> {''EX'', ''PX'', ''EXAT'', ''PXAT''}) 1 opts"
proof (rule option_loop [where loop = "set_options uc wall"])
  fix b rest a assume "set_options uc wall (b # rest) a = Panic"
  then show "length rest < 1 \<and> upper uc b \<in> {''EX'', ''PX'', ''EXAT'', ''PXAT''} \<or>
      (\<exists>k a'. set_options uc wall (drop k rest) a' = Panic)"
    unfolding set_options.simps(2) Let_def
    by (auto simp: bind_res_Panic simp del: set_options.simps split: if_split_asm list.split_asm intro: drop_panics)
qed simp_all

lemma getex_options_Panic:
  "getex_options uc opts a = Panic \<Longrightarrow> cut_option (\<lambda>b. upper uc b \<in> {''EX'', ''PX''}) 1 opts"
proof (rule option_loop [where loop = "getex_options uc"])
  fix b rest a assume "getex_options uc (b # rest) a = Panic"
  then show "length rest < 1 \<and> upper uc b \<in> {''EX'', ''PX''} \<or> (\<exists>k a'. getex_options uc (drop k rest) a' = Panic)"
    unfolding getex_options.simps(2) Let_def
    by (auto simp: bind_res_Panic simp del: getex_options.simps split: if_split_asm list.split_asm intro: drop_panics)
qed simp_all

lemma range_options_Panic:
  "range_options uc opts a = Panic \<Longrightarrow> cut_option (\<lambda>b. upper uc b = ''LIMIT'') 2 opts"
proof (rule option_loop [where loop = "range_options uc"])
  fix b rest a assume "range_options uc (b # rest) a = Panic"
  then show "length rest < 2 \<and> upper uc b = ''LIMIT'' \<or> (\<exists>k a'. range_options uc (drop k rest) a' = Panic)"
    unfolding range_options.simps(2) Let_def
    by (cases rest; cases "tl rest")
       (auto simp: bind_res_Panic simp del: range_options.simps split: if_split_asm intro: drop_panics)
qed simp_all

text \<open>The parsers without an option that takes operands never panic.\<close>

lemma server_safe:
  "parse_ping rest \<noteq> Panic"
  "parse_echo rest \<noteq> Panic"
  "parse_select rest \<noteq> Panic"
  by (auto simp: parse_ping_def parse_echo_def parse_select_def 
      bind_res_Panic chunk_pairs_no_panic Let_def dest!: shapes_Panic split: list.splits prod.splits if_splits)

lemma key_safe:
  "parse_del rest \<noteq> Panic"
  "parse_exists rest \<noteq> Panic"
  "parse_type rest \<noteq> Panic"
  "parse_rename False rest \<noteq> Panic"
  "parse_rename True rest \<noteq> Panic"
  "parse_expire False False rest \<noteq> Panic"
  "parse_pexpire rest \<noteq> Panic"
  "parse_expire True False rest \<noteq> Panic"
  "parse_pexpireat rest \<noteq> Panic"
  "parse_ttl False rest \<noteq> Panic"
  "parse_ttl True rest \<noteq> Panic"
  "parse_persist rest \<noteq> Panic"
  "parse_keys rest \<noteq> Panic"
  by (auto simp: parse_del_def parse_exists_def parse_type_def parse_rename_def parse_expire_def 
      parse_pexpire_def parse_pexpireat_def parse_ttl_def parse_persist_def parse_keys_def 
      bind_res_Panic chunk_pairs_no_panic Let_def dest!: shapes_Panic split: list.splits prod.splits if_splits)

lemma string_safe:
  "parse_get rest \<noteq> Panic"
  "parse_getset rest \<noteq> Panic"
  "parse_getdel rest \<noteq> Panic"
  "parse_mset rest \<noteq> Panic"
  "parse_mget rest \<noteq> Panic"
  "parse_msetnx rest \<noteq> Panic"
  "parse_setnx rest \<noteq> Panic"
  "parse_setex rest \<noteq> Panic"
  "parse_psetex rest \<noteq> Panic"
  "parse_incr ''INCR'' rest \<noteq> Panic"
  "parse_incrby rest \<noteq> Panic"
  "parse_incrbyfloat rest \<noteq> Panic"
  "parse_decr rest \<noteq> Panic"
  "parse_decrby rest \<noteq> Panic"
  "parse_append rest \<noteq> Panic"
  "parse_strlen rest \<noteq> Panic"
  "parse_getrange rest \<noteq> Panic"
  "parse_setrange rest \<noteq> Panic"
  by (auto simp: parse_get_def parse_getset_def parse_getdel_def parse_mset_def parse_mget_def 
      parse_msetnx_def parse_setnx_def parse_setex_def parse_psetex_def parse_incr_def parse_incrby_def 
      parse_incrbyfloat_def parse_decr_def parse_decrby_def parse_append_def parse_strlen_def 
      parse_getrange_def parse_setrange_def 
      bind_res_Panic chunk_pairs_no_panic Let_def dest!: shapes_Panic split: list.splits prod.splits if_splits)

lemma list_safe:
  "parse_push True False rest \<noteq> Panic"
  "parse_push False False rest \<noteq> Panic"
  "parse_push True True rest \<noteq> Panic"
  "parse_push False True rest \<noteq> Panic"
  "parse_pop True rest \<noteq> Panic"
  "parse_pop False rest \<noteq> Panic"
  "parse_llen rest \<noteq> Panic"
  "parse_lrange rest \<noteq> Panic"
  "parse_lindex rest \<noteq> Panic"
  "parse_lset rest \<noteq> Panic"
  "parse_linsert uc rest \<noteq> Panic"
  "parse_lrem rest \<noteq> Panic"
  "parse_ltrim rest \<noteq> Panic"
  "parse_lmove uc rest \<noteq> Panic"
  by (auto simp: parse_push_def parse_pop_def parse_llen_def parse_lrange_def parse_lindex_def 
      parse_lset_def parse_linsert_def parse_lrem_def parse_ltrim_def parse_lmove_def 
      bind_res_Panic chunk_pairs_no_panic Let_def dest!: shapes_Panic split: list.splits prod.splits if_splits)

lemma hash_safe:
  "parse_hset rest \<noteq> Panic"
  "parse_hsetnx rest \<noteq> Panic"
  "parse_hget rest \<noteq> Panic"
  "parse_hmget rest \<noteq> Panic"
  "parse_hmset rest \<noteq> Panic"
  "parse_hdel rest \<noteq> Panic"
  "parse_hexists rest \<noteq> Panic"
  "parse_hgetall rest \<noteq> Panic"
  "parse_hkeys rest \<noteq> Panic"
  "parse_hvals rest \<noteq> Panic"
  "parse_hlen rest \<noteq> Panic"
  "parse_hincrby rest \<noteq> Panic"
  "parse_hincrbyfloat rest \<noteq> Panic"
  by (auto simp: parse_hset_def parse_hsetnx_def parse_hget_def parse_hmget_def parse_hmset_def 
      parse_hdel_def parse_hexists_def parse_hgetall_def parse_hkeys_def parse_hvals_def parse_hlen_def 
      parse_hincrby_def parse_hincrbyfloat_def 
      bind_res_Panic chunk_pairs_no_panic Let_def dest!: shapes_Panic split: list.splits prod.splits if_splits)

lemma set_safe:
  "parse_sadd rest \<noteq> Panic"
  "parse_srem rest \<noteq> Panic"
  "parse_smembers rest \<noteq> Panic"
  "parse_sismember rest \<noteq> Panic"
  "parse_smismember rest \<noteq> Panic"
  "parse_scard rest \<noteq> Panic"
  "parse_sunion rest \<noteq> Panic"
  "parse_sinter rest \<noteq> Panic"
  "parse_sdiff rest \<noteq> Panic"
  "parse_store ''SUNIONSTORE'' rest \<noteq> Panic"
  "parse_store ''SINTERSTORE'' rest \<noteq> Panic"
  "parse_store ''SDIFFSTORE'' rest \<noteq> Panic"
  "parse_spop rest \<noteq> Panic"
  "parse_srandmember rest \<noteq> Panic"
  "parse_smove rest \<noteq> Panic"
  by (auto simp: parse_sadd_def parse_srem_def parse_smembers_def parse_sismember_def 
      parse_smismember_def parse_scard_def parse_sunion_def parse_sinter_def parse_sdiff_def 
      parse_store_def parse_spop_def parse_srandmember_def parse_smove_def 
      bind_res_Panic chunk_pairs_no_panic Let_def dest!: shapes_Panic split: list.splits prod.splits if_splits)

lemma zset_safe:
  "parse_zadd uc rest \<noteq> Panic"
  "parse_zrem rest \<noteq> Panic"
  "parse_zscore rest \<noteq> Panic"
  "parse_zmscore rest \<noteq> Panic"
  "parse_zincrby rest \<noteq> Panic"
  "parse_zrank rest \<noteq> Panic"
  "parse_zrevrank rest \<noteq> Panic"
  "parse_zcard rest \<noteq> Panic"
  "parse_zcount rest \<noteq> Panic"
  "parse_zrange uc rest \<noteq> Panic"
  "parse_zrevrange uc rest \<noteq> Panic"
  "parse_zremrangebyrank rest \<noteq> Panic"
  "parse_zremrangebyscore rest \<noteq> Panic"
  "parse_zpop True rest \<noteq> Panic"
  "parse_zpop False rest \<noteq> Panic"
  by (auto simp: parse_zadd_def parse_zrem_def parse_zscore_def parse_zmscore_def parse_zincrby_def 
      parse_zrank_def parse_zrevrank_def parse_zcard_def parse_zcount_def parse_zrange_def 
      parse_zrevrange_def parse_zremrangebyrank_def parse_zremrangebyscore_def parse_zpop_def 
      bind_res_Panic chunk_pairs_no_panic Let_def dest!: shapes_Panic split: list.splits prod.splits if_splits)

lemma script_safe:
  "parse_eval False rest \<noteq> Panic"
  "parse_eval True rest \<noteq> Panic"
  "parse_script uc rest \<noteq> Panic"
  by (auto simp: parse_eval_def parse_script_def 
      bind_res_Panic chunk_pairs_no_panic Let_def dest!: shapes_Panic split: list.splits prod.splits if_splits)

lemma tables_safe:
  "\<forall>(n, p)\<in>set server_parsers. p rest \<noteq> Panic"
  "\<forall>(n, p)\<in>set key_parsers. p rest \<noteq> Panic"
  "\<forall>(n, p)\<in>set (string_parsers uc wall). n \<noteq> ''SET'' \<and> n \<noteq> ''GETEX'' \<longrightarrow> p rest \<noteq> Panic"
  "\<forall>(n, p)\<in>set (list_parsers uc). p rest \<noteq> Panic"
  "\<forall>(n, p)\<in>set hash_parsers. p rest \<noteq> Panic"
  "\<forall>(n, p)\<in>set set_parsers. p rest \<noteq> Panic"
  "\<forall>(n, p)\<in>set (zset_parsers uc). n \<noteq> ''ZRANGEBYSCORE'' \<and> n \<noteq> ''ZREVRANGEBYSCORE'' \<longrightarrow> p rest \<noteq> Panic"
  "\<forall>(n, p)\<in>set (script_parsers uc). p rest \<noteq> Panic"
  by (simp_all add: server_parsers_def server_safe key_parsers_def key_safe string_parsers_def string_safe
      list_parsers_def list_safe hash_parsers_def hash_safe set_parsers_def set_safe zset_parsers_def zset_safe
      script_parsers_def script_safe)

lemma safe_parsers:
  assumes "(n, p) \<in> set (parsers uc wall)" "n \<notin> {''SET'', ''GETEX'', ''ZRANGEBYSCORE'', ''ZREVRANGEBYSCORE''}"
  shows "p rest \<noteq> Panic"
  using assms unfolding parsers_def set_append by (auto dest: bspec [OF tables_safe(1)] bspec [OF tables_safe(2)]
      bspec [OF tables_safe(3)] bspec [OF tables_safe(4)] bspec [OF tables_safe(5)] bspec [OF tables_safe(6)]
      bspec [OF tables_safe(7)] bspec [OF tables_safe(8)])

text \<open>An operand that is missing at the end of a request.\<close>

definition lacks_operand :: "(string \<Rightarrow> string) \<Rightarrow> string \<Rightarrow> string list \<Rightarrow> bool" where
  "lacks_operand uc name rest \<longleftrightarrow>
     name \<in> {''SET'', ''GETEX''} \<and> cut_option (\<lambda>b. upper uc b \<in> {''EX'', ''PX'', ''EXAT'', ''PXAT''}) 1 rest \<or>
     name \<in> {''ZRANGEBYSCORE'', ''ZREVRANGEBYSCORE''} \<and> cut_option (\<lambda>b. upper uc b = ''LIMIT'') 2 rest"

lemma cut_option_mono: "(\<And>b. P b \<Longrightarrow> Q b) \<Longrightarrow> cut_option P w opts \<Longrightarrow> cut_option Q w opts"
  unfolding cut_option_def by blast

lemma parse_set_Panic: "parse_set uc wall rest = Panic \<Longrightarrow> lacks_operand uc ''SET'' rest"
  by (auto simp: parse_set_def lacks_operand_def bind_res_Panic split: list.splits if_splits
      intro!: cut_option_Cons dest: set_options_Panic)

lemma parse_getex_Panic: "parse_getex uc rest = Panic \<Longrightarrow> lacks_operand uc ''GETEX'' rest"
  by (auto simp: parse_getex_def lacks_operand_def split: list.splits
      intro!: cut_option_Cons dest!: getex_options_Panic elim: cut_option_mono [rotated])

lemma parse_zrangebyscore_Panic:
  "parse_zrangebyscore uc rv rest = Panic \<Longrightarrow>
   lacks_operand uc (if rv then ''ZREVRANGEBYSCORE'' else ''ZRANGEBYSCORE'') rest"
  by (auto simp: parse_zrangebyscore_def lacks_operand_def split: list.splits
      intro!: cut_option_Cons dest!: range_options_Panic)

text \<open>C27: Parsing a request panics, and so ends the connection without a reply, only when the request is a
  SET, GETEX or ZRANGEBYSCORE whose last option lacks an operand; every other malformed request is
  answered with an error.\<close>
theorem parse_panics:
  assumes "parse uc wall args = Panic"
  shows "args \<noteq> [] \<and> lacks_operand uc (upper uc (hd args)) (tl args)"
proof -
  obtain a rest where args: "args = a # rest" using assms by (cases args) (auto simp: parse_def)
  obtain p where p: "map_of (parsers uc wall) (upper uc a) = Some p" "p rest = Panic"
    using assms by (auto simp: args parse_def Let_def split: option.splits)
  then have "upper uc a \<in> {''SET'', ''GETEX'', ''ZRANGEBYSCORE'', ''ZREVRANGEBYSCORE''}"
    using safe_parsers [of "upper uc a" p uc wall rest] map_of_SomeD by fastforce
  moreover have "parse uc wall (upper uc a # rest) = Panic"
    using parse_entry [OF map_of_SomeD [OF p(1)]] p(2) by simp
  ultimately show ?thesis
    using parse_zrangebyscore_Panic [of uc False rest] parse_zrangebyscore_Panic [of uc True rest]
    by (auto simp: args string_dispatch zset_dispatch dest: parse_set_Panic parse_getex_Panic)
qed

theorem parse_panics_witness:
  "parse id 0 [''set'', ''k'', ''v'', ''px''] = Panic \<and> lacks_operand id ''SET'' [''k'', ''v'', ''px'']"
proof -
  have u: "upper id ''set'' = ''SET''" "upper id ''px'' = ''PX''"
    by (simp_all add: upper_def from_utf8_lossy_valid utf8_valid_ascii to_uppercase_ascii ascii_def byte_of_def
        ascii_upper_def chr_def char_of_def bit_Suc_0_iff)
  have "parse id 0 [''set'', ''k'', ''v'', ''px''] = Panic"
    using string_dispatch(1) [of id 0 "[''k'', ''v'', ''px'']"] u
    by (simp add: parse_def Let_def upper_plain plain_name_def byte_of_def parse_set_def)
  then show ?thesis using parse_panics [of id 0 "[''set'', ''k'', ''v'', ''px'']"] u by simp
qed

end
