(* ===== verification/AnswerLaws.thy ===== *)
theory AnswerLaws imports Exec CommandText begin

text \<open>
  Every command is answered: in a well-formed database a command whose operands are moderate does not
  panic.  What can panic is a deadline past the range of an \<open>Instant\<close>, a count past the capacity of a
  vector, and an insertion into the arena of a skip list that is full.  The sampler of crate \<open>rand\<close> is
  taken to answer when a vector can hold as many references as it is asked for.
\<close>

subsection \<open>Steps that do not panic\<close>

definition answers :: "'a res \<times> 'b \<Rightarrow> bool" where
  "answers p \<longleftrightarrow> fst p \<noteq> Panic"

lemma answers_pair [simp]: "answers (r, l) \<longleftrightarrow> r \<noteq> Panic"
  by (simp add: answers_def)

lemma not_panic: "fst p = Panic \<longleftrightarrow> \<not> answers p"
  by (simp add: answers_def)

text \<open>How the shapes the operations share pass on that the step inside does not panic.\<close>

lemma with_db_answers:
  "(i < length (dbs d) \<Longrightarrow> answers (f (dbs d ! i))) \<Longrightarrow> answers (with_db i d f)"
  by (simp add: with_db_def case_prod_beta answers_def)

lemma read_db_answers:
  "(i < length (dbs d) \<Longrightarrow> f (dbs d ! i) \<noteq> Panic) \<Longrightarrow> read_db i d f \<noteq> Panic"
  by (simp add: read_db_def)

context value_kind
begin

lemma stored_answers:
  assumes "\<And>x. hm_get (data l) key = Some (mk x) \<Longrightarrow> answers (f x)" "absent \<noteq> Panic"
  shows "answers (on_stored un mk none_left absent key f l)"
  using assms by (cases rule: kind_cases [of l key]) (auto simp: stored_there stored_absent stored_other answers_def)

lemma entry_answers:
  assumes "\<And>x. hm_get (data l) key = Some (mk x) \<Longrightarrow> answers (f x)" "answers (f fresh)"
  shows "answers (on_entry goc mk key f l)"
  using assms by (cases rule: kind_cases [of l key]) (auto simp: entry_there entry_absent entry_other answers_def)

lemma op_answers:
  assumes ok: "db_ok d"
    and f: "\<And>x. i < length (dbs d) \<Longrightarrow> hm_get (data (dbs d ! i)) key = Some (mk x) \<Longrightarrow> good x \<Longrightarrow> answers (f x)"
  shows "absent \<noteq> Panic \<Longrightarrow> answers (with_db i d (on_stored un mk none_left absent key f))"
    and "answers (f fresh) \<Longrightarrow> answers (with_db i d (on_entry goc mk key f))"
proof -
  have x: "answers (f x)" if "i < length (dbs d)" "hm_get (data (dbs d ! i)) key = Some (mk x)" for x
    using f [OF that] ldb_okD(4) [OF db_ok_nth [OF ok that(1)] that(2)] by (simp add: mk_good)
  show "absent \<noteq> Panic \<Longrightarrow> answers (with_db i d (on_stored un mk none_left absent key f))"
    by (rule with_db_answers) (simp add: stored_answers x)
  show "answers (f fresh) \<Longrightarrow> answers (with_db i d (on_entry goc mk key f))"
    by (rule with_db_answers) (simp add: entry_answers x)
qed

end

lemma list_mut_answers:
  "absent \<noteq> Panic \<Longrightarrow> (\<And>xs. answers (f xs)) \<Longrightarrow> answers (get_list_mut now absent key f l)"
  by (auto simp: get_list_mut_def ldb_get_mut_def case_prod_beta answers_def split: option.splits rudis_object.splits)

lemma reply_answers [simp]: "reply g r = None \<longleftrightarrow> r = Panic"
  by (cases r) simp_all

lemma builders_answer [simp]:
  "int_result a = None \<longleftrightarrow> a = Panic" "ok_result b = None \<longleftrightarrow> b = Panic" "bool_int_result c = None \<longleftrightarrow> c = Panic"
  "null_or_bulk e = None \<longleftrightarrow> e = Panic" "bulk_array f = None \<longleftrightarrow> f = Panic" "len_result g = None \<longleftrightarrow> g = Panic"
  "opt_bulk_array h = None \<longleftrightarrow> h = Panic" "exec_pop_result f s = None \<longleftrightarrow> f = Panic" "one_or_array f s = None \<longleftrightarrow> f = Panic"
  by (simp_all add: int_result_def ok_result_def bool_int_result_def null_or_bulk_def bulk_array_def len_result_def
      opt_bulk_array_def exec_pop_result_def one_or_array_def map_res_Panic)

lemma read_steps [simp]: "fst (reads g r d) = g r" "fst (runs g p) = g (fst p)"
  by (simp_all add: reads_def runs_def)

subsection \<open>Moderate operands\<close>

text \<open>
  The clock leaves room for any number of milliseconds of 64 bits; a duration in seconds must fit, and
  so must an absolute time on the system clock.
\<close>

definition clock_ok :: "world \<Rightarrow> bool" where
  "clock_ok w \<longleftrightarrow> w_now w + from_millis usize_max \<le> instant_max"

definition sampler_ok :: "world \<Rightarrow> bool" where
  "sampler_ok w \<longleftrightarrow> (\<forall>n xs. capacity_ok ref_size n \<longrightarrow> w_sample w n xs \<noteq> None)"

definition fits_from :: "world \<Rightarrow> nat \<Rightarrow> bool" where
  "fits_from w t \<longleftrightarrow> w_now w + t \<le> instant_max"

definition fits_at :: "world \<Rightarrow> nat \<Rightarrow> bool" where
  "fits_at w t \<longleftrightarrow> t \<le> instant_max \<and> w_now w + (t - w_wall w) \<le> instant_max"

text \<open>The arena of the sorted set at a key has room for \<open>n\<close> insertions.\<close>

definition arena_room :: "nat \<Rightarrow> database \<Rightarrow> string \<Rightarrow> nat \<Rightarrow> bool" where
  "arena_room i d key n \<longleftrightarrow> n \<le> z_room z_new \<and>
     (\<forall>z. i < length (dbs d) \<longrightarrow> hm_get (data (dbs d ! i)) key = Some (OZSet z) \<longrightarrow> n \<le> z_room z)"

fun key_moderate :: "world \<Rightarrow> key_cmd \<Rightarrow> bool" where
  "key_moderate w (Expire k n) = (n < 0 \<or> fits_from w (from_secs (as_usize n)))"
| "key_moderate w (ExpireAt k n) = fits_at w (from_secs (as_usize n))"
| "key_moderate w (PExpireAt k n) = fits_at w (from_millis (as_usize n))"
| "key_moderate w _ = True"

fun string_moderate :: "world \<Rightarrow> string_cmd \<Rightarrow> bool" where
  "string_moderate w (CSet a) = (case sa_expire a of None \<Rightarrow> True | Some t \<Rightarrow> fits_from w t)"
| "string_moderate w (Setex k n v) = fits_from w (from_secs (as_usize n))"
| "string_moderate w (SetRange k off v) = (off + length v \<le> isize_max)"
| "string_moderate w _ = True"

fun list_moderate :: "list_cmd \<Rightarrow> bool" where
  "list_moderate (LPop k n) = capacity_ok vec_size n"
| "list_moderate (RPop k n) = capacity_ok vec_size n"
| "list_moderate _ = True"

fun set_moderate :: "set_cmd \<Rightarrow> bool" where
  "set_moderate (SPop k n) = capacity_ok ref_size n"
| "set_moderate (SRandMember k n) =
     (if n \<ge> 0 then capacity_ok ref_size (as_usize n) else capacity_ok string_size (nat \<bar>n\<bar>))"
| "set_moderate _ = True"

fun zset_moderate :: "nat \<Rightarrow> database \<Rightarrow> zset_cmd \<Rightarrow> bool" where
  "zset_moderate i d (ZAdd a) = arena_room i d (za_key a) (length (za_members a))"
| "zset_moderate i d (ZIncrBy k x m) = arena_room i d k 1"
| "zset_moderate i d _ = True"

fun moderate :: "world \<Rightarrow> nat \<Rightarrow> database \<Rightarrow> command \<Rightarrow> bool" where
  "moderate w i d (Server c) = True"
| "moderate w i d (OnKey c) = key_moderate w c"
| "moderate w i d (OnStr c) = string_moderate w c"
| "moderate w i d (OnList c) = list_moderate c"
| "moderate w i d (OnHash c) = True"
| "moderate w i d (OnSet c) = set_moderate c"
| "moderate w i d (OnZSet c) = zset_moderate i d c"
| "moderate w i d (Scripting c) = False"

lemma as_usize_max: "as_usize n \<le> usize_max"
  using pos_mod_bound [of 18446744073709551616 n] by (simp add: as_usize_def usize_max_def)

lemma millis_fit: "clock_ok w \<Longrightarrow> fits_from w (from_millis (as_usize n))"
  using as_usize_max [of n] by (simp add: clock_ok_def fits_from_def from_millis_def)

lemma secs_fit: "fits_from w t \<Longrightarrow> fits_from w (from_secs (as_usize (wrap_i64 (int (as_secs t)))))"
proof -
  assume t: "fits_from w t"
  then have "as_secs t \<le> 9223372036854775807" by (simp add: fits_from_def instant_max_def as_secs_def)
  then have "as_usize (wrap_i64 (int (as_secs t))) = as_secs t"
    by (simp add: wrap_i64_id as_usize_id in_i64_def i64_min_def i64_max_def)
  then show ?thesis using t by (simp add: fits_from_def from_secs_def as_secs_def)
qed

subsection \<open>The operations\<close>

lemma set_expiry_answers: "fits_from w t \<Longrightarrow> answers (ldb_set_expiry (w_now w) k t l)"
  by (simp add: ldb_set_expiry_def instant_add_def fits_from_def)

lemma expire_at_answers: "fits_at w t \<Longrightarrow> answers (expire_at_target (w_now w) (w_wall w) k t l)"
  by (auto simp: expire_at_target_def fits_at_def instant_add_def case_prod_beta)

lemma keyspace_answers:
  "exists_keys now i d ks \<noteq> Panic" "type_of now i d k \<noteq> Panic" "keys now i d p \<noteq> Panic" "pttl now i d k \<noteq> Panic"
  "ttl now i d k \<noteq> Panic" "dbsize now i d \<noteq> Panic" "randomkey pick now i d \<noteq> Panic"
  "answers (del i d ks)" "answers (rename i d src dst)" "answers (renamenx now i d src dst)"
  "answers (persist i d k)" "answers (flushdb i d)"
  by (auto simp: exists_keys_def type_of_def keys_def pttl_def ttl_def dbsize_def randomkey_def del_def rename_def
      renamenx_def persist_def flushdb_def Let_def bind_res_Panic with_db_def read_db_def case_prod_beta answers_def split: option.splits)

lemma deadline_answers:
  "n < 0 \<or> fits_from w (from_secs (as_usize n)) \<Longrightarrow> answers (expire (w_now w) i d k n)"
  "clock_ok w \<Longrightarrow> answers (pexpire (w_now w) i d k n)"
  "fits_at w (from_secs (as_usize n)) \<Longrightarrow> answers (expireat (w_now w) (w_wall w) i d k n)"
  "fits_at w (from_millis (as_usize n)) \<Longrightarrow> answers (pexpireat (w_now w) (w_wall w) i d k n)"
  unfolding expire_def pexpire_def expireat_def pexpireat_def
  by (rule with_db_answers; auto simp: case_prod_beta expire_at_answers set_expiry_answers millis_fit)+

lemma key_answers:
  "clock_ok w \<Longrightarrow> moderate w i d (OnKey c) \<Longrightarrow> fst (exec_key w c i d) \<noteq> None"
  by (cases c) (simp_all add: not_panic keyspace_answers deadline_answers)

lemma server_answers: "fst (fst (exec_server w c i d)) \<noteq> None"
  by (cases c) (simp_all add: not_panic keyspace_answers)

lemma insert_answers:
  "(\<And>t. dur = Some t \<Longrightarrow> fits_from w t) \<Longrightarrow> answers (insert_str (w_now w) k v dur r l)"
  by (cases dur) (auto simp: insert_str_def case_prod_beta map_res_Panic not_panic set_expiry_answers)

lemma number_answers: "incr_value v n \<noteq> Panic" "parse_float_value v \<noteq> Panic"
  by (auto simp: incr_value_def parse_float_value_def split: option.splits)

lemma string_reads_answer:
  "str_get now i d k \<noteq> Panic" "str_strlen now i d k \<noteq> Panic" "str_getrange now i d k a b \<noteq> Panic" "mget now i d ks \<noteq> Panic"
  by (auto simp: str_get_def str_strlen_def str_getrange_def mget_def read_db_def Let_def
      split: option.splits rudis_object.splits)

lemma string_writes_answer:
  "answers (mset_pairs i d ps)" "answers (msetnx now i d ps)" "answers (str_setnx now i d k v)"
  "answers (str_getdel i d k)"
  "(\<And>t. dur = Some t \<Longrightarrow> fits_from w t) \<Longrightarrow> answers (str_set (w_now w) i d k v dur)"
  "(\<And>t. dur = Some t \<Longrightarrow> fits_from w t) \<Longrightarrow> answers (str_setxx (w_now w) i d k v dur)"
  unfolding mset_pairs_def msetnx_def str_setnx_def str_getdel_def str_set_def str_setxx_def
  by (rule with_db_answers; auto simp: insert_answers split: prod.splits option.splits rudis_object.splits)+

lemma getset_answers: "answers (str_getset now i d k v)"
  using string_reads_answer(1) [of now i d k]
  by (auto simp: str_getset_def str_set_def insert_str_def with_db_def map_res_Panic split: res.split)

lemma string_entries_answer:
  assumes ok: "db_ok d"
  shows "answers (str_append i d k v)" "answers (str_incr i d k n)" "answers (str_incr_float i d k x)"
    "off + length v \<le> isize_max \<Longrightarrow> answers (str_setrange i d k off v)"
proof -
  have set: "answers (setrange_value off v s)" if "off + length v \<le> isize_max" for s
    using that by (auto simp: setrange_value_def Let_def usize_max_def isize_max_def capacity_ok_def)
  show "answers (str_append i d k v)" "answers (str_incr i d k n)" "answers (str_incr_float i d k x)"
    unfolding str_append_def str_incr_def str_incr_float_def
    by (rule str0.op_answers(2) [OF ok]; auto simp: number_answers Let_def split: res.split)+
  show "answers (str_setrange i d k off v)" if "off + length v \<le> isize_max"
    unfolding str_setrange_def by (rule str0.op_answers(2) [OF ok]) (simp_all add: set [OF that])
qed

lemma set_new_answers:
  assumes "\<And>t. sa_expire a = Some t \<Longrightarrow> fits_from w t"
  shows "answers (set_new w a i d)"
proof -
  have e: "answers (expire (w_now w) i d' k (wrap_i64 (int (as_secs t))))" if "sa_expire a = Some t" for t d' k
    by (rule deadline_answers(1)) (simp add: secs_fit assms that)
  have later: "\<exists>d2. (case sa_expire a of None \<Rightarrow> (Ok True, d') | Some t \<Rightarrow>
      (case expire (w_now w) i d' (sa_key a) (wrap_i64 (int (as_secs t))) of (Panic, d2) \<Rightarrow> (Panic, d2) | (_, d2) \<Rightarrow> (Ok True, d2))) =
      (Ok True, d2)" for d'
  proof (cases "sa_expire a")
    case (Some t)
    then show ?thesis
      using e [OF Some, of d' "sa_key a"]
      by (cases "expire (w_now w) i d' (sa_key a) (wrap_i64 (int (as_secs t)))") (auto split: res.split)
  qed simp
  obtain r d1 where nx: "str_setnx (w_now w) i d (sa_key a) (sa_value a) = (r, d1)" by fastforce
  then have "r \<noteq> Panic" using string_writes_answer(3) [of "w_now w" i d "sa_key a" "sa_value a"] by simp
  then show ?thesis using later [of d1] by (auto simp: set_new_def nx split: res.split bool.split)
qed

lemma exec_set_answers:
  assumes "moderate w i d (OnStr (CSet a))"
  shows "fst (exec_set w a i d) \<noteq> None"
proof (cases "if sa_get a then str_get (w_now w) i d (sa_key a) else Ok None")
  case (Ok old)
  have fits: "fits_from w t" if "sa_expire a = Some t" for t using assms that by simp
  have "answers (if sa_nx a then set_new w a i d
      else if sa_xx a then str_setxx (w_now w) i d (sa_key a) (sa_value a) (sa_expire a)
      else (case str_set (w_now w) i d (sa_key a) (sa_value a) (sa_expire a) of (r, d1) \<Rightarrow> (map_res (\<lambda>_. True) r, d1)))"
    using set_new_answers [OF fits] string_writes_answer(5,6) [OF fits]
    by (auto simp: case_prod_beta map_res_Panic not_panic)
  then show ?thesis using Ok by (simp only: exec_set_def res.case read_steps reply_answers not_panic not_not)
next
  case Panic
  then show ?thesis using string_reads_answer(1) by (simp split: if_splits)
qed (simp add: exec_set_def)

lemma exec_getex_answers:
  assumes "clock_ok w"
  shows "fst (exec_getex w a i d) \<noteq> None"
proof -
  have p: "(case pexpire (w_now w) i d (ga_key a) n of (Panic, d1) \<Rightarrow> (None, d1) | (_, d1) \<Rightarrow> (Some v, d1)) =
      (Some v, snd (pexpire (w_now w) i d (ga_key a) n))" for n and v :: frame
    using deadline_answers(2) [OF assms, of i d "ga_key a" n]
    by (cases "pexpire (w_now w) i d (ga_key a) n") (auto split: res.split)
  show ?thesis
    using string_reads_answer(1) [of "w_now w" i d "ga_key a"]
    by (auto simp: exec_getex_def p split: res.split option.split)
qed

lemma string_answers:
  assumes "clock_ok w" "moderate w i d (OnStr c)" "db_ok d"
  shows "fst (exec_string w c i d) \<noteq> None"
proof (cases c)
  case (CSet a)
  show ?thesis unfolding CSet exec_string.simps by (rule exec_set_answers) (use assms(2) CSet in simp)
next
  case (PSetex k n v)
  then show ?thesis using string_writes_answer(5) [of "Some (from_millis (as_usize n))" w] millis_fit [OF assms(1)]
    by (simp add: not_panic)
next
  case (Setex k n v)
  then show ?thesis using string_writes_answer(5) [of "Some (from_secs (as_usize n))" w] assms(2) by (simp add: not_panic)
qed (use assms in \<open>auto simp: not_panic exec_getex_answers string_reads_answer string_writes_answer
      getset_answers string_entries_answer\<close>)

subsection \<open>Lists, hashes and sets\<close>

lemma list_ops_answer:
  assumes ok: "db_ok d"
  shows "answers (lpush i d k vs)" "answers (rpush i d k vs)" "answers (lpushx now i d k vs)" "answers (rpushx now i d k vs)"
    "capacity_ok vec_size n \<Longrightarrow> answers (lpop i d k n)" "capacity_ok vec_size n \<Longrightarrow> answers (rpop i d k n)"
    "answers (lset now i d k m v)" "answers (linsert now i d k bf p v)" "answers (lrem now i d k m v)" "answers (ltrim i d k a b)"
    "answers (lmove i d src dst sa sb)" "get_list now i d k \<noteq> Panic"
proof -
  show "get_list now i d k \<noteq> Panic"
    by (auto simp: get_list_def read_db_def split: option.splits rudis_object.splits)
  have "answers (move_step src dst sa sb l)" for l
  proof (cases "src = dst")
    case True
    then show ?thesis
      by (auto simp: move_step_def intro!: lists.stored_answers split: prod.split option.split)
  next
    case False
    let ?pop = "on_stored un_list OList (\<lambda>xs. xs = []) (Ok None) src (\<lambda>xs. case pop_side sa xs of (e, ys) \<Rightarrow> (Ok e, ys)) l"
    have "answers ?pop" by (rule lists.stored_answers) (auto split: prod.split)
    then show ?thesis
      using False by (cases ?pop) (auto simp: move_step_def intro!: lists.entry_answers split: res.split option.split)
  qed
  then show "answers (lmove i d src dst sa sb)" unfolding lmove_def by (rule with_db_answers)
qed (unfold lpush_def rpush_def lpushx_def rpushx_def lpop_def rpop_def lset_def linsert_def lrem_def ltrim_def,
     (intro lists.op_answers ok with_db_answers list_mut_answers; auto simp: Let_def split: prod.split option.split)+)

lemma list_answers: "db_ok d \<Longrightarrow> moderate w i d (OnList c) \<Longrightarrow> fst (exec_list w c i d) \<noteq> None"
  by (cases c)
     (auto simp: not_panic list_ops_answer llen_def lrange_def lindex_def bind_res_Panic Let_def split: option.splits)

lemma hash_ops_answer:
  assumes ok: "db_ok d"
  shows "answers (hset i d k fs)" "answers (hsetnx i d k f v)" "answers (hdel i d k ks)" "answers (hincrby i d k f n)"
    "answers (hincrbyfloat i d k f x)" "read_hash now i d k r g \<noteq> Panic"
proof -
  show "read_hash now i d k r g \<noteq> Panic"
    by (auto simp: read_hash_def read_db_def split: option.splits rudis_object.splits)
qed (unfold hset_def hsetnx_def hdel_def hincrby_def hincrbyfloat_def,
     (intro hashes.op_answers ok; auto simp: number_answers Let_def split: prod.split res.split)+)

lemma hash_answers: "db_ok d \<Longrightarrow> fst (exec_hash w c i d) \<noteq> None"
  by (cases c)
     (simp_all add: not_panic hash_ops_answer map_res_Panic hget_def hmget_def hexists_def hgetall_def hkeys_def
        hvals_def hlen_def)

lemma clone_sets_answers: "(\<And>k. g k \<noteq> Panic) \<Longrightarrow> clone_sets g ks \<noteq> Panic"
  by (induction ks) (auto simp: bind_res_Panic map_res_Panic)

lemma union_loop_answers: "(\<And>k. g k \<noteq> Panic) \<Longrightarrow> union_loop g ks acc \<noteq> Panic"
  by (induction ks arbitrary: acc) (auto simp: bind_res_Panic)

lemma read_set_answers: "(\<And>s. f s \<noteq> Panic) \<Longrightarrow> read_set now i d k a f \<noteq> Panic"
  by (auto simp: read_set_def read_db_def split: option.splits rudis_object.splits)

lemma algebra_answers: "sunion now i d ks \<noteq> Panic" "sinter now i d ks \<noteq> Panic" "sdiff now i d ks \<noteq> Panic"
proof -
  have g: "get_set_clone now i d k \<noteq> Panic" for k unfolding get_set_clone_def by (rule read_set_answers) auto
  show "sunion now i d ks \<noteq> Panic" "sinter now i d ks \<noteq> Panic" "sdiff now i d ks \<noteq> Panic"
    using union_loop_answers [OF g] clone_sets_answers [OF g] g
    by (auto simp: sunion_def sinter_def sdiff_def bind_res_Panic map_res_Panic split: list.split)
qed

lemma store_answers: "r \<noteq> Panic \<Longrightarrow> answers (store_set i d dst r)"
  by (cases r) (auto simp: store_set_def intro!: with_db_answers)

lemma set_ops_answer:
  assumes ok: "db_ok d"
  shows "answers (sadd i d k ms)" "answers (srem i d k ms)" "answers (smove i d src dst m)"
    "sampler_ok w \<Longrightarrow> set_moderate (SPop k n) \<Longrightarrow> answers (spop (w_sample w) i d k n)"
    "sampler_ok w \<Longrightarrow> set_moderate (SRandMember k j) \<Longrightarrow> srandmember (w_sample w) draw now i d k j \<noteq> Panic"
proof -
  show "srandmember (w_sample w) draw now i d k j \<noteq> Panic" if "sampler_ok w" "set_moderate (SRandMember k j)"
  proof -
    have s: "w_sample w (as_usize j) s \<noteq> None" if "0 \<le> j" for s using that \<open>sampler_ok w\<close> \<open>set_moderate _\<close> by (simp add: sampler_ok_def)
    show ?thesis unfolding srandmember_def
    proof (rule read_set_answers)
      fix xs
      have few: "0 \<le> j \<or> capacity_ok string_size (nat \<bar>j\<bar>)" using that(2) by (auto split: if_splits)
      show "(if 0 \<le> j then (case w_sample w (as_usize j) xs of None \<Rightarrow> Panic | Some chosen \<Rightarrow> Ok chosen)
          else if xs = [] then Ok [] else if \<not> capacity_ok string_size (nat \<bar>j\<bar>) then Panic
          else Ok (map (\<lambda>i. xs ! draw (length xs) i) [0..<nat \<bar>j\<bar>])) \<noteq> Panic"
        using s [of xs] few by (cases "0 \<le> j"; cases "w_sample w (as_usize j) xs"; simp)
    qed
  qed
  show "answers (spop (w_sample w) i d k n)" if "sampler_ok w" "set_moderate (SPop k n)"
  proof -
    have "w_sample w n s \<noteq> None" for s using that by (simp add: sampler_ok_def)
    then show ?thesis unfolding spop_def by (intro sets.op_answers ok) (auto split: option.split)
  qed
  show "answers (smove i d src dst m)" unfolding smove_def smove_step_def
    by (rule with_db_answers) (auto intro!: sets.entry_answers split: option.split rudis_object.split)
qed (unfold sadd_def srem_def,
     (intro sets.op_answers ok; auto simp: Let_def split: prod.split)+)

lemma set_answers: "db_ok d \<Longrightarrow> sampler_ok w \<Longrightarrow> moderate w i d (OnSet c) \<Longrightarrow> fst (exec_set_cmd w c i d) \<noteq> None"
  by (cases c)
     (simp_all add: not_panic set_ops_answer algebra_answers store_answers smembers_def sismember_def smismember_def
        scard_def sunionstore_def sinterstore_def sdiffstore_def read_set_answers)

subsection \<open>Sorted sets\<close>

lemma zadd_dict_answers: "fst (zadd_dict nx xx gt lt ch ms cnt D) \<noteq> Panic"
  by (induction nx xx gt lt ch ms cnt D rule: zadd_dict.induct) (auto simp del: fun_upd_apply split: option.splits)

lemma zadd_loop_answers: "z_ok z \<Longrightarrow> length ms \<le> z_room z \<Longrightarrow> answers (zadd_loop coins nx xx gt lt ch ms n z)"
  using zadd_dict_answers zadd_loop_refines [of z ms] by (simp add: answers_def)

lemma run_zset_answers: "\<exists>r z'. f z = Some (r, z') \<Longrightarrow> answers (run_zset f z)"
  by (auto simp: run_zset_def)

lemma zset_ops_answer:
  assumes ok: "db_ok d"
  shows "arena_room i d k (length ms) \<Longrightarrow> answers (zadd coins i d k ms nx xx gt lt ch)"
    "arena_room i d k 1 \<Longrightarrow> answers (zincrby bits i d k x m)"
    "answers (zrem i d k ks)" "answers (zremrangebyscore i d k mn mx)" "answers (zremrangebyrank i d k a b)"
    "answers (zpopmin i d k n)" "answers (zpopmax i d k n)"
proof -
  show "answers (zadd coins i d k ms nx xx gt lt ch)" if "arena_room i d k (length ms)"
    unfolding zadd_def
    by (rule zsets.op_answers(2) [OF ok]; use that in \<open>auto simp: arena_room_def z_new_ok intro!: zadd_loop_answers\<close>)
  have step: "answers (let old = (case hm_get (scores z) m of Some s \<Rightarrow> s | None \<Rightarrow> Fin 0); new_score = f_add old x
     in if is_nan new_score then (Err ScoreNaN, z)
        else case z_add bits m new_score z of None \<Rightarrow> (Panic, z) | Some (_, z') \<Rightarrow> (Ok new_score, z'))"
    if "z_ok z" "0 < z_room z" for z
    using z_add_total [OF that(1) _ that(2), where cs = bits and m = m]
    by (force simp: Let_def split: option.split)
  show "answers (zincrby bits i d k x m)" if "arena_room i d k 1"
    unfolding zincrby_def
    by (rule zsets.op_answers(2) [OF ok]; rule step; use that in \<open>auto simp: arena_room_def z_new_ok Suc_le_eq\<close>)
qed (unfold zrem_def zremrangebyscore_def zremrangebyrank_def zpopmin_def zpopmax_def,
     (rule zsets.op_answers(1) [OF ok], rule run_zset_answers,
      use zrem_loop_spec z_remove_by_score_spec z_remove_by_rank_spec z_pop_min_spec z_pop_max_spec in blast, simp)+)

lemma get_zset_answers:
  assumes ok: "db_ok d" and f: "\<And>z. z_ok z \<Longrightarrow> f z \<noteq> None"
  shows "get_zset now i d k r f \<noteq> Panic"
proof -
  have z: "z_ok z" if "i < length (dbs d)" "ldb_get now (dbs d ! i) k = Some (OZSet z)" for z
    using zset_seen(1) [OF ok that(1), of now k z] that by (simp add: view_def)
  have "or_panic (f z) \<noteq> Panic" if "z_ok z" for z using f [OF that] by auto
  then show ?thesis
    unfolding get_zset_def by (intro read_db_answers) (auto split: option.split rudis_object.split dest: z)
qed

lemma zset_reads_answer:
  assumes ok: "db_ok d"
  shows "zscore now i d k m \<noteq> Panic" "zmscore now i d k ms \<noteq> Panic" "zrank now i d k m \<noteq> Panic" "zrevrank now i d k m \<noteq> Panic"
    "zcard now i d k \<noteq> Panic" "zcount now i d k mn mx \<noteq> Panic" "zrange now i d k a b rv ws \<noteq> Panic"
    "zrangebyscore now i d k mn mx ws off cnt \<noteq> Panic" "zrevrangebyscore now i d k mx mn ws off cnt \<noteq> Panic"
proof -
  have "z_rank m z \<noteq> None \<and> z_revrank m z \<noteq> None" if "z_ok z" for z
    using z_rank_spec [OF that, of m] z_revrank_spec [OF that, of m]
    by (cases "z_dict z m") (auto simp: z_revrank_def)
  then show "zrank now i d k m \<noteq> Panic" "zrevrank now i d k m \<noteq> Panic"
    unfolding zrank_def zrevrank_def by (auto intro!: get_zset_answers [OF ok])
qed (unfold zscore_def zmscore_def zcard_def zcount_def zrange_def zrangebyscore_def zrevrangebyscore_def,
     (rule get_zset_answers [OF ok], simp add: z_count_by_score_spec z_range_by_index_spec z_range_by_score_spec
        z_revrange_by_score_spec)+)

lemma bounds_answer: "parse_min s \<noteq> Panic" "parse_max s \<noteq> Panic"
  by (auto simp: parse_min_def parse_max_def parse_score_bound_def split: option.splits)

lemma with_bounds_answers:
  "r1 \<noteq> Panic \<Longrightarrow> r2 \<noteq> Panic \<Longrightarrow> (\<And>b1 b2. fst (f b1 b2) \<noteq> None) \<Longrightarrow> fst (with_bounds r1 r2 d f) \<noteq> None"
  by (cases r1; cases r2) (simp_all add: with_bounds_def)

lemma zset_answers:
  assumes "db_ok d" "moderate w i d (OnZSet c)"
  shows "fst (exec_zset w c i d) \<noteq> None"
  using assms
  by (cases c)
     (simp_all add: not_panic zset_ops_answer zset_reads_answer with_bounds_answers bounds_answer
        del: not_None_eq)

subsection \<open>The commands\<close>

lemma execute_replies:
  assumes "db_ok d" "clock_ok w" "sampler_ok w" "moderate w i d c"
  shows "\<exists>f. fst (fst (execute script w c i d)) = Some f"
  using assms server_answers [of w _ i d]
  by (cases c) (simp_all add: execute_def key_answers string_answers list_answers hash_answers set_answers zset_answers
      flip: not_None_eq)

text \<open>C11: Every command but the scripting ones is answered: in a well-formed database, with deadlines that an
  \<open>Instant\<close> can hold, counts that a vector can hold (those of LPOP, RPOP, SPOP and SRANDMEMBER, and the
  length SETRANGE asks for) and room in the arena of the skip list, no command panics and no search
  of a skip list runs for ever, whatever the random draws, as far as the sampler itself answers for
  such counts.\<close>

theorem execute_answers:
  assumes "db_ok d" "clock_ok w" "sampler_ok w" "moderate w i d c"
  shows "\<exists>f. fst (fst (execute script w c i d)) = Some f"
  using assms by (rule execute_replies)

theorem execute_answers_witness:
  "\<exists>f. fst (fst (execute (\<lambda>s i d. (None, d)) sample_world (OnZSet (ZIncrBy ''z'' (Fin 1) ''a'')) 0
     (one_db [(''k'', Str ''v'')]))) = Some f"
proof (rule execute_answers)
  show "moderate sample_world 0 (one_db [(''k'', Str ''v'')]) (OnZSet (ZIncrBy ''z'' (Fin 1) ''a''))"
    by (simp add: arena_room_def one_db_simps z_room_def z_new_def sl_room_def sl_new_def isize_max_def node_size_def)
qed (auto intro: one_db_ok simp: clock_ok_def sampler_ok_def sample_world_def from_millis_def usize_max_def instant_max_def)

end
