(* ===== verification/Store.thy ===== *)
theory Store imports AnswerLaws begin

text \<open>
  The abstract store: a logical database as a map from keys to values and deadlines, with hashes as maps,
  sets as sets, and sorted sets as maps from members to scores.  The steps the operations are made of
  have counterparts on the store; this theory shows that they implement them, whatever the order in the
  hash tables and the shape of the skip lists.
\<close>

subsection \<open>Abstraction\<close>

datatype avalue =
  AStr string | AList "string list" | AHash "string \<Rightarrow> string option" | ASet "string set" | AZSet "string \<Rightarrow> f64 option"

type_synonym store = "string \<Rightarrow> (avalue \<times> nat option) option"

fun abs_value :: "rudis_object \<Rightarrow> avalue" where
  "abs_value (Str s) = AStr s"
| "abs_value (OList xs) = AList xs"
| "abs_value (OHash h) = AHash (hm_get h)"
| "abs_value (OSet s) = ASet (set s)"
| "abs_value (OZSet z) = AZSet (z_dict z)"

definition abs_ldb :: "logical_db \<Rightarrow> store" where
  "abs_ldb l k = map_option (\<lambda>v. (abs_value v, hm_get (expiry l) k)) (hm_get (data l) k)"

text \<open>The value a client can see.\<close>

definition live :: "nat \<Rightarrow> store \<Rightarrow> string \<Rightarrow> avalue option" where
  "live now A k = (case A k of
     None \<Rightarrow> None
   | Some (v, e) \<Rightarrow> (case e of None \<Rightarrow> Some v | Some t \<Rightarrow> if t \<le> now then None else Some v))"

fun a_str :: "avalue \<Rightarrow> string option" where "a_str (AStr s) = Some s" | "a_str _ = None"
fun a_list :: "avalue \<Rightarrow> string list option" where "a_list (AList xs) = Some xs" | "a_list _ = None"
fun a_hash :: "avalue \<Rightarrow> (string \<Rightarrow> string option) option" where "a_hash (AHash m) = Some m" | "a_hash _ = None"
fun a_set :: "avalue \<Rightarrow> string set option" where "a_set (ASet S) = Some S" | "a_set _ = None"
fun a_zset :: "avalue \<Rightarrow> (string \<Rightarrow> f64 option) option" where "a_zset (AZSet D) = Some D" | "a_zset _ = None"

subsection \<open>Steps on the store\<close>

text \<open>The value at a key is changed or, when there is none, \<open>fresh\<close> is.\<close>

definition a_entry ::
    "(avalue \<Rightarrow> 'x option) \<Rightarrow> ('x \<Rightarrow> avalue) \<Rightarrow> 'x \<Rightarrow> string \<Rightarrow> ('x \<Rightarrow> 'r res \<times> 'x) \<Rightarrow> store \<Rightarrow> 'r res \<times> store" where
  "a_entry un mk fresh k g A =
     (case A k of
        None \<Rightarrow> (fst (g fresh), A(k \<mapsto> (mk (snd (g fresh)), None)))
      | Some (v, e) \<Rightarrow> (case un v of
          None \<Rightarrow> (Err WrongType, A)
        | Some x \<Rightarrow> (fst (g x), A(k \<mapsto> (mk (snd (g x)), e)))))"

text \<open>The value at a key is changed, and the key dropped when nothing is left.\<close>

definition a_stored ::
    "(avalue \<Rightarrow> 'x option) \<Rightarrow> ('x \<Rightarrow> avalue) \<Rightarrow> ('x \<Rightarrow> bool) \<Rightarrow> 'r res \<Rightarrow> string \<Rightarrow> ('x \<Rightarrow> 'r res \<times> 'x) \<Rightarrow>
     store \<Rightarrow> 'r res \<times> store" where
  "a_stored un mk gone absent k g A =
     (case A k of
        None \<Rightarrow> (absent, A)
      | Some (v, e) \<Rightarrow> (case un v of
          None \<Rightarrow> (Err WrongType, A)
        | Some x \<Rightarrow> (fst (g x), if gone (snd (g x)) then A(k := None) else A(k \<mapsto> (mk (snd (g x)), e)))))"

text \<open>The list a client sees at a key is changed; a key past its deadline is dropped on the way.\<close>

definition a_live_list :: "nat \<Rightarrow> 'r res \<Rightarrow> string \<Rightarrow> (string list \<Rightarrow> 'r res \<times> string list) \<Rightarrow> store \<Rightarrow> 'r res \<times> store" where
  "a_live_list now absent k g A =
     (case live now A k of
        None \<Rightarrow> (absent, A(k := None))
      | Some v \<Rightarrow> (case a_list v of
          None \<Rightarrow> (Err WrongType, A)
        | Some xs \<Rightarrow> (fst (g xs), A(k \<mapsto> (AList (snd (g xs)), snd (the (A k)))))))"

text \<open>The value a client sees at a key is read.\<close>

definition a_read :: "(avalue \<Rightarrow> 'x option) \<Rightarrow> nat \<Rightarrow> string \<Rightarrow> 'r \<Rightarrow> ('x \<Rightarrow> 'r) \<Rightarrow> store \<Rightarrow> 'r res" where
  "a_read un now k absent g A =
     (case live now A k of
        None \<Rightarrow> Ok absent
      | Some v \<Rightarrow> (case un v of None \<Rightarrow> Err WrongType | Some x \<Rightarrow> Ok (g x)))"

text \<open>A deadline \<open>t\<close> from now on for a stored key.\<close>

definition a_expire :: "nat \<Rightarrow> string \<Rightarrow> nat \<Rightarrow> store \<Rightarrow> bool res \<times> store" where
  "a_expire now k t A =
     (case A k of None \<Rightarrow> (Ok False, A) | Some (v, _) \<Rightarrow> (Ok True, A(k \<mapsto> (v, Some (now + t)))))"

definition a_drop :: "string \<Rightarrow> store \<Rightarrow> bool res \<times> store" where
  "a_drop k A = (Ok (A k \<noteq> None), A(k := None))"

subsection \<open>The accesses implement them\<close>

lemma abs_ldb_slot: "slot l k = slot l' k \<Longrightarrow> abs_ldb l k = abs_ldb l' k"
  by (simp add: slot_def abs_ldb_def)

lemma abs_accesses [simp]:
  "abs_ldb (ldb_insert k v l) = (abs_ldb l)(k \<mapsto> (abs_value v, None))"
  "abs_ldb (ldb_put k v l) = (abs_ldb l)(k \<mapsto> (abs_value v, hm_get (expiry l) k))"
  "abs_ldb (snd (ldb_remove k l)) = (abs_ldb l)(k := None)"
  "abs_ldb (drop_if b k l) = (if b then (abs_ldb l)(k := None) else abs_ldb l)"
  by (auto simp: abs_ldb_def fun_eq_iff ldb_insert_def ldb_put_def ldb_remove_def drop_if_def hm_get_insert hm_get_remove)

lemma abs_ldb_key:
  "abs_ldb l k = None \<longleftrightarrow> hm_get (data l) k = None"
  "hm_get (data l) k = Some v \<Longrightarrow> abs_ldb l k = Some (abs_value v, hm_get (expiry l) k)"
  by (simp_all add: abs_ldb_def)

lemma live_abs: "live now (abs_ldb l) k = map_option abs_value (ldb_get now l k)"
  by (auto simp: live_def abs_ldb_def ldb_get_def split: option.splits)

lemma no_deadline: "ldb_ok l \<Longrightarrow> hm_get (data l) k = None \<Longrightarrow> hm_get (expiry l) k = None"
  using ldb_okD(3) [of l k] by (cases "hm_get (expiry l) k") auto

text \<open>
  A method on logical database \<open>i\<close> implements a step on the store: the same result, and the abstraction
  of what it leaves is what the step leaves.
\<close>

definition abs_db :: "nat \<Rightarrow> database \<Rightarrow> store" where "abs_db i d = abs_ldb (dbs d ! i)"

definition implements :: "nat \<Rightarrow> 'r \<times> database \<Rightarrow> 'r \<times> store \<Rightarrow> bool" where
  "implements i p q \<longleftrightarrow> fst p = fst q \<and> abs_db i (snd p) = snd q"

lemma implements_with_db:
  "i < length (dbs d) \<Longrightarrow> fst (f (dbs d ! i)) = fst q \<and> abs_ldb (snd (f (dbs d ! i))) = snd q \<Longrightarrow>
   implements i (with_db i d f) q"
  by (simp add: implements_def abs_db_def with_db_in case_prod_beta)

lemma implements_same: "implements i (r, d) (r', A) \<longleftrightarrow> r = r' \<and> abs_db i d = A"
  by (simp add: implements_def)

lemma live_view: "i < length (dbs d) \<Longrightarrow> live now (abs_db i d) k = map_option abs_value (view now d i k)"
  by (simp add: abs_db_def live_abs view_def)

text \<open>
  A kind of values with its abstraction \<open>av\<close>, the constructor \<open>amk\<close> of the abstract values and the match
  \<open>aun\<close> on them.
\<close>

locale abstract_kind = value_kind un mk good goc fresh
  for un :: "rudis_object \<Rightarrow> 'a option" and mk :: "'a \<Rightarrow> rudis_object" and good :: "'a \<Rightarrow> bool"
    and goc :: "string \<Rightarrow> logical_db \<Rightarrow> 'a res \<times> logical_db" and fresh :: 'a +
  fixes av :: "'a \<Rightarrow> 'b" and amk :: "'b \<Rightarrow> avalue" and aun :: "avalue \<Rightarrow> 'b option"
  assumes abs_mk: "abs_value (mk x) = amk (av x)" and aun_abs: "aun (abs_value v) = map_option av (un v)"
begin

lemma entry_refines:
  assumes ok: "ldb_ok l"
    and step: "\<And>x. good x \<Longrightarrow> x = fresh \<or> hm_get (data l) k = Some (mk x) \<Longrightarrow>
      fst (f x) = fst (g (av x)) \<and> av (snd (f x)) = snd (g (av x))"
  shows "fst (on_entry goc mk k f l) = fst (a_entry aun amk (av fresh) k g (abs_ldb l)) \<and>
    abs_ldb (snd (on_entry goc mk k f l)) = snd (a_entry aun amk (av fresh) k g (abs_ldb l))"
proof (cases rule: kind_cases [of l k])
  case (there x)
  have "good x" using ldb_okD(4) [OF ok there] by (simp add: mk_good)
  then show ?thesis
    using there step [of x] aun_abs [of "mk x"] by (simp add: entry_there a_entry_def abs_ldb_key(2) abs_mk)
next
  case absent
  then show ?thesis
    using step [of fresh] fresh_good no_deadline [OF ok absent] by (simp add: entry_absent a_entry_def abs_mk abs_ldb_def)
next
  case (other v)
  then show ?thesis using aun_abs [of v] by (simp add: entry_other a_entry_def abs_ldb_key(2))
qed

lemma stored_refines:
  assumes ok: "ldb_ok l"
    and step: "\<And>x. good x \<Longrightarrow> hm_get (data l) k = Some (mk x) \<Longrightarrow> fst (f x) \<noteq> Panic \<and>
      fst (f x) = fst (g (av x)) \<and> av (snd (f x)) = snd (g (av x)) \<and> (none_left (snd (f x)) \<longleftrightarrow> gone (snd (g (av x))))"
  shows "fst (on_stored un mk none_left absent k f l) = fst (a_stored aun amk gone absent k g (abs_ldb l)) \<and>
    abs_ldb (snd (on_stored un mk none_left absent k f l)) = snd (a_stored aun amk gone absent k g (abs_ldb l))"
proof (cases rule: kind_cases [of l k])
  case (there x)
  have "good x" using ldb_okD(4) [OF ok there] by (simp add: mk_good)
  then show ?thesis
    using there step [of x] aun_abs [of "mk x"]
    by (auto simp: stored_there a_stored_def abs_ldb_key(2) abs_mk)
next
  case (other v)
  then show ?thesis using aun_abs [of v] by (simp add: stored_other a_stored_def abs_ldb_key(2))
qed (simp add: stored_absent a_stored_def abs_ldb_def)

lemma entry_implements:
  assumes "db_ok d" "i < length (dbs d)"
    and "\<And>x. good x \<Longrightarrow> x = fresh \<or> hm_get (data (dbs d ! i)) k = Some (mk x) \<Longrightarrow>
      fst (f x) = fst (g (av x)) \<and> av (snd (f x)) = snd (g (av x))"
  shows "implements i (with_db i d (on_entry goc mk k f)) (a_entry aun amk (av fresh) k g (abs_db i d))"
  unfolding abs_db_def using assms by (intro implements_with_db entry_refines db_ok_nth)

lemma stored_implements:
  assumes "db_ok d" "i < length (dbs d)"
    and "\<And>x. good x \<Longrightarrow> hm_get (data (dbs d ! i)) k = Some (mk x) \<Longrightarrow> fst (f x) \<noteq> Panic \<and>
      fst (f x) = fst (g (av x)) \<and> av (snd (f x)) = snd (g (av x)) \<and> (none_left (snd (f x)) \<longleftrightarrow> gone (snd (g (av x))))"
  shows "implements i (with_db i d (on_stored un mk none_left absent k f)) (a_stored aun amk gone absent k g (abs_db i d))"
  unfolding abs_db_def using assms by (intro implements_with_db stored_refines db_ok_nth)

end

interpretation strs: abstract_kind un_str Str "\<lambda>_. True" "entry_str init" init "\<lambda>x. x" AStr a_str for init
  by unfold_locales (auto simp: un_str_def split: rudis_object.split)

interpretation alists: abstract_kind un_list OList "\<lambda>_. True" get_or_create_list "[]" "\<lambda>x. x" AList a_list
  by unfold_locales (auto simp: un_list_def split: rudis_object.split)

interpretation ahashes: abstract_kind un_hash OHash hm_wf get_or_create_hash "[]" hm_get AHash a_hash
  by unfold_locales (auto simp: un_hash_def split: rudis_object.split)

interpretation asets: abstract_kind un_set OSet distinct get_or_create_set "[]" set ASet a_set
  by unfold_locales (auto simp: un_set_def split: rudis_object.split)

interpretation azsets: abstract_kind un_zset OZSet z_ok get_or_create_zset z_new z_dict AZSet a_zset
  by unfold_locales (auto simp: un_zset_def split: rudis_object.split)

subsection \<open>Steps that are not on one kind\<close>

lemma live_list_implements:
  assumes i: "i < length (dbs d)"
  shows "implements i (with_db i d (get_list_mut now absent k f)) (a_live_list now absent k f (abs_db i d))"
proof -
  let ?l = "dbs d ! i"
  have "fst (get_list_mut now absent k f ?l) = fst (a_live_list now absent k f (abs_ldb ?l)) \<and>
    abs_ldb (snd (get_list_mut now absent k f ?l)) = snd (a_live_list now absent k f (abs_ldb ?l))"
  proof (cases "ldb_is_expired now ?l k")
    case True
    then have "live now (abs_ldb ?l) k = None"
      by (auto simp: live_abs ldb_get_def ldb_is_expired_def split: option.splits)
    moreover have "abs_ldb (?l\<lparr>data := hm_remove k (data ?l), expiry := hm_remove k (expiry ?l)\<rparr>) = (abs_ldb ?l)(k := None)"
      by (auto simp: abs_ldb_def fun_eq_iff hm_get_remove)
    ultimately show ?thesis using True by (simp add: get_list_mut_def ldb_get_mut_def a_live_list_def)
  next
    case False
    then have v: "live now (abs_ldb ?l) k = map_option abs_value (hm_get (data ?l) k)"
      by (auto simp: live_abs ldb_get_def ldb_is_expired_def split: option.splits)
    have "(abs_ldb ?l)(k := None) = abs_ldb ?l" if "hm_get (data ?l) k = None"
      using that by (auto simp: abs_ldb_def fun_eq_iff)
    then show ?thesis
      using False v by (auto simp: get_list_mut_def ldb_get_mut_def a_live_list_def case_prod_beta abs_ldb_key(2)
          split: option.split rudis_object.split)
  qed
  then show ?thesis using i by (intro implements_with_db) (simp_all add: abs_db_def)
qed

lemma set_expiry_refines:
  assumes "now + t \<le> instant_max"
  shows "fst (ldb_set_expiry now k t l) = fst (a_expire now k t (abs_ldb l)) \<and>
    abs_ldb (snd (ldb_set_expiry now k t l)) = snd (a_expire now k t (abs_ldb l))"
  using assms
  by (auto simp: ldb_set_expiry_def instant_add_def a_expire_def abs_ldb_def hm_contains_def fun_eq_iff hm_get_insert
      split: option.splits)

lemma drop_refines:
  "fst (case ldb_remove k l of (v, l1) \<Rightarrow> (Ok (v \<noteq> None), l1)) = fst (a_drop k (abs_ldb l)) \<and>
   abs_ldb (snd (case ldb_remove k l of (v, l1) \<Rightarrow> (Ok (v \<noteq> None), l1))) = snd (a_drop k (abs_ldb l))"
  by (simp add: case_prod_beta a_drop_def) (simp add: ldb_remove_def abs_ldb_def)

end
