(* ===== verification/StoreSpec.thy ===== *)
theory StoreSpec imports Store begin

text \<open>
  The abstract specification of the commands: for a world, a command and a store, the set of outcomes,
  each a reply and the store it leaves.  Where an answer lists the elements of a set or a map, every order
  is an outcome; where a command draws at random, every draw is.  The specification is that of this
  server, its departures from Redis included: \<open>GETDEL\<close> of another kind of value drops the deadline,
  \<open>SET NX\<close> rounds its deadline to seconds, \<open>LREM\<close>, \<open>SINTERSTORE\<close> and a refused increment leave empty or fresh
  values behind, and commands that change a value look at it past its deadline.
\<close>

type_synonym outcome = "frame option \<times> store"

text \<open>The result of a step, sent as \<open>h\<close> sends it; a value that is read, the store unchanged; and a set that
  is read, in any order.\<close>

definition only :: "('r res \<Rightarrow> frame option) \<Rightarrow> 'r res \<times> store \<Rightarrow> outcome set" where
  "only h q = {(h (fst q), snd q)}"

definition seen :: "('r res \<Rightarrow> frame option) \<Rightarrow> 'r res \<Rightarrow> store \<Rightarrow> outcome set" where
  "seen h r A = {(h r, A)}"

definition shuffled :: "'x set \<Rightarrow> 'x list set" where
  "shuffled S = {xs. distinct xs \<and> set xs = S}"

definition in_any_order :: "('x list res \<Rightarrow> frame option) \<Rightarrow> 'x set res \<Rightarrow> store \<Rightarrow> outcome set" where
  "in_any_order h r A =
     (case r of Ok S \<Rightarrow> {(h (Ok xs), A) | xs. xs \<in> shuffled S} | Err e \<Rightarrow> {(h (Err e), A)} | Panic \<Rightarrow> {(None, A)})"

text \<open>What drawing \<open>n\<close> elements may give: distinct ones, all of them when there are fewer.\<close>

definition samples :: "nat \<Rightarrow> 'x set \<Rightarrow> 'x list set" where
  "samples n S = {xs. distinct xs \<and> set xs \<subseteq> S \<and> length xs = min n (card S)}"

subsection \<open>Keys\<close>

definition visible :: "nat \<Rightarrow> store \<Rightarrow> string set" where
  "visible now A = {k. live now A k \<noteq> None}"

fun avalue_type :: "avalue \<Rightarrow> string" where
  "avalue_type (AStr _) = ''string''"
| "avalue_type (AList _) = ''list''"
| "avalue_type (AHash _) = ''hash''"
| "avalue_type (ASet _) = ''set''"
| "avalue_type (AZSet _) = ''zset''"

definition a_rename :: "string \<Rightarrow> string \<Rightarrow> 'r \<Rightarrow> store \<Rightarrow> 'r res \<times> store" where
  "a_rename src dst r A =
     (case A src of None \<Rightarrow> (Err NoSuchKey, A) | Some (v, _) \<Rightarrow> (Ok r, A(src := None, dst \<mapsto> (v, None))))"

definition a_expire_at :: "nat \<Rightarrow> nat \<Rightarrow> string \<Rightarrow> nat \<Rightarrow> store \<Rightarrow> bool res \<times> store" where
  "a_expire_at now wall k target A =
     (if target \<le> wall then a_drop k A else a_expire now k (target - wall) A)"

definition a_persist :: "string \<Rightarrow> store \<Rightarrow> bool res \<times> store" where
  "a_persist k A =
     (case A k of Some (v, Some _) \<Rightarrow> (Ok True, A(k \<mapsto> (v, None))) | _ \<Rightarrow> (Ok False, A))"

definition a_pttl :: "nat \<Rightarrow> string \<Rightarrow> store \<Rightarrow> int" where
  "a_pttl now k A =
     (if live now A k = None then - 2
      else case snd (the (A k)) of None \<Rightarrow> - 1 | Some t \<Rightarrow> wrap_i64 (int (as_millis (t - now))))"

fun spec_key :: "world \<Rightarrow> key_cmd \<Rightarrow> store \<Rightarrow> outcome set" where
  "spec_key w (Del ks) A = only int_result (Ok (wrap_i64 (int (card (set ks \<inter> dom A)))), A |` (- set ks))"
| "spec_key w (Exists ks) A = seen int_result (Ok (wrap_i64 (int (length (filter (\<lambda>k. k \<in> visible (w_now w) A) ks))))) A"
| "spec_key w (Type k) A =
     seen (reply Simple) (Ok (case live (w_now w) A k of None \<Rightarrow> ''none'' | Some v \<Rightarrow> avalue_type v)) A"
| "spec_key w (Rename src dst) A = only ok_result (a_rename src dst () A)"
| "spec_key w (Renamenx src dst) A =
     only bool_int_result (if dst \<in> visible (w_now w) A then (Ok False, A) else a_rename src dst True A)"
| "spec_key w (Expire k n) A =
     only bool_int_result (if n < 0 then a_drop k A else a_expire (w_now w) k (from_secs (as_usize n)) A)"
| "spec_key w (PExpire k n) A =
     only bool_int_result (if n < 0 then a_drop k A else a_expire (w_now w) k (from_millis (as_usize n)) A)"
| "spec_key w (ExpireAt k n) A = only bool_int_result (a_expire_at (w_now w) (w_wall w) k (from_secs (as_usize n)) A)"
| "spec_key w (PExpireAt k n) A = only bool_int_result (a_expire_at (w_now w) (w_wall w) k (from_millis (as_usize n)) A)"
| "spec_key w (Ttl k) A =
     seen int_result (Ok (let ms = a_pttl (w_now w) k A in if ms \<ge> 0 then ms div 1000 else ms)) A"
| "spec_key w (Pttl k) A = seen int_result (Ok (a_pttl (w_now w) k A)) A"
| "spec_key w (Persist k) A = only bool_int_result (a_persist k A)"
| "spec_key w (Keys pat) A = in_any_order bulk_array (Ok (visible (w_now w) A \<inter> glob_lang pat)) A"
| "spec_key w Randomkey A =
     (if visible (w_now w) A = {} then {(Some Null, A)} else {(Some (Bulk k), A) | k. k \<in> visible (w_now w) A})"

subsection \<open>Strings\<close>

definition a_put_str :: "string \<Rightarrow> string \<Rightarrow> nat option \<Rightarrow> store \<Rightarrow> store" where
  "a_put_str k v deadline A = A(k \<mapsto> (AStr v, deadline))"

definition a_get :: "nat \<Rightarrow> string \<Rightarrow> store \<Rightarrow> string option res" where
  "a_get now k A = a_read a_str now k None Some A"

text \<open>\<open>SET\<close>: with NX or XX only when there is no value, or one, to see; with NX the deadline in whole seconds.\<close>

definition spec_set :: "world \<Rightarrow> set_args \<Rightarrow> store \<Rightarrow> outcome set" where
  "spec_set w a A =
     (let k = sa_key a; old = live (w_now w) A k;
          dur = (if sa_nx a then map_option (\<lambda>t. from_secs (as_secs t)) (sa_expire a) else sa_expire a)
      in if sa_get a \<and> a_get (w_now w) k A = Err WrongType then {(Some (frame_from_error WrongType), A)}
         else if if sa_nx a then old = None else sa_xx a \<longrightarrow> old \<noteq> None
         then {(if sa_get a then null_or_bulk (a_get (w_now w) k A) else Some frame_ok_reply,
                a_put_str k (sa_value a) (map_option ((+) (w_now w)) dur) A)}
         else {(Some Null, A)})"

definition spec_getex :: "world \<Rightarrow> getex_args \<Rightarrow> store \<Rightarrow> outcome set" where
  "spec_getex w a A =
     (case a_get (w_now w) (ga_key a) A of
        Ok (Some v) \<Rightarrow>
          {(Some (Bulk v),
            if ga_persist a then snd (a_persist (ga_key a) A)
            else case ga_expire a of
              None \<Rightarrow> A
            | Some t \<Rightarrow>
                (let ms = wrap_i64 (int (as_millis t))
                 in if ms < 0 then A(ga_key a := None) else snd (a_expire (w_now w) (ga_key a) (from_millis (as_usize ms)) A)))}
      | r \<Rightarrow> {(null_or_bulk r, A)})"

definition a_number :: "string \<Rightarrow> 'n res \<Rightarrow> ('n \<Rightarrow> string) \<Rightarrow> 'n res \<times> string" where
  "a_number v r text = (r, case r of Ok n \<Rightarrow> text n | _ \<Rightarrow> v)"

definition float_sum :: "string \<Rightarrow> f64 \<Rightarrow> redis_error \<Rightarrow> (f64 \<Rightarrow> bool) \<Rightarrow> f64 res" where
  "float_sum v x e bad = bind_res (parse_float_value v) (\<lambda>n. if bad (f_add n x) then Err e else Ok (f_add n x))"

definition a_setrange :: "nat \<Rightarrow> string \<Rightarrow> string \<Rightarrow> nat res \<times> string" where
  "a_setrange off v s =
     (let s1 = s @ replicate (off + length v - length s) (chr 0)
      in (Ok (length s1), take off s1 @ v @ drop (off + length v) s1))"

definition a_mset :: "(string \<times> string) list \<Rightarrow> store \<Rightarrow> store" where
  "a_mset ps A = A ++ map_of (rev (map (\<lambda>(k, v). (k, (AStr v, None))) ps))"

text \<open>A value of another kind is put back, without its deadline.\<close>

definition a_getdel :: "string \<Rightarrow> store \<Rightarrow> string option res \<times> store" where
  "a_getdel k A =
     (case A k of
        None \<Rightarrow> (Ok None, A)
      | Some (v, _) \<Rightarrow> (case a_str v of
          None \<Rightarrow> (Err WrongType, A(k \<mapsto> (v, None)))
        | Some s \<Rightarrow> (Ok (Some s), A(k := None))))"

fun spec_string :: "world \<Rightarrow> string_cmd \<Rightarrow> store \<Rightarrow> outcome set" where
  "spec_string w (CSet a) A = spec_set w a A"
| "spec_string w (Get k) A = seen null_or_bulk (a_get (w_now w) k A) A"
| "spec_string w (GetSet k v) A =
     (case a_get (w_now w) k A of
        Ok old \<Rightarrow> {(null_or_bulk (Ok old), a_put_str k v None A)} | r \<Rightarrow> {(null_or_bulk r, A)})"
| "spec_string w (GetDel k) A =
     only null_or_bulk (a_getdel k A)"
| "spec_string w (GetEx a) A = spec_getex w a A"
| "spec_string w (Mset ps) A = only ok_result (Ok (), a_mset ps A)"
| "spec_string w (Mget ks) A =
     seen opt_bulk_array (Ok (map (\<lambda>k. Option.bind (live (w_now w) A k) a_str) ks)) A"
| "spec_string w (Msetnx ps) A =
     only bool_int_result
       (if fst ` set ps \<inter> visible (w_now w) A = {}
        then (Ok True, a_mset ps A) else (Ok False, A))"
| "spec_string w (Setnx k v) A =
     only bool_int_result
       (if k \<in> visible (w_now w) A then (Ok False, A) else (Ok True, a_put_str k v None A))"
| "spec_string w (Setex k n v) A = only ok_result (Ok (), a_put_str k v (Some (w_now w + from_secs (as_usize n))) A)"
| "spec_string w (PSetex k n v) A = only ok_result (Ok (), a_put_str k v (Some (w_now w + from_millis (as_usize n))) A)"
| "spec_string w (Incr k) A = only int_result (a_entry a_str AStr ''0'' k (\<lambda>v. a_number v (incr_value v 1) show_int) A)"
| "spec_string w (IncrBy k n) A = only int_result (a_entry a_str AStr ''0'' k (\<lambda>v. a_number v (incr_value v n) show_int) A)"
| "spec_string w (IncrByFloat k x) A =
     only (reply float_bulk) (a_entry a_str AStr ''0'' k (\<lambda>v. a_number v
       (float_sum v x (Generic ''ERR increment would produce NaN or Infinity'') (\<lambda>r. is_nan r \<or> is_infinite r)) format_float) A)"
| "spec_string w (Decr k) A = only int_result (a_entry a_str AStr ''0'' k (\<lambda>v. a_number v (incr_value v (- 1)) show_int) A)"
| "spec_string w (DecrBy k n) A =
     only int_result (a_entry a_str AStr ''0'' k (\<lambda>v. a_number v (incr_value v (wrap_i64 (- n))) show_int) A)"
| "spec_string w (CAppend k v) A = only len_result (a_entry a_str AStr '''' k (\<lambda>s. (Ok (length (s @ v)), s @ v)) A)"
| "spec_string w (Strlen k) A = seen len_result (a_read a_str (w_now w) k 0 length A) A"
| "spec_string w (GetRange k a b) A = seen (reply Bulk) (a_read a_str (w_now w) k [] (slice a b) A) A"
| "spec_string w (SetRange k off v) A = only len_result (a_entry a_str AStr '''' k (a_setrange off v) A)"

subsection \<open>Lists\<close>

definition a_move :: "string \<Rightarrow> string \<Rightarrow> bool \<Rightarrow> bool \<Rightarrow> store \<Rightarrow> string option res \<times> store" where
  "a_move src dst sleft dleft A =
     (if src = dst then
        a_stored a_list AList (\<lambda>_. False) (Ok None) src (\<lambda>xs.
          if xs = [] then (Ok None, []) else if sleft then (Ok (Some (hd xs)), push_side dleft (hd xs) (tl xs))
          else (Ok (Some (last xs)), push_side dleft (last xs) (butlast xs))) A
      else
        (case a_stored a_list AList (\<lambda>xs. xs = []) (Ok None) src (\<lambda>xs.
            if xs = [] then (Ok None, []) else if sleft then (Ok (Some (hd xs)), tl xs) else (Ok (Some (last xs)), butlast xs)) A of
           (Ok (Some x), A1) \<Rightarrow> a_entry a_list AList [] dst (\<lambda>ys. (Ok (Some x), push_side dleft x ys)) A1
         | (r, A1) \<Rightarrow> (r, A1)))"

fun spec_list :: "world \<Rightarrow> list_cmd \<Rightarrow> store \<Rightarrow> outcome set" where
  "spec_list w (LPush k vs) A = only len_result (a_entry a_list AList [] k (\<lambda>xs. (Ok (length vs + length xs), rev vs @ xs)) A)"
| "spec_list w (RPush k vs) A = only len_result (a_entry a_list AList [] k (\<lambda>xs. (Ok (length xs + length vs), xs @ vs)) A)"
| "spec_list w (LPushX k vs) A =
     only len_result (a_live_list (w_now w) (Ok 0) k (\<lambda>xs. (Ok (length vs + length xs), rev vs @ xs)) A)"
| "spec_list w (RPushX k vs) A =
     only len_result (a_live_list (w_now w) (Ok 0) k (\<lambda>xs. (Ok (length xs + length vs), xs @ vs)) A)"
| "spec_list w (LPop k n) A =
     only (\<lambda>r. exec_pop_result r (n = 1))
       (a_stored a_list AList (\<lambda>xs. xs = []) (Ok []) k (\<lambda>xs. (Ok (take n xs), drop n xs)) A)"
| "spec_list w (RPop k n) A =
     only (\<lambda>r. exec_pop_result r (n = 1))
       (a_stored a_list AList (\<lambda>xs. xs = []) (Ok []) k (\<lambda>xs. (Ok (take n (rev xs)), take (length xs - n) xs)) A)"
| "spec_list w (LLen k) A = seen len_result (a_read a_list (w_now w) k 0 length A) A"
| "spec_list w (LRange k a b) A = seen bulk_array (a_read a_list (w_now w) k [] (slice a b) A) A"
| "spec_list w (LIndex k n) A =
     seen null_or_bulk (a_read a_list (w_now w) k None (\<lambda>xs. idx xs (clamp_index n (length xs))) A) A"
| "spec_list w (LSet k n v) A =
     only ok_result (a_live_list (w_now w) (Err NoSuchKey) k (\<lambda>xs. let j = clamp_index n (length xs)
       in if j < length xs then (Ok (), xs[j := v]) else (Err IndexOutOfRange, xs)) A)"
| "spec_list w (LInsert k bf p v) A =
     only int_result (a_live_list (w_now w) (Ok (- 1)) k (\<lambda>xs. case position p xs of
         None \<Rightarrow> (Ok (- 1), xs)
       | Some j \<Rightarrow> let j' = (if bf then j else Suc j)
                  in (Ok (as_i64 (Suc (length xs))), take j' xs @ v # drop j' xs)) A)"
| "spec_list w (LRem k n v) A =
     only len_result (a_live_list (w_now w) (Ok 0) k (\<lambda>xs. case lrem_value n v xs of (ys, r) \<Rightarrow> (Ok r, ys)) A)"
| "spec_list w (LTrim k a b) A =
     only ok_result (a_stored a_list AList (\<lambda>xs. xs = []) (Ok ()) k (\<lambda>xs. (Ok (), slice a b xs)) A)"
| "spec_list w (LMove src dst sleft dleft) A = only null_or_bulk (a_move src dst sleft dleft A)"

subsection \<open>Hashes\<close>

definition pairs_of :: "(string \<Rightarrow> string option) \<Rightarrow> (string \<times> string) set" where
  "pairs_of m = {(f, v). m f = Some v}"

text \<open>A field is read, \<open>0\<close> when there is none, and written back, changed when the change succeeds.\<close>

definition a_field :: "string \<Rightarrow> (string \<Rightarrow> 'n res) \<Rightarrow> ('n \<Rightarrow> string) \<Rightarrow> (string \<Rightarrow> string option) \<Rightarrow> 'n res \<times> (string \<Rightarrow> string option)" where
  "a_field f change text m =
     (let v = (case m f of None \<Rightarrow> ''0'' | Some v \<Rightarrow> v)
      in (change v, m(f \<mapsto> (case change v of Ok n \<Rightarrow> text n | _ \<Rightarrow> v))))"

definition a_hset :: "(string \<times> string) list \<Rightarrow> (string \<Rightarrow> string option) \<Rightarrow> nat res \<times> (string \<Rightarrow> string option)" where
  "a_hset fs m = (Ok (card (fst ` set fs - dom m)), m ++ map_of (rev fs))"

fun spec_hash :: "world \<Rightarrow> hash_cmd \<Rightarrow> store \<Rightarrow> outcome set" where
  "spec_hash w (HSet k fs) A = only len_result (a_entry a_hash AHash Map.empty k (a_hset fs) A)"
| "spec_hash w (HSetnx k f v) A =
     only bool_int_result (a_entry a_hash AHash Map.empty k
       (\<lambda>m. if m f = None then (Ok True, m(f \<mapsto> v)) else (Ok False, m)) A)"
| "spec_hash w (HGet k f) A = seen null_or_bulk (a_read a_hash (w_now w) k None (\<lambda>m. m f) A) A"
| "spec_hash w (HMGet k fs) A =
     seen opt_bulk_array (a_read a_hash (w_now w) k (replicate (length fs) None) (\<lambda>m. map m fs) A) A"
| "spec_hash w (HMSet k fs) A =
     only (\<lambda>r. ok_result (map_res (\<lambda>_. ()) r)) (a_entry a_hash AHash Map.empty k (a_hset fs) A)"
| "spec_hash w (HDel k fs) A =
     only len_result (a_stored a_hash AHash (\<lambda>m. m = Map.empty) (Ok 0) k
       (\<lambda>m. (Ok (card (set fs \<inter> dom m)), m |` (- set fs))) A)"
| "spec_hash w (HExists k f) A = seen bool_int_result (a_read a_hash (w_now w) k False (\<lambda>m. m f \<noteq> None) A) A"
| "spec_hash w (HGetAll k) A = in_any_order (reply pair_frames) (a_read a_hash (w_now w) k {} pairs_of A) A"
| "spec_hash w (HKeys k) A = in_any_order bulk_array (a_read a_hash (w_now w) k {} dom A) A"
| "spec_hash w (HVals k) A =
     in_any_order (\<lambda>r. bulk_array (map_res (map snd) r)) (a_read a_hash (w_now w) k {} pairs_of A) A"
| "spec_hash w (HLen k) A = seen len_result (a_read a_hash (w_now w) k 0 (\<lambda>m. card (dom m)) A) A"
| "spec_hash w (HIncrBy k f n) A =
     only int_result (a_entry a_hash AHash Map.empty k (a_field f (\<lambda>v. incr_value v n) show_int) A)"
| "spec_hash w (HIncrByFloat k f x) A =
     only (reply float_bulk) (a_entry a_hash AHash Map.empty k (a_field f (\<lambda>v.
       float_sum v x (Generic ''ERR resulting score is not a number (NaN)'') is_nan) format_float) A)"

subsection \<open>Sets\<close>

definition a_members :: "nat \<Rightarrow> store \<Rightarrow> string \<Rightarrow> string set res" where
  "a_members now A k = a_read a_set now k {} (\<lambda>S. S) A"

text \<open>The sets at some keys combined, when none of the keys holds another kind.\<close>

definition a_combine :: "(string set list \<Rightarrow> string set) \<Rightarrow> nat \<Rightarrow> string list \<Rightarrow> store \<Rightarrow> string set res" where
  "a_combine f now ks A =
     (if \<exists>k\<in>set ks. a_members now A k = Err WrongType then Err WrongType
      else Ok (f (map (\<lambda>k. case a_members now A k of Ok S \<Rightarrow> S | _ \<Rightarrow> {}) ks)))"

definition a_union :: "string set list \<Rightarrow> string set" where "a_union Ss = \<Union> (set Ss)"
definition a_inter :: "string set list \<Rightarrow> string set" where "a_inter Ss = (if Ss = [] then {} else \<Inter> (set Ss))"
definition a_diff :: "string set list \<Rightarrow> string set" where "a_diff Ss = (if Ss = [] then {} else hd Ss - \<Union> (set (tl Ss)))"

definition a_store :: "string \<Rightarrow> string set res \<Rightarrow> store \<Rightarrow> nat res \<times> store" where
  "a_store dst r A = (map_res card r, case r of Ok S \<Rightarrow> A(dst \<mapsto> (ASet S, None)) | _ \<Rightarrow> A)"

definition a_smove :: "string \<Rightarrow> string \<Rightarrow> string \<Rightarrow> store \<Rightarrow> bool res \<times> store" where
  "a_smove src dst m A =
     (case A src of
        None \<Rightarrow> (Ok False, A)
      | Some (v, e) \<Rightarrow> (case a_set v of
          None \<Rightarrow> (Err WrongType, A)
        | Some S \<Rightarrow>
            if m \<notin> S then (Ok False, A)
            else a_entry a_set ASet {} dst (\<lambda>T. (Ok True, insert m T))
              (if S = {m} then A(src := None) else A(src \<mapsto> (ASet (S - {m}), e)))))"

fun spec_sets :: "world \<Rightarrow> set_cmd \<Rightarrow> store \<Rightarrow> outcome set" where
  "spec_sets w (SAdd k ms) A =
     only len_result (a_entry a_set ASet {} k (\<lambda>S. (Ok (card (set ms - S)), S \<union> set ms)) A)"
| "spec_sets w (SRem k ms) A =
     only len_result (a_stored a_set ASet (\<lambda>S. S = {}) (Ok 0) k (\<lambda>S. (Ok (card (set ms \<inter> S)), S - set ms)) A)"
| "spec_sets w (SMembers k) A = in_any_order bulk_array (a_members (w_now w) A k) A"
| "spec_sets w (SIsMember k m) A = seen bool_int_result (a_read a_set (w_now w) k False (\<lambda>S. m \<in> S) A) A"
| "spec_sets w (SMIsMember k ms) A =
     seen (reply (\<lambda>bs. Array (map bool_int bs)))
       (a_read a_set (w_now w) k (replicate (length ms) False) (\<lambda>S. map (\<lambda>m. m \<in> S) ms) A) A"
| "spec_sets w (SCard k) A = seen len_result (a_read a_set (w_now w) k 0 card A) A"
| "spec_sets w (SUnion ks) A = in_any_order bulk_array (a_combine a_union (w_now w) ks A) A"
| "spec_sets w (SInter ks) A = in_any_order bulk_array (a_combine a_inter (w_now w) ks A) A"
| "spec_sets w (SDiff ks) A = in_any_order bulk_array (a_combine a_diff (w_now w) ks A) A"
| "spec_sets w (SUnionStore dst ks) A = only len_result (a_store dst (a_combine a_union (w_now w) ks A) A)"
| "spec_sets w (SInterStore dst ks) A = only len_result (a_store dst (a_combine a_inter (w_now w) ks A) A)"
| "spec_sets w (SDiffStore dst ks) A = only len_result (a_store dst (a_combine a_diff (w_now w) ks A) A)"
| "spec_sets w (SPop k n) A =
     (\<Union>xs \<in> {xs. \<forall>S e. A k = Some (ASet S, e) \<longrightarrow> xs \<in> samples n S}.
       only (\<lambda>r. one_or_array r (n = 1))
         (a_stored a_set ASet (\<lambda>S. S = {}) (Ok []) k (\<lambda>S. (Ok xs, S - set xs)) A))"
| "spec_sets w (SRandMember k n) A =
     (case a_members (w_now w) A k of
        Ok S \<Rightarrow> {(one_or_array (Ok xs) (n = 1), A) | xs.
          if n \<ge> 0 then xs \<in> samples (as_usize n) S else if S = {} then xs = [] else length xs = nat \<bar>n\<bar> \<and> set xs \<subseteq> S}
      | Err e \<Rightarrow> {(Some (frame_from_error e), A)}
      | Panic \<Rightarrow> {})"
| "spec_sets w (SMove src dst m) A = only bool_int_result (a_smove src dst m A)"

subsection \<open>Sorted sets\<close>

text \<open>The members with their scores in order of score and name, and those with a score between two bounds.\<close>

definition ranking :: "(string \<Rightarrow> f64 option) \<Rightarrow> (string \<times> f64) list" where
  "ranking D = sorted_items (graph D)"

definition within_bounds :: "score_bound \<Rightarrow> score_bound \<Rightarrow> (string \<Rightarrow> f64 option) \<Rightarrow> (string \<times> f64) list" where
  "within_bounds mn mx D = filter (\<lambda>p. in_bounds mn mx (snd p)) (ranking D)"

definition take_part :: "nat \<Rightarrow> nat option \<Rightarrow> 'x list \<Rightarrow> 'x list" where
  "take_part offset cnt xs = take (case cnt of None \<Rightarrow> usize_max | Some c \<Rightarrow> c) (drop offset xs)"

definition a_cut :: "((string \<Rightarrow> f64 option) \<Rightarrow> (string \<times> f64) list) \<Rightarrow> ((string \<times> f64) list \<Rightarrow> 'r) \<Rightarrow>
    string \<Rightarrow> 'r \<Rightarrow> store \<Rightarrow> 'r res \<times> store" where
  "a_cut part r k none A =
     a_stored a_zset AZSet (\<lambda>D. D = Map.empty) (Ok none) k (\<lambda>D. (Ok (r (part D)), D |` (- (fst ` set (part D))))) A"

text \<open>Two score bounds that can be read, or the error of the first that cannot.\<close>

definition a_bounds :: "score_bound res \<Rightarrow> score_bound res \<Rightarrow> (score_bound \<Rightarrow> score_bound \<Rightarrow> outcome set) \<Rightarrow> store \<Rightarrow> outcome set" where
  "a_bounds r1 r2 f A =
     (case bind_res r1 (\<lambda>b1. map_res (Pair b1) r2) of
        Ok (b1, b2) \<Rightarrow> f b1 b2 | Err e \<Rightarrow> {(Some (frame_from_error e), A)} | Panic \<Rightarrow> {})"

fun spec_zset :: "world \<Rightarrow> zset_cmd \<Rightarrow> store \<Rightarrow> outcome set" where
  "spec_zset w (ZAdd a) A =
     only int_result (a_entry a_zset AZSet Map.empty (za_key a)
       (zadd_dict (za_nx a) (za_xx a) (za_gt a) (za_lt a) (za_ch a) (za_members a) 0) A)"
| "spec_zset w (ZRem k ms) A =
     only len_result (a_stored a_zset AZSet (\<lambda>D. D = Map.empty) (Ok 0) k
       (\<lambda>D. (Ok (card (set ms \<inter> dom D)), D |` (- set ms))) A)"
| "spec_zset w (ZScore k m) A =
     seen (reply (case_option Null float_bulk)) (a_read a_zset (w_now w) k None (\<lambda>D. D m) A) A"
| "spec_zset w (ZMScore k ms) A =
     seen (reply (\<lambda>vs. Array (map (case_option Null float_bulk) vs)))
       (a_read a_zset (w_now w) k (replicate (length ms) None) (\<lambda>D. map D ms) A) A"
| "spec_zset w (ZIncrBy k x m) A =
     only (reply float_bulk) (a_entry a_zset AZSet Map.empty k (\<lambda>D.
       let s = f_add (case D m of None \<Rightarrow> Fin 0 | Some s \<Rightarrow> s) x
       in if is_nan s then (Err ScoreNaN, D) else (Ok s, D(m \<mapsto> s))) A)"
| "spec_zset w (ZRank k m) A =
     seen (reply opt_int) (a_read a_zset (w_now w) k None (\<lambda>D. position m (map fst (ranking D))) A) A"
| "spec_zset w (ZRevRank k m) A =
     seen (reply opt_int) (a_read a_zset (w_now w) k None (\<lambda>D. position m (map fst (rev (ranking D)))) A) A"
| "spec_zset w (ZCard k) A = seen len_result (a_read a_zset (w_now w) k 0 (\<lambda>D. card (dom D)) A) A"
| "spec_zset w (ZCount k lo hi) A =
     a_bounds (parse_min lo) (parse_max hi) (\<lambda>mn mx.
       seen len_result (a_read a_zset (w_now w) k 0 (\<lambda>D. length (within_bounds mn mx D)) A) A) A"
| "spec_zset w (ZRange k a b rv ws) A =
     seen (reply build_member_score_array) (a_read a_zset (w_now w) k [] (\<lambda>D.
       (if rv then rev else id) (map (with_scores ws) (slice a b (ranking D)))) A) A"
| "spec_zset w (ZRangeByScore z) A =
     a_bounds (parse_min (zr_min z)) (parse_max (zr_max z)) (\<lambda>mn mx.
       seen (reply build_member_score_array) (a_read a_zset (w_now w) (zr_key z) [] (\<lambda>D.
         map (with_scores (zr_withscores z)) (take_part (zr_offset z) (zr_count z) (within_bounds mn mx D))) A) A) A"
| "spec_zset w (ZRevRangeByScore z) A =
     a_bounds (parse_max (zr_max z)) (parse_min (zr_min z)) (\<lambda>mx mn.
       seen (reply build_member_score_array) (a_read a_zset (w_now w) (zr_key z) [] (\<lambda>D.
         map (with_scores (zr_withscores z)) (take_part (zr_offset z) (zr_count z) (rev (within_bounds mn mx D)))) A) A) A"
| "spec_zset w (ZRevRange k a b ws) A =
     seen (reply build_member_score_array) (a_read a_zset (w_now w) k [] (\<lambda>D.
       rev (map (with_scores ws) (slice a b (ranking D)))) A) A"
| "spec_zset w (ZRemRangeByRank k a b) A = only len_result (a_cut (\<lambda>D. slice a b (ranking D)) length k 0 A)"
| "spec_zset w (ZRemRangeByScore k lo hi) A =
     a_bounds (parse_min lo) (parse_max hi) (\<lambda>mn mx. only len_result (a_cut (within_bounds mn mx) length k 0 A)) A"
| "spec_zset w (ZPopMin k n) A = only (reply popped_pairs) (a_cut (\<lambda>D. take n (ranking D)) id k [] A)"
| "spec_zset w (ZPopMax k n) A = only (reply popped_pairs) (a_cut (\<lambda>D. take n (rev (ranking D))) id k [] A)"

subsection \<open>All commands\<close>

fun spec_server :: "world \<Rightarrow> server_cmd \<Rightarrow> store \<Rightarrow> outcome set" where
  "spec_server w (Ping msg) A = {(Some (case msg of None \<Rightarrow> frame_pong | Some m \<Rightarrow> Bulk m), A)}"
| "spec_server w (Echo msg) A = {(Some (Bulk msg), A)}"
| "spec_server w (Select j) A = {(Some (if j < 16 then frame_ok_reply else frame_from_error DbIndexOutOfRange), A)}"
| "spec_server w Dbsize A = seen len_result (Ok (card (visible (w_now w) A))) A"
| "spec_server w Flushdb A = {(Some frame_ok_reply, Map.empty)}"
| "spec_server w Flushall A = {(Some frame_ok_reply, Map.empty)}"
| "spec_server w Info A = {(Some (Bulk (info_string (w_os w))), A)}"
| "spec_server w Quit A = {(Some frame_ok_reply, A)}"

fun spec_command :: "world \<Rightarrow> command \<Rightarrow> store \<Rightarrow> outcome set" where
  "spec_command w (Server c) A = spec_server w c A"
| "spec_command w (OnKey c) A = spec_key w c A"
| "spec_command w (OnStr c) A = spec_string w c A"
| "spec_command w (OnList c) A = spec_list w c A"
| "spec_command w (OnHash c) A = spec_hash w c A"
| "spec_command w (OnSet c) A = spec_sets w c A"
| "spec_command w (OnZSet c) A = spec_zset w c A"
| "spec_command w (Scripting c) A = {}"

end
