(* ===== verification/StoreRefines.thy ===== *)
theory StoreRefines imports StoreSpec begin

text \<open>
  The commands of \<open>src/cmd\<close> on the database of \<open>src/db/mod.rs\<close> implement their specification on the
  abstract store.
\<close>

definition fulfils :: "nat \<Rightarrow> frame option \<times> database \<Rightarrow> outcome set \<Rightarrow> bool" where
  "fulfils i p S \<longleftrightarrow> (fst p, abs_db i (snd p)) \<in> S"

lemma map_res_same [simp]: "map_res (\<lambda>x. x) r = r" "map_res id r = r"
  by (cases r; simp)+

lemma fulfils_runs: "implements i p q \<Longrightarrow> fulfils i (runs h p) (only h q)"
  by (simp add: fulfils_def implements_def only_def runs_def)

lemma fulfils_reads: "r = r' \<Longrightarrow> fulfils i (reads h r d) (seen h r' (abs_db i d))"
  by (simp add: fulfils_def seen_def reads_def)

lemma fulfils_any_order:
  "r' = map_res set r \<Longrightarrow> (\<And>xs. r = Ok xs \<Longrightarrow> distinct xs) \<Longrightarrow> h Panic = None \<Longrightarrow>
   fulfils i (reads h r d) (in_any_order h r' (abs_db i d))"
  by (cases r) (auto simp: fulfils_def in_any_order_def shuffled_def reads_def)

lemma fulfils_same: "fulfils i (f, d) S \<longleftrightarrow> (f, abs_db i d) \<in> S"
  by (simp add: fulfils_def)

text \<open>Vectors hold at most \<open>isize::MAX\<close> bytes, and the random draws are in range.\<close>

definition memory_ok :: "nat \<Rightarrow> database \<Rightarrow> bool" where
  "memory_ok i d \<longleftrightarrow> (\<forall>k v. hm_get (data (dbs d ! i)) k = Some v \<longrightarrow>
     (case v of Str s \<Rightarrow> length s \<le> isize_max | OList xs \<Rightarrow> length xs \<le> isize_max | _ \<Rightarrow> True))"

definition draws_ok :: "world \<Rightarrow> bool" where
  "draws_ok w \<longleftrightarrow>
     (\<forall>n xs. capacity_ok ref_size n \<longrightarrow>
        (\<exists>ys. w_sample w n xs = Some ys \<and> (distinct xs \<longrightarrow> ys \<in> samples n (set xs)))) \<and>
     (\<forall>n j. 0 < n \<longrightarrow> w_draw w n j < n) \<and> (\<forall>xs. xs \<noteq> [] \<longrightarrow> w_pick w xs \<in> set xs)"

lemma draws_okD:
  assumes "draws_ok w"
  shows "capacity_ok ref_size n \<Longrightarrow> distinct xs \<Longrightarrow> \<exists>ys \<in> samples n (set xs). w_sample w n xs = Some ys" "0 < n \<Longrightarrow> w_draw w n j < n"
    "xs \<noteq> [] \<Longrightarrow> w_pick w xs \<in> set xs"
  using assms unfolding draws_ok_def by blast+

subsection \<open>Reads of one key\<close>

text \<open>The shape of every read of one kind, and its abstraction; \<open>R\<close> forgets the order of what is read.\<close>

definition read_kind ::
    "(rudis_object \<Rightarrow> 'a option) \<Rightarrow> nat \<Rightarrow> nat \<Rightarrow> database \<Rightarrow> string \<Rightarrow> 'b \<Rightarrow> ('a \<Rightarrow> 'b res) \<Rightarrow> 'b res" where
  "read_kind un now i d k absent f =
     read_db i d (\<lambda>l. case ldb_get now l k of
       None \<Rightarrow> Ok absent | Some v \<Rightarrow> (case un v of None \<Rightarrow> Err WrongType | Some x \<Rightarrow> f x))"

lemma reads_of_kind:
  "str_get now i d k = read_kind un_str now i d k None (\<lambda>s. Ok (Some s))"
  "str_strlen now i d k = read_kind un_str now i d k 0 (\<lambda>s. Ok (length s))"
  "get_list now i d k = read_kind un_list now i d k None (\<lambda>xs. Ok (Some xs))"
  "read_hash now i d k a f = read_kind un_hash now i d k a (\<lambda>h. Ok (f h))"
  "read_set now i d k b g = read_kind un_set now i d k b g"
  "get_zset now i d k c h = read_kind un_zset now i d k c (\<lambda>z. or_panic (h z))"
  by (auto simp: read_kind_def read_db_def str_get_def str_strlen_def get_list_def read_hash_def read_set_def get_zset_def
      un_str_def un_list_def un_hash_def un_set_def un_zset_def split: option.split rudis_object.split)

context abstract_kind
begin

lemma read_abs:
  assumes ok: "db_ok d" "i < length (dbs d)" and f: "\<And>x. good x \<Longrightarrow> map_res R (f x) = Ok (g (av x))"
  shows "map_res R (read_kind un now i d k a f) = a_read aun now k (R a) g (abs_db i d)"
proof -
  have "good x" if "ldb_get now (dbs d ! i) k = Some (mk x)" for x
    using ldb_okD(4) [OF db_ok_nth [OF ok], of k "mk x"] that
    by (auto simp: ldb_get_def mk_good split: option.splits if_splits)
  then show ?thesis
    using ok(2) f by (auto simp: read_kind_def db_simps a_read_def live_view view_def aun_abs un_iff split: option.splits)
qed

lemma read_same:
  assumes ok: "db_ok d" "i < length (dbs d)" and f: "\<And>x. good x \<Longrightarrow> f x = Ok (g (av x))"
  shows "read_kind un now i d k a f = a_read aun now k a g (abs_db i d)"
  using read_abs [OF ok, where R = "\<lambda>x. x" and f = f and g = g] f by simp

end

lemma case_Ok: "Ok (case r of None \<Rightarrow> a | Some x \<Rightarrow> f x) = (case r of None \<Rightarrow> Ok a | Some x \<Rightarrow> Ok (f x))"
  by (cases r) simp_all

subsection \<open>Lists\<close>

lemma stored_small: "memory_ok i d \<Longrightarrow> hm_get (data (dbs d ! i)) k = Some (OList xs) \<Longrightarrow> length xs \<le> isize_max"
  by (force simp: memory_ok_def)

lemma small_i64: "n \<le> isize_max \<Longrightarrow> wrap_i64 (int n) = int n"
  by (intro wrap_i64_id) (simp add: in_i64_def i64_min_def i64_max_def isize_max_def)

lemma small_index: "n \<le> isize_max \<Longrightarrow> 0 < n \<Longrightarrow> normalize_index j (wrap_i64 (int n)) = clamp_index j n"
  by (simp add: small_i64 normalize_clamp)

lemma index_small:
  assumes "length xs \<le> isize_max"
  shows "idx xs (normalize_index j (wrap_i64 (int (length xs)))) = idx xs (clamp_index j (length xs))"
    "set_idx xs (normalize_index j (wrap_i64 (int (length xs)))) v = (let m = clamp_index j (length xs) in
       if m < length xs then Some (xs[m := v]) else None)"
  using assms by (cases "xs = []"; simp add: small_index idx_def set_idx_def Let_def)+

text \<open>The lists a client sees are stored ones.\<close>

lemma read_list:
  assumes ok: "db_ok d" "i < length (dbs d)" and mem: "memory_ok i d"
    and f: "\<And>xs. length xs \<le> isize_max \<Longrightarrow> f xs = Ok (g xs)"
  shows "bind_res (get_list now i d k) (\<lambda>r. case r of None \<Rightarrow> Ok a | Some xs \<Rightarrow> f xs) = a_read a_list now k a g (abs_db i d)"
proof -
  have "length xs \<le> isize_max" if "ldb_get now (dbs d ! i) k = Some (OList xs)" for xs
    using that stored_small [OF mem, of k xs] by (auto simp: ldb_get_def split: option.splits if_splits)
  then show ?thesis
    using ok(2) f by (auto simp: get_list_def db_simps a_read_def live_view view_def split: option.splits rudis_object.split)
qed

lemma live_list_step:
  assumes i: "i < length (dbs d)" and mem: "memory_ok i d" and f: "\<And>xs. length xs \<le> isize_max \<Longrightarrow> f xs = g xs"
  shows "implements i (with_db i d (get_list_mut now absent k f)) (a_live_list now absent k g (abs_db i d))"
proof -
  have "get_list_mut now absent k f (dbs d ! i) = get_list_mut now absent k g (dbs d ! i)"
    using f stored_small [OF mem, of k]
    by (auto simp: get_list_mut_def ldb_get_mut_def split: option.split rudis_object.split)
  then have "with_db i d (get_list_mut now absent k f) = with_db i d (get_list_mut now absent k g)"
    by (simp add: with_db_def)
  then show ?thesis using live_list_implements [OF i] by simp
qed

lemma list_ops_implement:
  assumes ok: "db_ok d" "i < length (dbs d)" and mem: "memory_ok i d"
  shows "implements i (lpush i d k vs) (a_entry a_list AList [] k (\<lambda>xs. (Ok (length vs + length xs), rev vs @ xs)) (abs_db i d))"
    "implements i (rpush i d k vs) (a_entry a_list AList [] k (\<lambda>xs. (Ok (length xs + length vs), xs @ vs)) (abs_db i d))"
    "implements i (lpushx now i d k vs) (a_live_list now (Ok 0) k (\<lambda>xs. (Ok (length vs + length xs), rev vs @ xs)) (abs_db i d))"
    "implements i (rpushx now i d k vs) (a_live_list now (Ok 0) k (\<lambda>xs. (Ok (length xs + length vs), xs @ vs)) (abs_db i d))"
    "capacity_ok vec_size n \<Longrightarrow> implements i (lpop i d k n)
      (a_stored a_list AList (\<lambda>xs. xs = []) (Ok []) k (\<lambda>xs. (Ok (take n xs), drop n xs)) (abs_db i d))"
    "capacity_ok vec_size n \<Longrightarrow> implements i (rpop i d k n)
      (a_stored a_list AList (\<lambda>xs. xs = []) (Ok []) k (\<lambda>xs. (Ok (take n (rev xs)), take (length xs - n) xs)) (abs_db i d))"
    "implements i (lset now i d k m v) (a_live_list now (Err NoSuchKey) k (\<lambda>xs. let j = clamp_index m (length xs)
       in if j < length xs then (Ok (), xs[j := v]) else (Err IndexOutOfRange, xs)) (abs_db i d))"
    "implements i (linsert now i d k bf p v) (a_live_list now (Ok (- 1)) k (\<lambda>xs. case position p xs of
         None \<Rightarrow> (Ok (- 1), xs)
       | Some j \<Rightarrow> let j' = (if bf then j else Suc j)
                  in (Ok (as_i64 (Suc (length xs))), take j' xs @ v # drop j' xs)) (abs_db i d))"
    "implements i (lrem now i d k m v)
      (a_live_list now (Ok 0) k (\<lambda>xs. case lrem_value m v xs of (ys, r) \<Rightarrow> (Ok r, ys)) (abs_db i d))"
    "implements i (ltrim i d k a b)
      (a_stored a_list AList (\<lambda>xs. xs = []) (Ok ()) k (\<lambda>xs. (Ok (), slice a b xs)) (abs_db i d))"
proof -
  have pos: "position p xs = Some j \<Longrightarrow> j < length xs" for xs j
    by (induction xs arbitrary: j) (auto split: if_splits)
  show "implements i (linsert now i d k bf p v) (a_live_list now (Ok (- 1)) k (\<lambda>xs. case position p xs of
         None \<Rightarrow> (Ok (- 1), xs)
       | Some j \<Rightarrow> let j' = (if bf then j else Suc j)
                  in (Ok (as_i64 (Suc (length xs))), take j' xs @ v # drop j' xs)) (abs_db i d))"
    unfolding linsert_def
    by (rule live_list_step [OF ok(2) mem]) (auto simp: as_i64_def Let_def dest: pos split: option.split)
  show "implements i (ltrim i d k a b)
      (a_stored a_list AList (\<lambda>xs. xs = []) (Ok ()) k (\<lambda>xs. (Ok (), slice a b xs)) (abs_db i d))"
    unfolding ltrim_def
    by (rule alists.stored_implements [OF ok]) (simp add: list_slice [OF stored_small [OF mem], symmetric] Let_def)
qed (unfold lpush_def rpush_def lpushx_def rpushx_def lpop_def rpop_def lset_def lrem_def,
     (rule alists.entry_implements [OF ok] alists.stored_implements [OF ok] live_list_step [OF ok(2) mem],
      simp add: push_fronts_rev push_backs_append pop_fronts_take pop_backs_take index_small Let_def)+)

lemma move_refines:
  assumes ok: "ldb_ok l"
  shows "fst (move_step src dst a b l) = fst (a_move src dst a b (abs_ldb l)) \<and>
    abs_ldb (snd (move_step src dst a b l)) = snd (a_move src dst a b (abs_ldb l))"
proof (cases "src = dst")
  case True
  then show ?thesis
    unfolding move_step_def a_move_def if_P [OF True]
    by (intro alists.stored_refines [OF ok]) (simp add: pop_side_def)
next
  case False
  let ?pop = "on_stored un_list OList (\<lambda>xs. xs = []) (Ok None) src (\<lambda>xs. case pop_side a xs of (e, ys) \<Rightarrow> (Ok e, ys)) l"
  let ?apop = "a_stored a_list AList (\<lambda>xs. xs = []) (Ok None) src (\<lambda>xs.
            if xs = [] then (Ok None, []) else if a then (Ok (Some (hd xs)), tl xs) else (Ok (Some (last xs)), butlast xs)) (abs_ldb l)"
  have pop: "fst ?pop = fst ?apop \<and> abs_ldb (snd ?pop) = snd ?apop"
    by (rule alists.stored_refines [OF ok]) (simp add: pop_side_def)
  have ok1: "ldb_ok (snd ?pop)" by (rule local_stepD(1) [OF lists.stored_local ok]) simp
  obtain r l1 where p: "?pop = (r, l1)" by fastforce
  then have q: "?apop = (r, abs_ldb l1)" using pop by (simp add: prod_eq_iff)
  have put: "fst (on_entry get_or_create_list OList dst (\<lambda>ys. (Ok (Some x), push_side b x ys)) l1) =
      fst (a_entry a_list AList [] dst (\<lambda>ys. (Ok (Some x), push_side b x ys)) (abs_ldb l1)) \<and>
    abs_ldb (snd (on_entry get_or_create_list OList dst (\<lambda>ys. (Ok (Some x), push_side b x ys)) l1)) =
      snd (a_entry a_list AList [] dst (\<lambda>ys. (Ok (Some x), push_side b x ys)) (abs_ldb l1))" for x :: string
    using ok1 p by (intro alists.entry_refines) simp_all
  show ?thesis
  proof (cases "\<exists>x. r = Ok (Some x)")
    case True
    then obtain x where "r = Ok (Some x)" ..
    then show ?thesis
      unfolding move_step_def a_move_def if_not_P [OF False] p q by (simp only: prod.case res.case option.case put)
  next
    case no: False
    then have "move_step src dst a b l = (r, l1)" "a_move src dst a b (abs_ldb l) = (r, abs_ldb l1)"
      unfolding move_step_def a_move_def if_not_P [OF False] p q by (auto split: res.split option.split)
    then show ?thesis by simp
  qed
qed

lemma list_fulfils:
  assumes "db_ok d" "i < length (dbs d)" "memory_ok i d" "list_moderate c"
  shows "fulfils i (exec_list w c i d) (spec_list w c (abs_db i d))"
proof (cases c)
  case (LRange k a b)
  have "lrange now i d k a b = a_read a_list now k [] (slice a b) (abs_db i d)" for now
    unfolding lrange_def by (rule read_list [OF assms(1-3)]) (simp add: list_slice [symmetric] Let_def)
  then show ?thesis using LRange by (simp add: fulfils_reads)
next
  case (LMove src dst a b)
  have "implements i (lmove i d src dst a b) (a_move src dst a b (abs_db i d))"
    unfolding lmove_def abs_db_def
    by (rule implements_with_db [OF assms(2)]) (rule move_refines [OF db_ok_nth [OF assms(1,2)]])
  then show ?thesis using LMove by (simp add: fulfils_runs)
next
  case (LIndex k n)
  have "lindex now i d k n = a_read a_list now k None (\<lambda>xs. idx xs (clamp_index n (length xs))) (abs_db i d)" for now
    using read_list [OF assms(1-3), of "\<lambda>xs. Ok (idx xs (normalize_index n (wrap_i64 (int (length xs)))))"
        "\<lambda>xs. idx xs (clamp_index n (length xs))" now k None]
    by (simp add: lindex_def index_small case_Ok)
  then show ?thesis using LIndex by (simp add: fulfils_reads)
next
  case (LLen k)
  have "llen now i d k = a_read a_list now k 0 length (abs_db i d)" for now
    using read_list [OF assms(1-3), of "\<lambda>xs. Ok (length xs)" length now k 0] by (simp add: llen_def case_Ok)
  then show ?thesis using LLen by (simp add: fulfils_reads)
qed (use assms list_ops_implement in \<open>simp_all add: fulfils_runs\<close>)

end
