(* ===== verification/StoreKeys.thy ===== *)
theory StoreKeys imports StoreRefines begin

text \<open>
  The commands on keys and on strings implement their specification on the abstract store.
\<close>

subsection \<open>Keys\<close>

lemma abs_dom: "dom (abs_ldb l) = dom (hm_get (data l))"
  by (auto simp: abs_ldb_def dom_def)

lemma abs_del_keys: "abs_ldb (snd (del_keys ks l)) = abs_ldb l |` (- set ks)"
proof
  fix k
  show "abs_ldb (snd (del_keys ks l)) k = (abs_ldb l |` (- set ks)) k"
    using del_keys_slot [of ks l k] by (auto simp: abs_ldb_def slot_def restrict_map_def split: if_splits)
qed

lemma visible_keys: "i < length (dbs d) \<Longrightarrow> visible now (abs_db i d) = {k. ldb_get now (dbs d ! i) k \<noteq> None}"
  by (simp add: visible_def abs_db_def live_abs)

lemma abs_type: "avalue_type (abs_value v) = type_name v"
  by (cases v) simp_all

lemma rename_refines:
  assumes "ldb_ok l"
  shows "fst (case ldb_remove src l of (None, l1) \<Rightarrow> (Err NoSuchKey, l1) | (Some v, l1) \<Rightarrow> (Ok r, ldb_insert dst v l1)) =
      fst (a_rename src dst r (abs_ldb l)) \<and>
    abs_ldb (snd (case ldb_remove src l of (None, l1) \<Rightarrow> (Err NoSuchKey, l1) | (Some v, l1) \<Rightarrow> (Ok r, ldb_insert dst v l1))) =
      snd (a_rename src dst r (abs_ldb l))"
proof (cases "hm_get (data l) src")
  case None
  then have "abs_ldb l src = None" "(abs_ldb l)(src := None) = abs_ldb l" by (auto simp: abs_ldb_def fun_eq_iff)
  then show ?thesis
    using None abs_accesses(3) [of src l] by (simp add: a_rename_def ldb_remove_def)
next
  case (Some v)
  then show ?thesis using abs_accesses(3) [of src l] by (simp add: ldb_remove_def a_rename_def abs_ldb_key(2))
qed

lemma expire_at_refines:
  assumes "fits_at w t"
  shows "fst (expire_at_target (w_now w) (w_wall w) k t l) = fst (a_expire_at (w_now w) (w_wall w) k t (abs_ldb l)) \<and>
    abs_ldb (snd (expire_at_target (w_now w) (w_wall w) k t l)) = snd (a_expire_at (w_now w) (w_wall w) k t (abs_ldb l))"
proof (cases "t \<le> w_wall w")
  case True
  then show ?thesis using assms drop_refines [of k l] by (simp add: expire_at_target_def a_expire_at_def fits_at_def)
next
  case False
  have fits: "t \<le> instant_max" "w_now w + (t - w_wall w) \<le> instant_max" using assms by (auto simp: fits_at_def)
  have "fst (ldb_set_expiry_at k e l) = (abs_ldb l k \<noteq> None)" "abs_ldb (snd (ldb_set_expiry_at k e l)) =
      (case abs_ldb l k of None \<Rightarrow> abs_ldb l | Some (v, _) \<Rightarrow> (abs_ldb l)(k \<mapsto> (v, Some e)))" for e
    by (auto simp: ldb_set_expiry_at_def abs_ldb_def hm_contains_def fun_eq_iff hm_get_insert split: option.splits)
  then show ?thesis
    using False fits
    by (auto simp: expire_at_target_def a_expire_at_def a_expire_def instant_add_def case_prod_beta split: option.split)
qed

lemma persist_refines:
  assumes "ldb_ok l"
  shows "fst (ldb_persist k l) = (case abs_ldb l k of Some (v, Some _) \<Rightarrow> True | _ \<Rightarrow> False) \<and>
    abs_ldb (snd (ldb_persist k l)) = snd (a_persist k (abs_ldb l))"
  using no_deadline [OF assms, of k]
  by (auto simp: ldb_persist_def a_persist_def abs_ldb_def hm_contains_def fun_eq_iff hm_get_remove split: option.split)

lemma key_ops_implement:
  assumes ok: "db_ok d" "i < length (dbs d)"
  shows "implements i (del i d ks) (Ok (wrap_i64 (int (card (set ks \<inter> dom (abs_db i d))))), abs_db i d |` (- set ks))"
    "implements i (rename i d src dst) (a_rename src dst () (abs_db i d))"
    "implements i (renamenx now i d src dst)
      (if dst \<in> visible now (abs_db i d) then (Ok False, abs_db i d) else a_rename src dst True (abs_db i d))"
    "n < 0 \<or> fits_from w (from_secs (as_usize n)) \<Longrightarrow> implements i (expire (w_now w) i d k n)
      (if n < 0 then a_drop k (abs_db i d) else a_expire (w_now w) k (from_secs (as_usize n)) (abs_db i d))"
    "clock_ok w \<Longrightarrow> implements i (pexpire (w_now w) i d k n)
      (if n < 0 then a_drop k (abs_db i d) else a_expire (w_now w) k (from_millis (as_usize n)) (abs_db i d))"
    "fits_at w (from_secs (as_usize n)) \<Longrightarrow> implements i (expireat (w_now w) (w_wall w) i d k n)
      (a_expire_at (w_now w) (w_wall w) k (from_secs (as_usize n)) (abs_db i d))"
    "fits_at w (from_millis (as_usize n)) \<Longrightarrow> implements i (pexpireat (w_now w) (w_wall w) i d k n)
      (a_expire_at (w_now w) (w_wall w) k (from_millis (as_usize n)) (abs_db i d))"
    "implements i (persist i d k) (a_persist k (abs_db i d))"
proof -
  note ok' = db_ok_nth [OF ok]
  show "implements i (del i d ks) (Ok (wrap_i64 (int (card (set ks \<inter> dom (abs_db i d))))), abs_db i d |` (- set ks))"
    unfolding del_def abs_db_def
    by (rule implements_with_db [OF ok(2)]) (simp add: case_prod_beta abs_del_keys del_keys_count abs_dom)
  show "implements i (rename i d src dst) (a_rename src dst () (abs_db i d))"
    unfolding rename_def abs_db_def by (rule implements_with_db [OF ok(2)]) (rule rename_refines [OF ok'])
  show "implements i (renamenx now i d src dst)
      (if dst \<in> visible now (abs_db i d) then (Ok False, abs_db i d) else a_rename src dst True (abs_db i d))"
    unfolding renamenx_def visible_keys [OF ok(2)] unfolding abs_db_def
    using rename_refines [OF ok', where src = src and dst = dst and r = True] by (intro implements_with_db [OF ok(2)]) auto
  show "n < 0 \<or> fits_from w (from_secs (as_usize n)) \<Longrightarrow> implements i (expire (w_now w) i d k n)
      (if n < 0 then a_drop k (abs_db i d) else a_expire (w_now w) k (from_secs (as_usize n)) (abs_db i d))"
    unfolding expire_def abs_db_def using drop_refines set_expiry_refines
    by (intro implements_with_db [OF ok(2)]) (auto simp: fits_from_def)
  show "clock_ok w \<Longrightarrow> implements i (pexpire (w_now w) i d k n)
      (if n < 0 then a_drop k (abs_db i d) else a_expire (w_now w) k (from_millis (as_usize n)) (abs_db i d))"
    unfolding pexpire_def abs_db_def using drop_refines set_expiry_refines millis_fit
    by (intro implements_with_db [OF ok(2)]) (auto simp: fits_from_def)
  show "implements i (persist i d k) (a_persist k (abs_db i d))"
    unfolding persist_def abs_db_def using persist_refines [OF ok', of k]
    by (intro implements_with_db [OF ok(2)]) (auto simp: case_prod_beta a_persist_def split: option.split)
qed (unfold expireat_def pexpireat_def abs_db_def,
     (rule implements_with_db [OF ok(2)], erule expire_at_refines)+)

lemma pttl_abs: "i < length (dbs d) \<Longrightarrow> pttl now i d k = Ok (a_pttl now k (abs_db i d))"
  by (auto simp: pttl_def db_simps a_pttl_def abs_db_def live_abs ldb_get_def abs_ldb_def ldb_ttl_ms_def hm_contains_def
      split: option.splits)

lemma visible_listed:
  assumes "db_ok d" "i < length (dbs d)"
  shows "set (filter (not_expired now (dbs d ! i)) (hm_keys (data (dbs d ! i)))) = visible now (abs_db i d)"
    "distinct (filter (not_expired now (dbs d ! i)) (hm_keys (data (dbs d ! i))))"
  using live_keys [OF db_ok_nth [OF assms], of now] by (auto simp: visible_keys [OF assms(2)])

lemma key_reads_abs:
  assumes ok: "db_ok d" "i < length (dbs d)"
  shows "exists_keys now i d ks = Ok (wrap_i64 (int (length (filter (\<lambda>k. k \<in> visible now (abs_db i d)) ks))))"
    "type_of now i d k = Ok (case live now (abs_db i d) k of None \<Rightarrow> ''none'' | Some v \<Rightarrow> avalue_type v)"
    "\<exists>xs. keys now i d pat = Ok xs \<and> distinct xs \<and> set xs = visible now (abs_db i d) \<inter> glob_lang pat"
    "dbsize now i d = Ok (card (visible now (abs_db i d)))"
proof -
  note seen = visible_listed [OF ok, of now]
  show "\<exists>xs. keys now i d pat = Ok xs \<and> distinct xs \<and> set xs = visible now (abs_db i d) \<inter> glob_lang pat"
  proof (intro exI conjI)
    let ?ks = "filter (glob_match pat) (filter (not_expired now (dbs d ! i)) (hm_keys (data (dbs d ! i))))"
    show "keys now i d pat = Ok ?ks" using ok(2) by (simp add: keys_def db_simps conj_commute)
    show "distinct ?ks" using seen(2) by (rule distinct_filter)
    show "set ?ks = visible now (abs_db i d) \<inter> glob_lang pat" unfolding seen(1) [symmetric] by (auto simp: glob_match_lang)
  qed
  show "dbsize now i d = Ok (card (visible now (abs_db i d)))"
    using distinct_card [OF seen(2)] seen(1) ok(2) by (simp add: dbsize_def db_simps)
qed (use ok(2) in \<open>auto simp: exists_keys_def type_of_def db_simps visible_keys live_view view_def abs_type split: option.split\<close>)

lemma randomkey_fulfils:
  assumes ok: "db_ok d" "i < length (dbs d)" and draws: "draws_ok w"
  shows "fulfils i (exec_key w Randomkey i d) (spec_key w Randomkey (abs_db i d))"
proof -
  let ?ks = "filter (not_expired (w_now w) (dbs d ! i)) (hm_keys (data (dbs d ! i)))"
  have "?ks \<noteq> [] \<Longrightarrow> w_pick w ?ks \<in> set ?ks" using draws unfolding draws_ok_def by blast
  then have "?ks \<noteq> [] \<Longrightarrow> w_pick w ?ks \<in> visible (w_now w) (abs_db i d)" unfolding visible_listed(1) [OF ok] .
  moreover have "?ks = [] \<longleftrightarrow> visible (w_now w) (abs_db i d) = {}"
    unfolding visible_listed(1) [OF ok, symmetric] by (simp only: set_empty)
  ultimately show ?thesis
    using ok(2) by (simp add: randomkey_def db_simps Let_def fulfils_def reads_def null_or_bulk_def opt_bulk_def)
qed

lemma key_fulfils:
  assumes "db_ok d" "i < length (dbs d)" "clock_ok w" "key_moderate w c" "draws_ok w"
  shows "fulfils i (exec_key w c i d) (spec_key w c (abs_db i d))"
proof (cases c)
  case (Keys pat)
  obtain xs where "keys (w_now w) i d pat = Ok xs" "distinct xs" "set xs = visible (w_now w) (abs_db i d) \<inter> glob_lang pat"
    using key_reads_abs(3) [OF assms(1,2), of "w_now w" pat] by blast
  then show ?thesis unfolding Keys exec_key.simps spec_key.simps by (intro fulfils_any_order) simp_all
next
  case Randomkey
  show ?thesis unfolding Randomkey by (rule randomkey_fulfils [OF assms(1,2,5)])
qed (use assms key_ops_implement [OF assms(1,2)] in
    \<open>simp_all add: fulfils_runs fulfils_reads key_reads_abs pttl_abs ttl_def Let_def\<close>)

end
