(* ===== verification/StoreStrings.thy ===== *)
theory StoreStrings imports StoreKeys begin

text \<open>
  The commands on strings implement their specification on the abstract store.
\<close>

lemma secs_wrap:
  assumes "fits_from w t"
  shows "wrap_i64 (int (as_secs t)) = int (as_secs t)" "as_usize (int (as_secs t)) = as_secs t" "from_secs (as_secs t) \<le> t"
proof -
  have "as_secs t \<le> 9223372036854775807" using assms by (simp add: fits_from_def instant_max_def as_secs_def)
  then show "wrap_i64 (int (as_secs t)) = int (as_secs t)" "as_usize (int (as_secs t)) = as_secs t"
    by (simp_all add: wrap_i64_id as_usize_id in_i64_def i64_min_def i64_max_def)
qed (simp add: from_secs_def as_secs_def)

lemma insert_str_refines:
  assumes "\<And>t. dur = Some t \<Longrightarrow> now + t \<le> instant_max"
  shows "fst (insert_str now k v dur r l) = Ok r \<and>
    abs_ldb (snd (insert_str now k v dur r l)) = a_put_str k v (map_option ((+) now) dur) (abs_ldb l)"
proof (cases dur)
  case (Some t)
  then show ?thesis
    using set_expiry_refines [of now t k "ldb_insert k (Str v) l"] assms
    by (simp add: insert_str_def case_prod_beta a_expire_def a_put_str_def)
qed (simp add: insert_str_def a_put_str_def)

lemma str_get_abs: "db_ok d \<Longrightarrow> i < length (dbs d) \<Longrightarrow> str_get now i d k = a_get now k (abs_db i d)"
  unfolding reads_of_kind(1) a_get_def by (rule strs.read_same) simp_all

lemma a_get_cases:
  "a_get now k A = Err WrongType \<or> (\<exists>v. a_get now k A = Ok v \<and> (v = None \<longleftrightarrow> live now A k = None))"
  by (auto simp: a_get_def a_read_def split: option.split)

lemma insert_pairs_abs: "abs_ldb (insert_pairs ps l) = a_mset ps (abs_ldb l)"
  by (induction ps l rule: insert_pairs.induct) (auto simp: a_mset_def fun_eq_iff map_add_def split: option.split)

lemma string_steps_implement:
  assumes i: "i < length (dbs d)"
  shows "(\<And>t. dur = Some t \<Longrightarrow> now + t \<le> instant_max) \<Longrightarrow>
      implements i (str_set now i d k v dur) (Ok (), a_put_str k v (map_option ((+) now) dur) (abs_db i d))"
    "(\<And>t. dur = Some t \<Longrightarrow> now + t \<le> instant_max) \<Longrightarrow> implements i (str_setxx now i d k v dur)
      (if live now (abs_db i d) k = None then (Ok False, abs_db i d)
       else (Ok True, a_put_str k v (map_option ((+) now) dur) (abs_db i d)))"
    "implements i (str_setnx now i d k v)
      (if k \<in> visible now (abs_db i d) then (Ok False, abs_db i d) else (Ok True, a_put_str k v None (abs_db i d)))"
    "implements i (mset_pairs i d ps) (Ok (), a_mset ps (abs_db i d))"
    "implements i (msetnx now i d ps)
      (if fst ` set ps \<inter> visible now (abs_db i d) = {} then (Ok True, a_mset ps (abs_db i d)) else (Ok False, abs_db i d))"
    "implements i (str_getdel i d k) (a_getdel k (abs_db i d))"
proof -
  show "implements i (str_set now i d k v dur) (Ok (), a_put_str k v (map_option ((+) now) dur) (abs_db i d))"
    if "\<And>t. dur = Some t \<Longrightarrow> now + t \<le> instant_max"
    unfolding str_set_def abs_db_def by (rule implements_with_db [OF i]) (simp add: insert_str_refines that)
  show "implements i (str_setxx now i d k v dur)
      (if live now (abs_db i d) k = None then (Ok False, abs_db i d)
       else (Ok True, a_put_str k v (map_option ((+) now) dur) (abs_db i d)))"
    if "\<And>t. dur = Some t \<Longrightarrow> now + t \<le> instant_max"
    unfolding str_setxx_def abs_db_def by (rule implements_with_db [OF i]) (simp add: insert_str_refines that live_abs)
  show "implements i (str_getdel i d k) (a_getdel k (abs_db i d))"
    unfolding str_getdel_def abs_db_def a_getdel_def
    by (rule implements_with_db [OF i], cases "hm_get (data (dbs d ! i)) k")
      (auto simp: ldb_remove_def abs_ldb_def fun_eq_iff hm_get_remove ldb_insert_def hm_get_insert split: rudis_object.split)
  show "implements i (msetnx now i d ps)
      (if fst ` set ps \<inter> visible now (abs_db i d) = {} then (Ok True, a_mset ps (abs_db i d)) else (Ok False, abs_db i d))"
    unfolding msetnx_def abs_db_def
    by (rule implements_with_db [OF i]) (force simp: insert_pairs_abs visible_def live_abs)
qed (unfold str_setnx_def mset_pairs_def abs_db_def,
     (rule implements_with_db [OF i], simp add: a_put_str_def insert_pairs_abs visible_def live_abs)+)

lemma getset_fulfils:
  assumes ok: "db_ok d" "i < length (dbs d)"
  shows "fulfils i (exec_string w (GetSet k v) i d) (spec_string w (GetSet k v) (abs_db i d))"
  using a_get_cases [of "w_now w" k "abs_db i d"] string_steps_implement(1) [OF ok(2), of None "w_now w" k v]
  by (auto simp: fulfils_def runs_def str_getset_def str_get_abs [OF ok] case_prod_beta implements_def)

lemma string_entries_implement:
  assumes ok: "db_ok d" "i < length (dbs d)"
  shows "implements i (str_append i d k v) (a_entry a_str AStr '''' k (\<lambda>s. (Ok (length (s @ v)), s @ v)) (abs_db i d))"
    "implements i (str_incr i d k n) (a_entry a_str AStr ''0'' k (\<lambda>s. a_number s (incr_value s n) show_int) (abs_db i d))"
    "implements i (str_incr_float i d k x) (a_entry a_str AStr ''0'' k (\<lambda>s. a_number s (float_sum s x
       (Generic ''ERR increment would produce NaN or Infinity'') (\<lambda>r. is_nan r \<or> is_infinite r)) format_float) (abs_db i d))"
    "off + length v \<le> isize_max \<Longrightarrow>
      implements i (str_setrange i d k off v) (a_entry a_str AStr '''' k (a_setrange off v) (abs_db i d))"
proof -
  have "setrange_value off v s = a_setrange off v s" if fits: "off + length v \<le> isize_max" for s
  proof -
    have m: "(off + length v) mod (usize_max + 1) = off + length v" using fits by (simp add: isize_max_def usize_max_def)
    show ?thesis
      unfolding setrange_value_def m using fits by (auto simp: a_setrange_def Let_def capacity_ok_def)
  qed
  then show "implements i (str_setrange i d k off v) (a_entry a_str AStr '''' k (a_setrange off v) (abs_db i d))"
    if "off + length v \<le> isize_max"
    unfolding str_setrange_def using that by (intro strs.entry_implements [OF ok]) simp
qed (unfold str_append_def str_incr_def str_incr_float_def,
     (rule strs.entry_implements [OF ok], simp add: a_number_def float_sum_def Let_def split: res.split)+)

lemma string_reads_abs:
  assumes ok: "db_ok d" "i < length (dbs d)"
  shows "str_strlen now i d k = a_read a_str now k 0 length (abs_db i d)"
    "mget now i d ks = Ok (map (\<lambda>k. Option.bind (live now (abs_db i d) k) a_str) ks)"
    "memory_ok i d \<Longrightarrow> str_getrange now i d k a b = a_read a_str now k [] (slice a b) (abs_db i d)"
proof -
  show "str_strlen now i d k = a_read a_str now k 0 length (abs_db i d)"
    unfolding reads_of_kind(2) by (rule strs.read_same [OF ok]) simp
  show "mget now i d ks = Ok (map (\<lambda>k. Option.bind (live now (abs_db i d) k) a_str) ks)"
    using ok(2) by (auto simp: mget_def db_simps live_view view_def split: option.split rudis_object.split)
  assume mem: "memory_ok i d"
  show "str_getrange now i d k a b = a_read a_str now k [] (slice a b) (abs_db i d)"
  proof (cases "view now d i k")
    case None
    then show ?thesis using ok(2) by (simp add: str_getrange_def db_simps a_read_def live_view) (simp add: view_def)
  next
    case (Some v)
    show ?thesis
    proof (cases v)
      case (Str s)
      have "length s \<le> isize_max"
        using mem Some Str by (force simp: memory_ok_def view_def ldb_get_def split: option.splits if_splits)
      then show ?thesis
        using str_getrange_slice [OF ok(2), of now k s a b] Some Str by (simp add: a_read_def live_view [OF ok(2)])
    qed (use Some ok(2) in \<open>simp_all add: a_read_def live_view str_getrange_def db_simps view_def\<close>)
  qed
qed


subsection \<open>\<open>SET\<close> and \<open>GETEX\<close>\<close>

lemma set_new_implements:
  assumes i: "i < length (dbs d)" and fits: "\<And>t. sa_expire a = Some t \<Longrightarrow> fits_from w t"
  shows "implements i (set_new w a i d)
    (if live (w_now w) (abs_db i d) (sa_key a) = None
     then (Ok True, a_put_str (sa_key a) (sa_value a)
       (map_option ((+) (w_now w)) (map_option (\<lambda>t. from_secs (as_secs t)) (sa_expire a))) (abs_db i d))
     else (Ok False, abs_db i d))"
proof -
  let ?k = "sa_key a" and ?A = "abs_db i d"
  obtain r d1 where nx: "str_setnx (w_now w) i d ?k (sa_value a) = (r, d1)" by fastforce
  have step: "r = (if live (w_now w) ?A ?k = None then Ok True else Ok False)"
    "abs_db i d1 = (if live (w_now w) ?A ?k = None then a_put_str ?k (sa_value a) None ?A else ?A)"
    using string_steps_implement(3) [OF i, of "w_now w" ?k "sa_value a"] nx
    by (auto simp: implements_def visible_def split: if_splits)
  have i1: "i < length (dbs d1)" using nx i by (auto simp: str_setnx_def with_db_def case_prod_beta)
  show ?thesis
  proof (cases "live (w_now w) ?A ?k = None \<and> sa_expire a \<noteq> None")
    case True
    then obtain t where t: "sa_expire a = Some t" and free: "live (w_now w) ?A ?k = None" by blast
    note wrap = secs_wrap [OF fits [OF t]]
    have "implements i (expire (w_now w) i d1 ?k (int (as_secs t))) (a_expire (w_now w) ?k (from_secs (as_secs t)) (abs_db i d1))"
      unfolding expire_def abs_db_def
      using set_expiry_refines [of "w_now w" "from_secs (as_secs t)" ?k "dbs d1 ! i"] fits [OF t] wrap
      by (intro implements_with_db [OF i1]) (simp add: fits_from_def)
    moreover have "a_expire (w_now w) ?k (from_secs (as_secs t)) (abs_db i d1) =
        (Ok True, a_put_str ?k (sa_value a) (Some (w_now w + from_secs (as_secs t))) ?A)"
      using step(2) free by (simp add: a_expire_def a_put_str_def)
    ultimately obtain d2 where "expire (w_now w) i d1 ?k (int (as_secs t)) = (Ok True, d2)"
        "abs_db i d2 = a_put_str ?k (sa_value a) (Some (w_now w + from_secs (as_secs t))) ?A"
      by (cases "expire (w_now w) i d1 ?k (int (as_secs t))") (auto simp: implements_def)
    then show ?thesis using nx step(1) free t wrap by (simp add: set_new_def implements_def)
  next
    case False
    then show ?thesis using nx step by (auto simp: set_new_def implements_def)
  qed
qed

lemma set_fulfils:
  assumes ok: "db_ok d" "i < length (dbs d)" and fits: "\<And>t. sa_expire a = Some t \<Longrightarrow> fits_from w t"
  shows "fulfils i (exec_set w a i d) (spec_set w a (abs_db i d))"
proof -
  let ?A = "abs_db i d" and ?k = "sa_key a" and ?now = "w_now w"
  let ?dur = "if sa_nx a then map_option (\<lambda>t. from_secs (as_secs t)) (sa_expire a) else sa_expire a"
  let ?go = "if sa_nx a then live ?now ?A ?k = None else sa_xx a \<longrightarrow> live ?now ?A ?k \<noteq> None"
  let ?p = "if sa_nx a then set_new w a i d
     else if sa_xx a then str_setxx ?now i d ?k (sa_value a) (sa_expire a)
     else (case str_set ?now i d ?k (sa_value a) (sa_expire a) of (r, d1) \<Rightarrow> (map_res (\<lambda>_. True) r, d1))"
  have fits': "sa_expire a = Some t \<Longrightarrow> ?now + t \<le> instant_max" for t using fits by (simp add: fits_from_def)
  have step: "implements i ?p (if ?go then (Ok True, a_put_str ?k (sa_value a) (map_option ((+) ?now) ?dur) ?A) else (Ok False, ?A))"
    using set_new_implements [OF ok(2) fits] string_steps_implement(1,2) [OF ok(2) fits', where k = ?k and v = "sa_value a"]
    by (auto simp: implements_def case_prod_beta)
  obtain r d' where p: "?p = (r, d')" by fastforce
  have r: "r = Ok ?go" "abs_db i d' = (if ?go then a_put_str ?k (sa_value a) (map_option ((+) ?now) ?dur) ?A else ?A)"
    using step unfolding p by (simp_all add: implements_def split: if_splits)
  have run: "(if sa_get a then str_get ?now i d ?k else Ok None) = Ok old \<Longrightarrow>
      exec_set w a i d = (Some (if ?go then (if sa_get a then opt_bulk old else frame_ok_reply) else Null), d')" for old
    unfolding exec_set_def p by (simp only: res.case p runs_def r(1) fst_conv snd_conv reply.simps)
  consider (wrong) "sa_get a" "a_get ?now ?k ?A = Err WrongType"
    | (plain) "\<not> sa_get a" | (get) old where "sa_get a" "a_get ?now ?k ?A = Ok old"
    using a_get_cases [of ?now ?k ?A] by blast
  then show ?thesis
  proof cases
    case wrong
    then show ?thesis by (simp add: exec_set_def str_get_abs [OF ok] spec_set_def fulfils_def Let_def)
  next
    case plain
    then have "exec_set w a i d = (Some (if ?go then frame_ok_reply else Null), d')" using run by simp
    then show ?thesis using plain r(2) by (simp only: spec_set_def fulfils_def Let_def fst_conv snd_conv) (simp split: if_splits)
  next
    case get
    then have "exec_set w a i d = (Some (if ?go then opt_bulk old else Null), d')" using run by (simp add: str_get_abs [OF ok])
    then show ?thesis using get r(2)
      by (simp only: spec_set_def fulfils_def Let_def fst_conv snd_conv) (simp add: null_or_bulk_def split: if_splits)
  qed
qed

lemma getex_fulfils:
  assumes ok: "db_ok d" "i < length (dbs d)" and clock: "clock_ok w"
  shows "fulfils i (exec_getex w a i d) (spec_getex w a (abs_db i d))"
proof -
  let ?k = "ga_key a" and ?A = "abs_db i d"
  have drop: "pexpire (w_now w) i d ?k n = (r, d1) \<Longrightarrow> r \<noteq> Panic \<and> abs_db i d1 =
      (if n < 0 then ?A(?k := None) else snd (a_expire (w_now w) ?k (from_millis (as_usize n)) ?A))" for n r d1
    using key_ops_implement(5) [OF ok clock, of ?k n] deadline_answers(2) [OF clock, of i d ?k n]
    by (auto simp: implements_def a_drop_def split: if_splits)
  have keep: "abs_db i (snd (persist i d ?k)) = snd (a_persist ?k ?A)"
    using key_ops_implement(8) [OF ok, of ?k] by (simp add: implements_def)
  consider (wrong) "a_get (w_now w) ?k ?A = Err WrongType" | (none) "a_get (w_now w) ?k ?A = Ok None"
    | (get) v where "a_get (w_now w) ?k ?A = Ok (Some v)"
    using a_get_cases [of "w_now w" ?k ?A] by (metis option.exhaust)
  then show ?thesis
  proof cases
    case (get v)
    show ?thesis
    proof (cases "\<not> ga_persist a \<and> ga_expire a \<noteq> None")
      case True
      then obtain t where t: "ga_expire a = Some t" "\<not> ga_persist a" by blast
      obtain r d1 where p: "pexpire (w_now w) i d ?k (wrap_i64 (int (as_millis t))) = (r, d1)" by fastforce
      then have "exec_getex w a i d = (Some (Bulk v), d1)"
        using drop [OF p] get t by (cases r) (simp_all add: exec_getex_def str_get_abs [OF ok])
      then show ?thesis using drop [OF p] get t by (simp add: fulfils_def spec_getex_def Let_def)
    next
      case False
      then show ?thesis
        using get keep by (cases "ga_persist a") (simp_all add: exec_getex_def str_get_abs [OF ok] fulfils_def spec_getex_def)
    qed
  qed (simp_all add: exec_getex_def str_get_abs [OF ok] fulfils_def spec_getex_def null_or_bulk_def opt_bulk_def)
qed

lemma string_fulfils:
  assumes "db_ok d" "i < length (dbs d)" "clock_ok w" "string_moderate w c" "memory_ok i d"
  shows "fulfils i (exec_string w c i d) (spec_string w c (abs_db i d))"
proof (cases c)
  case (CSet a)
  show ?thesis
    unfolding CSet exec_string.simps spec_string.simps by (rule set_fulfils) (use assms CSet in simp_all)
next
  case (GetEx a)
  show ?thesis unfolding GetEx exec_string.simps spec_string.simps by (rule getex_fulfils [OF assms(1-3)])
next
  case (GetSet k v)
  show ?thesis unfolding GetSet by (rule getset_fulfils [OF assms(1,2)])
next
  case (Setex k n v)
  then show ?thesis
    using assms(4) string_steps_implement(1) [OF assms(2), of "Some (from_secs (as_usize n))" "w_now w" k v]
    by (simp add: fulfils_runs fits_from_def)
next
  case (PSetex k n v)
  then show ?thesis
    using millis_fit [OF assms(3), of n] string_steps_implement(1) [OF assms(2), of "Some (from_millis (as_usize n))" "w_now w" k v]
    by (simp add: fulfils_runs fits_from_def)
qed (use assms string_steps_implement [OF assms(2)] string_entries_implement [OF assms(1,2)] in
    \<open>simp_all add: fulfils_runs fulfils_reads str_get_abs string_reads_abs\<close>)

end
