(* ===== verification/StoreHashSet.thy ===== *)
theory StoreHashSet imports StoreStrings begin

text \<open>
  The commands on hashes and on sets implement their specification on the abstract store.
\<close>

context abstract_kind
begin

lemma read_listed:
  assumes ok: "db_ok d" "i < length (dbs d)"
    and f: "\<And>x. good x \<Longrightarrow> \<exists>xs. f x = Ok xs \<and> distinct xs \<and> set xs = g (av x)"
  shows "map_res set (read_kind un now i d k [] f) = a_read aun now k {} g (abs_db i d)"
    "read_kind un now i d k [] f = Ok xs \<Longrightarrow> distinct xs"
proof -
  show "map_res set (read_kind un now i d k [] f) = a_read aun now k {} g (abs_db i d)"
    using read_abs [OF ok, where R = set and f = f and g = g and a = "[]"] f by (force simp del: set_empty)
  assume run: "read_kind un now i d k [] f = Ok xs"
  have "good x" if "ldb_get now (dbs d ! i) k = Some (mk x)" for x
    using ldb_okD(4) [OF db_ok_nth [OF ok], of k "mk x"] that
    by (auto simp: ldb_get_def mk_good split: option.splits if_splits)
  then show "distinct xs"
    using run ok(2) f by (fastforce simp: read_kind_def db_simps un_iff split: option.splits)
qed

lemma listed_fulfils:
  assumes "db_ok d" "i < length (dbs d)" "h Panic = None"
    and "\<And>x. good x \<Longrightarrow> \<exists>xs. f x = Ok xs \<and> distinct xs \<and> set xs = g (av x)"
  shows "fulfils i (reads h (read_kind un now i d k [] f) d) (in_any_order h (a_read aun now k {} g (abs_db i d)) (abs_db i d))"
  using read_listed [OF assms(1,2), where f = f and g = g] assms(3,4) by (intro fulfils_any_order) auto

end

subsection \<open>Hashes\<close>

lemma hm_get_empty: "hm_get [] = Map.empty"
  by (simp add: fun_eq_iff)

lemmas hash_entry = ahashes.entry_implements [unfolded hm_get_empty]

lemma set_fields_abs:
  "fst (set_fields fs h) = card (fst ` set fs - dom (hm_get h))" "hm_get (snd (set_fields fs h)) = hm_get h ++ map_of (rev fs)"
  by (auto simp: set_fields_count fun_eq_iff set_fields_get map_add_def split: option.split)

lemma del_fields_abs: "hm_get (snd (del_fields fs h)) = hm_get h |` (- set fs)"
  by (simp add: fun_eq_iff del_fields_get restrict_map_def)

lemma hm_empty_iff: "h = [] \<longleftrightarrow> hm_get h = Map.empty"
  by (simp add: hm_Nil_iff)

lemma hm_get_updates: "hm_get (hm_insert f v h) = (hm_get h)(f \<mapsto> v)"
  by (simp add: fun_eq_iff hm_get_insert)

lemma hash_pairs: "hm_wf h \<Longrightarrow> set h = pairs_of (hm_get h)" "hm_wf h \<Longrightarrow> distinct h"
  by (auto simp: pairs_of_def hm_get_in_set) (simp add: hm_wf_def distinct_map)

lemma field_abs:
  "hm_get (snd (field_entry f h)) = (hm_get h)(f \<mapsto> fst (field_entry f h))"
  "fst (field_entry f h) = (case hm_get h f of None \<Rightarrow> ''0'' | Some v \<Rightarrow> v)"
  by (auto simp: field_entry_def hm_get_updates fun_upd_idem split: option.split)

lemma hash_ops_implement:
  assumes ok: "db_ok d" "i < length (dbs d)"
  shows "implements i (hset i d k fs) (a_entry a_hash AHash Map.empty k (a_hset fs) (abs_db i d))"
    "implements i (hsetnx i d k f v) (a_entry a_hash AHash Map.empty k
       (\<lambda>m. if m f = None then (Ok True, m(f \<mapsto> v)) else (Ok False, m)) (abs_db i d))"
    "implements i (hdel i d k ks) (a_stored a_hash AHash (\<lambda>m. m = Map.empty) (Ok 0) k
       (\<lambda>m. (Ok (card (set ks \<inter> dom m)), m |` (- set ks))) (abs_db i d))"
    "implements i (hincrby i d k f n)
       (a_entry a_hash AHash Map.empty k (a_field f (\<lambda>v. incr_value v n) show_int) (abs_db i d))"
    "implements i (hincrbyfloat i d k f x) (a_entry a_hash AHash Map.empty k (a_field f (\<lambda>v.
       float_sum v x (Generic ''ERR resulting score is not a number (NaN)'') is_nan) format_float) (abs_db i d))"
proof -
  show "implements i (hdel i d k ks) (a_stored a_hash AHash (\<lambda>m. m = Map.empty) (Ok 0) k
       (\<lambda>m. (Ok (card (set ks \<inter> dom m)), m |` (- set ks))) (abs_db i d))"
    unfolding hdel_def
    by (rule ahashes.stored_implements [OF ok]) (simp add: case_prod_beta del_fields_count del_fields_abs hm_empty_iff)
qed (unfold hset_def hsetnx_def hincrby_def hincrbyfloat_def,
     (rule hash_entry [OF ok],
      auto simp: case_prod_beta a_hset_def set_fields_abs hm_contains_def hm_get_updates a_field_def field_abs
        float_sum_def Let_def split: res.split)+)

lemma hash_reads_abs:
  assumes ok: "db_ok d" "i < length (dbs d)"
  shows "hget now i d k f = a_read a_hash now k None (\<lambda>m. m f) (abs_db i d)"
    "hmget now i d k fs = a_read a_hash now k (replicate (length fs) None) (\<lambda>m. map m fs) (abs_db i d)"
    "hexists now i d k f = a_read a_hash now k False (\<lambda>m. m f \<noteq> None) (abs_db i d)"
    "hlen now i d k = a_read a_hash now k 0 (\<lambda>m. card (dom m)) (abs_db i d)"
  unfolding hget_def hmget_def hexists_def hlen_def reads_of_kind
  by (rule ahashes.read_same [OF ok], simp add: hm_contains_def hm_length_card)+

lemma hash_fulfils:
  assumes ok: "db_ok d" "i < length (dbs d)"
  shows "fulfils i (exec_hash w c i d) (spec_hash w c (abs_db i d))"
proof (cases c)
  case (HGetAll k)
  show ?thesis
    unfolding HGetAll exec_hash.simps spec_hash.simps hgetall_def reads_of_kind
    by (rule ahashes.listed_fulfils [OF ok]) (auto simp: hash_pairs)
next
  case (HKeys k)
  show ?thesis
    unfolding HKeys exec_hash.simps spec_hash.simps hkeys_def reads_of_kind
    by (rule ahashes.listed_fulfils [OF ok]) (auto simp: hm_dom hm_keys_def hm_wf_def)
next
  case (HVals k)
  have "reads bulk_array (hvals (w_now w) i d k) d =
      reads (\<lambda>r. bulk_array (map_res (map snd) r)) (hgetall (w_now w) i d k) d"
    by (auto simp: reads_def hvals_def hgetall_def read_hash_def read_db_def split: option.split rudis_object.split)
  then show ?thesis
    unfolding HVals exec_hash.simps spec_hash.simps hgetall_def reads_of_kind
    by (simp only:) (rule ahashes.listed_fulfils [OF ok], auto simp: hash_pairs)
qed (simp_all add: fulfils_runs fulfils_reads hash_ops_implement [OF ok] hash_reads_abs [OF ok])

subsection \<open>Sets\<close>

lemmas set_entry = asets.entry_implements [unfolded list.set]

lemma remove_all_empty: "snd (remove_all ms s) = [] \<longleftrightarrow> set s - set ms = {}"
  using remove_all_set [of ms s] by (metis set_empty)

lemma set_ops_implement:
  assumes ok: "db_ok d" "i < length (dbs d)"
  shows "implements i (sadd i d k ms) (a_entry a_set ASet {} k (\<lambda>S. (Ok (card (set ms - S)), S \<union> set ms)) (abs_db i d))"
    "implements i (srem i d k ms) (a_stored a_set ASet (\<lambda>S. S = {}) (Ok 0) k
       (\<lambda>S. (Ok (card (set ms \<inter> S)), S - set ms)) (abs_db i d))"
proof -
  show "implements i (sadd i d k ms) (a_entry a_set ASet {} k (\<lambda>S. (Ok (card (set ms - S)), S \<union> set ms)) (abs_db i d))"
    unfolding sadd_def by (rule set_entry [OF ok]) (simp add: case_prod_beta insert_all_count insert_all_set)
  show "implements i (srem i d k ms) (a_stored a_set ASet (\<lambda>S. S = {}) (Ok 0) k
       (\<lambda>S. (Ok (card (set ms \<inter> S)), S - set ms)) (abs_db i d))"
    unfolding srem_def
    by (rule asets.stored_implements [OF ok])
      (simp add: case_prod_beta remove_all_count remove_all_set remove_all_empty del: Diff_eq_empty_iff)
qed

lemma set_reads_abs:
  assumes ok: "db_ok d" "i < length (dbs d)"
  shows "sismember now i d k m = a_read a_set now k False (\<lambda>S. m \<in> S) (abs_db i d)"
    "smismember now i d k ms = a_read a_set now k (replicate (length ms) False) (\<lambda>S. map (\<lambda>m. m \<in> S) ms) (abs_db i d)"
    "scard now i d k = a_read a_set now k 0 card (abs_db i d)"
  unfolding sismember_def smismember_def scard_def reads_of_kind
  by (rule asets.read_same [OF ok], simp add: distinct_card)+

text \<open>The set a command sees at a key.\<close>

lemma members_seen:
  assumes ok: "db_ok d" "i < length (dbs d)"
  shows "a_members now (abs_db i d) k = map_res set (set_seen now (dbs d ! i) k)"
proof -
  have "a_members now (abs_db i d) k = map_res set (read_kind un_set now i d k [] Ok)"
    unfolding a_members_def by (rule asets.read_listed(1) [OF ok, symmetric]) simp
  also have "read_kind un_set now i d k [] Ok = set_seen now (dbs d ! i) k"
    using ok(2) by (auto simp: read_kind_def db_simps set_seen_def un_set_def split: option.split rudis_object.split)
  finally show ?thesis .
qed

lemma algebra_abs:
  assumes ok: "db_ok d" "i < length (dbs d)"
  shows "map_res set (sunion now i d ks) = a_combine a_union now ks (abs_db i d) \<and>
      (\<forall>xs. sunion now i d ks = Ok xs \<longrightarrow> distinct xs)"
    "map_res set (sinter now i d ks) = a_combine a_inter now ks (abs_db i d) \<and>
      (\<forall>xs. sinter now i d ks = Ok xs \<longrightarrow> distinct xs)"
    "map_res set (sdiff now i d ks) = a_combine a_diff now ks (abs_db i d) \<and>
      (\<forall>xs. sdiff now i d ks = Ok xs \<longrightarrow> distinct xs)"
proof -
  let ?g = "set_seen now (dbs d ! i)" and ?A = "abs_db i d"
  have "(map_res set (sunion now i d ks) = a_combine a_union now ks ?A \<and> (\<forall>xs. sunion now i d ks = Ok xs \<longrightarrow> distinct xs)) \<and>
    (map_res set (sinter now i d ks) = a_combine a_inter now ks ?A \<and> (\<forall>xs. sinter now i d ks = Ok xs \<longrightarrow> distinct xs)) \<and>
    (map_res set (sdiff now i d ks) = a_combine a_diff now ks ?A \<and> (\<forall>xs. sdiff now i d ks = Ok xs \<longrightarrow> distinct xs))"
  proof (cases "\<exists>k\<in>set ks. ?g k = Err WrongType")
    case True
    then obtain k where k: "k \<in> set ks" "?g k = Err WrongType" by blast
    then obtain v where "view now d i k = Some v" "un_set v = None"
      by (auto simp: set_seen_def view_def un_set_def split: option.splits rudis_object.splits)
    note bad = set_algebra_wrong_type [OF ok(2) k(1) this]
    have "\<exists>k\<in>set ks. a_members now ?A k = Err WrongType" using k by (intro bexI [of _ k]) (simp_all add: members_seen [OF ok])
    then show ?thesis using bad by (simp add: a_combine_def)
  next
    case False
    define S where "S k = (case ?g k of Ok s \<Rightarrow> s | _ \<Rightarrow> [])" for k
    have seen: "(\<exists>s. ?g k = Ok s) \<or> ?g k = Err WrongType" for k
      by (auto simp: set_seen_def split: option.split rudis_object.split)
    have g: "?g k = Ok (S k)" if "k \<in> set ks" for k using False that seen [of k] by (auto simp: S_def)
    have d: "distinct (S k)" if "k \<in> set ks" for k
      using set_seen_distinct [OF db_ok_nth [OF ok] g [OF that]] .
    have A: "a_combine F now ks ?A = Ok (F (map (\<lambda>k. set (S k)) ks))" for F
      unfolding a_combine_def using g by (simp add: members_seen [OF ok] cong: map_cong)
    have u: "sunion now i d ks = Ok (fold (\<lambda>k acc. hs_extend acc (S k)) ks [])"
      by (rule algebra_runs(1) [OF ok(2) g])
    have u': "set (fold (\<lambda>k acc. hs_extend acc (S k)) ks []) = (\<Union>k\<in>set ks. set (S k))"
      "distinct (fold (\<lambda>k acc. hs_extend acc (S k)) ks [])" by (simp_all add: fold_extend)
    show ?thesis
    proof (cases ks)
      case Nil
      then show ?thesis by (simp add: sunion_def sinter_def sdiff_def a_combine_def a_union_def a_inter_def a_diff_def)
    next
      case (Cons k0 rest)
      have n: "sinter now i d ks = Ok (filter (\<lambda>m. \<forall>s\<in>set (map S rest). m \<in> set s) (S k0))"
        by (rule algebra_runs(2) [OF ok(2) g Cons])
      have m: "sdiff now i d ks = Ok (filter (\<lambda>m. \<not> (\<exists>s\<in>set (map S rest). m \<in> set s)) (S k0))"
        by (rule algebra_runs(3) [OF ok(2) g Cons])
      have "distinct (S k0)" using d [of k0] Cons by simp
      then show ?thesis
        unfolding A u n m map_res.simps u'(1) using u'(2) unfolding Cons
        by (auto simp: a_union_def a_inter_def a_diff_def)
    qed
  qed
  then show "map_res set (sunion now i d ks) = a_combine a_union now ks ?A \<and> (\<forall>xs. sunion now i d ks = Ok xs \<longrightarrow> distinct xs)"
    "map_res set (sinter now i d ks) = a_combine a_inter now ks ?A \<and> (\<forall>xs. sinter now i d ks = Ok xs \<longrightarrow> distinct xs)"
    "map_res set (sdiff now i d ks) = a_combine a_diff now ks ?A \<and> (\<forall>xs. sdiff now i d ks = Ok xs \<longrightarrow> distinct xs)"
    by simp_all
qed

lemma store_implements:
  assumes i: "i < length (dbs d)" and r: "map_res set r = R \<and> (\<forall>xs. r = Ok xs \<longrightarrow> distinct xs)"
  shows "implements i (store_set i d dst r) (a_store dst R (abs_db i d))"
proof (cases r)
  case (Ok xs)
  then have "distinct xs" "R = Ok (set xs)" using r by auto
  then show ?thesis
    unfolding store_set_def Ok res.case abs_db_def
    by (intro implements_with_db [OF i]) (simp add: a_store_def distinct_card)
qed (use r in \<open>auto simp: store_set_def a_store_def implements_def\<close>)

lemma smove_refines:
  assumes ok: "ldb_ok l"
  shows "fst (smove_step src dst m l) = fst (a_smove src dst m (abs_ldb l)) \<and>
    abs_ldb (snd (smove_step src dst m l)) = snd (a_smove src dst m (abs_ldb l))"
proof (cases "\<exists>s. hm_get (data l) src = Some (OSet s) \<and> m \<in> set s")
  case True
  then obtain s where s: "hm_get (data l) src = Some (OSet s)" "m \<in> set s" by blast
  let ?l1 = "drop_if (hs_remove m s = []) src (ldb_put src (OSet (hs_remove m s)) l)"
  have "distinct s" using ldb_okD(4) [OF ok s(1)] by simp
  then have ok1: "ldb_ok ?l1" by (simp add: drop_if_ok ldb_put_ok [OF ok])
  have "hs_remove m s = [] \<longleftrightarrow> set s = {m}" using s(2) set_hs_remove [of m s] by (auto simp: set_empty [symmetric] simp del: set_empty)
  then have abs1: "abs_ldb ?l1 = (if set s = {m} then (abs_ldb l)(src := None)
      else (abs_ldb l)(src \<mapsto> (ASet (set s - {m}), hm_get (expiry l) src)))" by simp
  show ?thesis
    using asets.entry_refines [OF ok1, where k = dst and f = "\<lambda>t. (Ok True, hs_insert m t)" and g = "\<lambda>T. (Ok True, insert m T)"] s
    unfolding abs1 by (simp add: smove_step_def a_smove_def abs_ldb_key(2))
next
  case False
  then show ?thesis
    by (cases "hm_get (data l) src")
      (auto simp: smove_step_def a_smove_def abs_ldb_def split: rudis_object.split)
qed

lemma spop_fulfils:
  assumes ok: "db_ok d" "i < length (dbs d)" and draws: "draws_ok w" and few: "set_moderate (SPop k n)"
  shows "fulfils i (exec_set_cmd w (SPop k n) i d) (spec_sets w (SPop k n) (abs_db i d))"
proof -
  let ?l = "dbs d ! i" and ?A = "abs_db i d"
  let ?xs = "case hm_get (data ?l) k of Some (OSet s) \<Rightarrow> the (w_sample w n s) | _ \<Rightarrow> []"
  let ?step = "a_stored a_set ASet (\<lambda>S. S = {}) (Ok []) k (\<lambda>S. (Ok ?xs, S - set ?xs)) ?A"
  have chosen: "?xs \<in> samples n S" if held: "?A k = Some (ASet S, e)" for S e
  proof -
    obtain v where v: "hm_get (data ?l) k = Some v" "abs_value v = ASet S"
      using held by (auto simp: abs_db_def abs_ldb_def)
    then obtain s where s: "hm_get (data ?l) k = Some (OSet s)" "set s = S" by (cases v) auto
    have "distinct s" using ldb_okD(4) [OF db_ok_nth [OF ok] s(1)] by simp
    from draws_okD(1) [OF draws _ this, of n] show ?thesis using s few by auto
  qed
  have answers: "(case w_sample w n s of None \<Rightarrow> (Panic, s) | Some chosen \<Rightarrow> (Ok chosen, snd (remove_all chosen s))) =
      (Ok (the (w_sample w n s)), snd (remove_all (the (w_sample w n s)) s))" if "distinct s" for s
    using draws_okD(1) [OF draws _ that, of n] few by auto
  have "implements i (spop (w_sample w) i d k n) ?step"
    unfolding spop_def
    by (rule asets.stored_implements [OF ok]) (simp add: answers remove_all_set remove_all_empty del: Diff_eq_empty_iff)
  then have "fulfils i (exec_set_cmd w (SPop k n) i d) (only (\<lambda>r. one_or_array r (n = 1)) ?step)"
    by (simp add: fulfils_runs)
  then show ?thesis using chosen unfolding fulfils_def spec_sets.simps by blast
qed

lemma srandmember_fulfils:
  assumes ok: "db_ok d" "i < length (dbs d)" and draws: "draws_ok w" and few: "set_moderate (SRandMember k n)"
  shows "fulfils i (exec_set_cmd w (SRandMember k n) i d) (spec_sets w (SRandMember k n) (abs_db i d))"
proof -
  let ?g = "set_seen (w_now w) (dbs d ! i) k"
  have dist: "distinct s" if "ldb_get (w_now w) (dbs d ! i) k = Some (OSet s)" for s
    using set_seen_distinct [OF db_ok_nth [OF ok], of "w_now w" k s] that by (simp add: set_seen_def)
  have answers: "(case w_sample w (as_usize n) s of None \<Rightarrow> Panic | Some chosen \<Rightarrow> Ok chosen) =
      Ok (the (w_sample w (as_usize n) s))"
    if "0 \<le> n" "ldb_get (w_now w) (dbs d ! i) k = Some (OSet s)" for s
    using draws_okD(1) [OF draws _ dist [OF that(2)], of "as_usize n"] few that(1) by auto
  have run: "srandmember (w_sample w) (w_draw w) (w_now w) i d k n =
      (case ldb_get (w_now w) (dbs d ! i) k of None \<Rightarrow> Ok [] | Some (OSet s) \<Rightarrow>
         (if n \<ge> 0 then Ok (the (w_sample w (as_usize n) s)) else if s = [] then Ok []
          else Ok (map (\<lambda>j. s ! w_draw w (length s) j) [0..<nat \<bar>n\<bar>])) | _ \<Rightarrow> Err WrongType)"
    using few ok(2)
    by (cases "0 \<le> n") (simp_all add: srandmember_def read_set_def db_simps answers split: option.split rudis_object.split)
  have chosen: "the (w_sample w (as_usize n) s) \<in> samples (as_usize n) (set s)"
    if "0 \<le> n" "ldb_get (w_now w) (dbs d ! i) k = Some (OSet s)" for s
    using draws_okD(1) [OF draws _ dist [OF that(2)], of "as_usize n"] few that(1) by auto
  have picks: "s ! w_draw w (length s) j \<in> set s" if "s \<noteq> []" for s j
    using draws_okD(2) [OF draws, of "length s" j] that by simp
  consider (none) "ldb_get (w_now w) (dbs d ! i) k = None" | (there) s where "ldb_get (w_now w) (dbs d ! i) k = Some (OSet s)"
    | (other) "?g = Err WrongType" "srandmember (w_sample w) (w_draw w) (w_now w) i d k n = Err WrongType"
  proof (cases "ldb_get (w_now w) (dbs d ! i) k")
    case (Some v)
    then show ?thesis using that(2,3) by (cases v) (simp_all add: run set_seen_def)
  qed (rule that(1))
  then show ?thesis
  proof cases
    case none
    then show ?thesis
      by (auto simp: fulfils_def reads_def run members_seen [OF ok] set_seen_def samples_def intro!: exI [of _ "[]"])
  next
    case (there s)
    show ?thesis
      using there chosen [OF _ there] picks [of s]
      by (auto simp: fulfils_def reads_def run members_seen [OF ok] set_seen_def intro!: exI)
  next
    case other
    then show ?thesis by (simp add: fulfils_def reads_def members_seen [OF ok] one_or_array_def)
  qed
qed

lemma set_cmd_fulfils:
  assumes ok: "db_ok d" "i < length (dbs d)" and draws: "draws_ok w" and few: "set_moderate c"
  shows "fulfils i (exec_set_cmd w c i d) (spec_sets w c (abs_db i d))"
proof (cases c)
  case (SMembers k)
  show ?thesis
    unfolding SMembers exec_set_cmd.simps spec_sets.simps smembers_def reads_of_kind a_members_def
    by (rule asets.listed_fulfils [OF ok]) auto
next
  case (SUnion ks)
  then show ?thesis using algebra_abs(1) [OF ok, of "w_now w" ks] by (auto intro: fulfils_any_order)
next
  case (SInter ks)
  then show ?thesis using algebra_abs(2) [OF ok, of "w_now w" ks] by (auto intro: fulfils_any_order)
next
  case (SDiff ks)
  then show ?thesis using algebra_abs(3) [OF ok, of "w_now w" ks] by (auto intro: fulfils_any_order)
next
  case (SPop k n)
  show ?thesis unfolding SPop by (rule spop_fulfils [OF ok draws]) (use few SPop in simp)
next
  case (SRandMember k n)
  show ?thesis unfolding SRandMember by (rule srandmember_fulfils [OF ok draws]) (use few SRandMember in simp)
next
  case (SMove src dst m)
  have "implements i (smove i d src dst m) (a_smove src dst m (abs_db i d))"
    unfolding smove_def abs_db_def
    by (rule implements_with_db [OF ok(2)]) (rule smove_refines [OF db_ok_nth [OF ok]])
  then show ?thesis using SMove by (simp add: fulfils_runs)
qed (simp_all add: fulfils_runs fulfils_reads set_ops_implement [OF ok] set_reads_abs [OF ok] sunionstore_def sinterstore_def
    sdiffstore_def store_implements [OF ok(2) algebra_abs(1) [OF ok]] store_implements [OF ok(2) algebra_abs(2) [OF ok]]
    store_implements [OF ok(2) algebra_abs(3) [OF ok]])

end
