(* ===== verification/StoreZSet.thy ===== *)
theory StoreZSet imports StoreHashSet begin

text \<open>
  The commands on sorted sets implement their specification on the abstract store: the skip list and
  the dictionary together are a map from members to scores, listed in the order of its ranking.
\<close>

subsection \<open>The ranking\<close>

lemma ranking_items [simp]: "ranking (z_dict z) = z_items z"
  by (simp add: ranking_def z_items_def)

lemma zset_empty: "z_is_empty z \<longleftrightarrow> z_dict z = Map.empty"
  by (simp add: z_is_empty_def z_dict_def hm_empty_iff)

lemma position_nth: "distinct xs \<Longrightarrow> r < length xs \<Longrightarrow> position (xs ! r) xs = Some r"
proof (induction xs arbitrary: r)
  case (Cons x xs)
  then show ?case by (cases r) auto
qed simp

lemma position_absent: "v \<notin> set xs \<Longrightarrow> position v xs = None"
  by (induction xs) auto

lemma ranked_position:
  assumes "distinct (map fst xs)" "r < length xs" "xs ! r = (m, s :: f64)"
  shows "position m (map fst xs) = Some r"
  using position_nth [OF assms(1), of r] assms(2,3) by simp

lemma zset_position:
  assumes ok: "z_ok z"
  shows "z_rank m z = Some (position m (map fst (z_items z)))"
    "z_revrank m z = Some (position m (map fst (rev (z_items z))))"
proof -
  have "z_rank m z = Some (position m (map fst (z_items z))) \<and>
    z_revrank m z = Some (position m (map fst (rev (z_items z))))"
  proof (cases "z_dict z m")
    case None
    have "m \<notin> fst ` set (z_items z)" using None z_items_set [of m _ z] by auto
    then show ?thesis using z_rank_spec(1) [OF ok None] by (simp add: position_absent z_revrank_def)
  next
    case (Some s)
    obtain r q where "z_rank m z = Some (Some r)" "r < length (z_items z)" "z_items z ! r = (m, s)"
      "z_revrank m z = Some (Some q)" "q < length (rev (z_items z))" "rev (z_items z) ! q = (m, s)"
      using z_rank_spec(2) [OF ok Some] z_revrank_spec [OF ok Some] z_items_length [OF ok] by auto
    moreover have "distinct (map fst (rev (z_items z)))" using z_items_distinct(1) by (simp add: rev_map [symmetric])
    ultimately show ?thesis
      using ranked_position [OF z_items_distinct(1), of r z m s] ranked_position [of "rev (z_items z)" q m s] by simp
  qed
  then show "z_rank m z = Some (position m (map fst (z_items z)))"
    "z_revrank m z = Some (position m (map fst (rev (z_items z))))" by simp_all
qed

subsection \<open>Reads\<close>

lemma count_length:
  "z_ok z \<Longrightarrow> z_count_by_score mn mx z = Some (length (filter (\<lambda>p. in_bounds mn mx (snd p)) (z_items z)))"
  by (simp add: z_count_by_score_def z_iter_items bounds_fun)

lemma zset_reads_abs:
  assumes ok: "db_ok d" "i < length (dbs d)"
  shows "zscore now i d k m = a_read a_zset now k None (\<lambda>D. D m) (abs_db i d)"
    "zmscore now i d k ms = a_read a_zset now k (replicate (length ms) None) (\<lambda>D. map D ms) (abs_db i d)"
    "zrank now i d k m = a_read a_zset now k None (\<lambda>D. position m (map fst (ranking D))) (abs_db i d)"
    "zrevrank now i d k m = a_read a_zset now k None (\<lambda>D. position m (map fst (rev (ranking D)))) (abs_db i d)"
    "zcard now i d k = a_read a_zset now k 0 (\<lambda>D. card (dom D)) (abs_db i d)"
    "zcount now i d k mn mx = a_read a_zset now k 0 (\<lambda>D. length (within_bounds mn mx D)) (abs_db i d)"
    "zrange now i d k a b rv ws = a_read a_zset now k [] (\<lambda>D.
       (if rv then rev else id) (map (with_scores ws) (slice a b (ranking D)))) (abs_db i d)"
    "zrangebyscore now i d k mn mx ws off cnt = a_read a_zset now k [] (\<lambda>D.
       map (with_scores ws) (take_part off cnt (within_bounds mn mx D))) (abs_db i d)"
    "zrevrangebyscore now i d k mx mn ws off cnt = a_read a_zset now k [] (\<lambda>D.
       map (with_scores ws) (take_part off cnt (rev (within_bounds mn mx D)))) (abs_db i d)"
  unfolding zscore_def zmscore_def zrank_def zrevrank_def zcard_def zcount_def zrange_def zrangebyscore_def
    zrevrangebyscore_def reads_of_kind
  by (rule azsets.read_same [OF ok],
      simp add: z_score_def z_dict_def [symmetric] zset_position z_len_card count_length within_bounds_def
        z_range_by_index_spec z_range_by_score_spec z_revrange_by_score_spec take_part_def)+

subsection \<open>Writes\<close>

lemmas zset_entry_step = azsets.entry_implements [unfolded z_new_ok(2)]

lemma zset_entries_implement:
  assumes ok: "db_ok d" "i < length (dbs d)"
  shows "arena_room i d k (length ms) \<Longrightarrow> implements i (zadd coins i d k ms nx xx gt lt ch)
      (a_entry a_zset AZSet Map.empty k (zadd_dict nx xx gt lt ch ms 0) (abs_db i d))"
    "arena_room i d k 1 \<Longrightarrow> implements i (zincrby bits i d k x m) (a_entry a_zset AZSet Map.empty k (\<lambda>D.
       let s = f_add (case D m of None \<Rightarrow> Fin 0 | Some s \<Rightarrow> s) x
       in if is_nan s then (Err ScoreNaN, D) else (Ok s, D(m \<mapsto> s))) (abs_db i d))"
proof -
  have room: "n \<le> z_room z" if "arena_room i d k n" "z = z_new \<or> hm_get (data (dbs d ! i)) k = Some (OZSet z)" for n z
    using that ok(2) by (auto simp: arena_room_def)
  show "implements i (zadd coins i d k ms nx xx gt lt ch)
      (a_entry a_zset AZSet Map.empty k (zadd_dict nx xx gt lt ch ms 0) (abs_db i d))" if r: "arena_room i d k (length ms)"
    unfolding zadd_def by (rule zset_entry_step [OF ok], rule zadd_loop_refines) (simp_all add: room [OF r])
  have add: "\<exists>b z'. z_add bits m s z = Some (b, z') \<and> z_dict z' = (z_dict z)(m \<mapsto> s)"
    if "z_ok z" "0 < z_room z" "\<not> is_nan s" for s z
    using z_add_total [OF that(1,3,2)] z_add_ok(2) [OF that(1,3)] by blast
  show "implements i (zincrby bits i d k x m) (a_entry a_zset AZSet Map.empty k (\<lambda>D.
       let s = f_add (case D m of None \<Rightarrow> Fin 0 | Some s \<Rightarrow> s) x
       in if is_nan s then (Err ScoreNaN, D) else (Ok s, D(m \<mapsto> s))) (abs_db i d))" if r: "arena_room i d k 1"
    unfolding zincrby_def
  proof (rule zset_entry_step [OF ok])
    fix z assume z: "z_ok z" "z = z_new \<or> hm_get (data (dbs d ! i)) k = Some (OZSet z)"
    let ?s = "f_add (case z_dict z m of None \<Rightarrow> Fin 0 | Some s \<Rightarrow> s) x"
    have "0 < z_room z" using room [OF r z(2)] by simp
    then obtain b z' where "is_nan ?s \<or> z_add bits m ?s z = Some (b, z') \<and> z_dict z' = (z_dict z)(m \<mapsto> ?s)"
      using add [OF z(1), of ?s] by blast
    then show "fst (let old = (case hm_get (scores z) m of Some s \<Rightarrow> s | None \<Rightarrow> Fin 0); new_score = f_add old x
         in if is_nan new_score then (Err ScoreNaN, z)
            else case z_add bits m new_score z of None \<Rightarrow> (Panic, z) | Some (_, z') \<Rightarrow> (Ok new_score, z')) =
        fst (let s = f_add (case z_dict z m of None \<Rightarrow> Fin 0 | Some s \<Rightarrow> s) x
          in if is_nan s then (Err ScoreNaN, z_dict z) else (Ok s, (z_dict z)(m \<mapsto> s))) \<and>
      z_dict (snd (let old = (case hm_get (scores z) m of Some s \<Rightarrow> s | None \<Rightarrow> Fin 0); new_score = f_add old x
         in if is_nan new_score then (Err ScoreNaN, z)
            else case z_add bits m new_score z of None \<Rightarrow> (Panic, z) | Some (_, z') \<Rightarrow> (Ok new_score, z'))) =
        snd (let s = f_add (case z_dict z m of None \<Rightarrow> Fin 0 | Some s \<Rightarrow> s) x
          in if is_nan s then (Err ScoreNaN, z_dict z) else (Ok s, (z_dict z)(m \<mapsto> s)))"
      by (auto simp: z_dict_def [symmetric] Let_def split: option.split)
  qed
qed

text \<open>Taking a part out of a sorted set, by its items and on the map.\<close>

lemma cut_dict:
  assumes "set part \<union> set (z_items z') = set (z_items z)" "set part \<inter> set (z_items z') = {}"
  shows "z_dict z' = z_dict z |` (- (fst ` set part))"
proof
  fix m
  show "z_dict z' m = (z_dict z |` (- (fst ` set part))) m"
  proof (cases "m \<in> fst ` set part")
    case True
    then obtain s where s: "(m, s) \<in> set part" by auto
    have "(m, s') \<notin> set (z_items z')" for s'
      using s assms z_items_set [of m s z] z_items_set [of m s' z] by auto
    then show ?thesis using True z_items_set [of m _ z'] by (cases "z_dict z' m") auto
  next
    case False
    then have "(m, s) \<notin> set part" for s by force
    then have "(m, s) \<in> set (z_items z') \<longleftrightarrow> (m, s) \<in> set (z_items z)" for s
      unfolding assms(1) [symmetric] by blast
    then have "z_dict z' m = Some s \<longleftrightarrow> z_dict z m = Some s" for s by (simp add: z_items_set)
    then have "z_dict z' m = z_dict z m" by (cases "z_dict z m"; cases "z_dict z' m") auto
    then show ?thesis using False by simp
  qed
qed

lemma cut_implements:
  assumes ok: "db_ok d" "i < length (dbs d)"
    and f: "\<And>z. z_ok z \<Longrightarrow> \<exists>z'. f z = Some (r (part (z_dict z)), z') \<and>
      set (part (z_dict z)) \<union> set (z_items z') = set (z_items z) \<and> set (part (z_dict z)) \<inter> set (z_items z') = {}"
  shows "implements i (with_db i d (on_stored un_zset OZSet z_is_empty (Ok none) k (run_zset f)))
    (a_cut part r k none (abs_db i d))"
  unfolding a_cut_def
proof (rule azsets.stored_implements [OF ok])
  fix z assume "z_ok z"
  then obtain z' where z': "f z = Some (r (part (z_dict z)), z')"
    "set (part (z_dict z)) \<union> set (z_items z') = set (z_items z)" "set (part (z_dict z)) \<inter> set (z_items z') = {}"
    using f by blast
  show "fst (run_zset f z) \<noteq> Panic \<and>
      fst (run_zset f z) = fst (Ok (r (part (z_dict z))), z_dict z |` (- fst ` set (part (z_dict z)))) \<and>
      z_dict (snd (run_zset f z)) = snd (Ok (r (part (z_dict z))), z_dict z |` (- fst ` set (part (z_dict z)))) \<and>
      (z_is_empty (snd (run_zset f z)) \<longleftrightarrow> snd (Ok (r (part (z_dict z))), z_dict z |` (- fst ` set (part (z_dict z)))) = Map.empty)"
    by (simp add: run_zset_def z'(1) zset_empty cut_dict [OF z'(2,3)])
qed

lemma distinct_cut:
  assumes "distinct xs"
  shows "set (take n xs) \<union> set (drop n xs) = set xs" "set (take n xs) \<inter> set (drop n xs) = {}"
  using assms set_append [of "take n xs" "drop n xs"] distinct_append [of "take n xs" "drop n xs"]
  by (simp_all del: set_append distinct_append)

lemma zset_cuts_implement:
  assumes ok: "db_ok d" "i < length (dbs d)"
  shows "implements i (zrem i d k ms) (a_stored a_zset AZSet (\<lambda>D. D = Map.empty) (Ok 0) k
       (\<lambda>D. (Ok (card (set ms \<inter> dom D)), D |` (- set ms))) (abs_db i d))"
    "implements i (zremrangebyrank i d k a b) (a_cut (\<lambda>D. slice a b (ranking D)) length k 0 (abs_db i d))"
    "implements i (zremrangebyscore i d k mn mx) (a_cut (within_bounds mn mx) length k 0 (abs_db i d))"
    "implements i (zpopmin i d k n) (a_cut (\<lambda>D. take n (ranking D)) id k [] (abs_db i d))"
    "implements i (zpopmax i d k n) (a_cut (\<lambda>D. take n (rev (ranking D))) id k [] (abs_db i d))"
proof -
  show "implements i (zrem i d k ms) (a_stored a_zset AZSet (\<lambda>D. D = Map.empty) (Ok 0) k
       (\<lambda>D. (Ok (card (set ms \<inter> dom D)), D |` (- set ms))) (abs_db i d))"
    unfolding zrem_def
  proof (rule azsets.stored_implements [OF ok])
    fix z assume "z_ok z"
    then obtain z' where "zrem_loop ms z = Some (card (set ms \<inter> dom (z_dict z)), z')" "z_dict z' = z_dict z |` (- set ms)"
      using zrem_loop_spec by blast
    then show "fst (run_zset (zrem_loop ms) z) \<noteq> Panic \<and>
      fst (run_zset (zrem_loop ms) z) = fst (Ok (card (set ms \<inter> dom (z_dict z))), z_dict z |` (- set ms)) \<and>
      z_dict (snd (run_zset (zrem_loop ms) z)) = snd (Ok (card (set ms \<inter> dom (z_dict z))), z_dict z |` (- set ms)) \<and>
      (z_is_empty (snd (run_zset (zrem_loop ms) z)) \<longleftrightarrow>
        snd (Ok (card (set ms \<inter> dom (z_dict z))), z_dict z |` (- set ms)) = Map.empty)"
      by (simp add: run_zset_def zset_empty)
  qed
  show "implements i (zremrangebyrank i d k a b) (a_cut (\<lambda>D. slice a b (ranking D)) length k 0 (abs_db i d))"
    unfolding zremrangebyrank_def
  proof (rule cut_implements [OF ok])
    fix z assume z: "z_ok z"
    have "set (slice a b (z_items z)) \<subseteq> set (z_items z)"
      unfolding slice_def by (meson set_drop_subset set_take_subset subset_trans)
    then show "\<exists>z'. z_remove_by_rank a b z = Some (length (slice a b (ranking (z_dict z))), z') \<and>
      set (slice a b (ranking (z_dict z))) \<union> set (z_items z') = set (z_items z) \<and>
      set (slice a b (ranking (z_dict z))) \<inter> set (z_items z') = {}"
      using z_remove_by_rank_spec [OF z, of a b] by auto
  qed
  show "implements i (zremrangebyscore i d k mn mx) (a_cut (within_bounds mn mx) length k 0 (abs_db i d))"
    unfolding zremrangebyscore_def
  proof (rule cut_implements [OF ok])
    fix z assume z: "z_ok z"
    show "\<exists>z'. z_remove_by_score mn mx z = Some (length (within_bounds mn mx (z_dict z)), z') \<and>
      set (within_bounds mn mx (z_dict z)) \<union> set (z_items z') = set (z_items z) \<and>
      set (within_bounds mn mx (z_dict z)) \<inter> set (z_items z') = {}"
      using z_remove_by_score_spec [OF z, of mn mx] by (auto simp: within_bounds_def)
  qed
  show "implements i (zpopmin i d k n) (a_cut (\<lambda>D. take n (ranking D)) id k [] (abs_db i d))"
    unfolding zpopmin_def
  proof (rule cut_implements [OF ok])
    fix z assume z: "z_ok z"
    show "\<exists>z'. z_pop_min n z = Some (id (take n (ranking (z_dict z))), z') \<and>
      set (take n (ranking (z_dict z))) \<union> set (z_items z') = set (z_items z) \<and>
      set (take n (ranking (z_dict z))) \<inter> set (z_items z') = {}"
      using z_pop_min_spec [OF z, of n] distinct_cut [OF z_items_distinct(2), of n z] by auto
  qed
  show "implements i (zpopmax i d k n) (a_cut (\<lambda>D. take n (rev (ranking D))) id k [] (abs_db i d))"
    unfolding zpopmax_def
  proof (rule cut_implements [OF ok])
    fix z assume z: "z_ok z"
    obtain z' where z': "z_pop_max n z = Some (take n (rev (z_items z)), z')" "rev (z_items z') = drop n (rev (z_items z))"
      using z_pop_max_spec [OF z, of n] by blast
    have "set (z_items z') = set (drop n (rev (z_items z)))" using arg_cong [OF z'(2), of set] by simp
    then show "\<exists>z'. z_pop_max n z = Some (id (take n (rev (ranking (z_dict z)))), z') \<and>
      set (take n (rev (ranking (z_dict z)))) \<union> set (z_items z') = set (z_items z) \<and>
      set (take n (rev (ranking (z_dict z)))) \<inter> set (z_items z') = {}"
      using z'(1) distinct_cut [of "rev (z_items z)" n] z_items_distinct(2) [of z] by auto
  qed
qed

subsection \<open>The commands\<close>

lemma bounds_fulfil:
  assumes "r1 \<noteq> Panic" "r2 \<noteq> Panic" "\<And>b1 b2. fulfils i (f b1 b2) (g b1 b2)"
  shows "fulfils i (with_bounds r1 r2 d f) (a_bounds r1 r2 g (abs_db i d))"
  using assms by (cases r1; cases r2) (simp_all add: with_bounds_def a_bounds_def fulfils_def)

lemma zset_fulfils:
  assumes ok: "db_ok d" "i < length (dbs d)" and room: "zset_moderate i d c"
  shows "fulfils i (exec_zset w c i d) (spec_zset w c (abs_db i d))"
  using room
  by (cases c)
     (simp_all add: fulfils_runs fulfils_reads zset_reads_abs [OF ok] zset_cuts_implement [OF ok]
        zset_entries_implement [OF ok] bounds_fulfil bounds_answer)

end
