(* ===== verification/Refinement.thy ===== *)
theory Refinement imports StoreZSet begin

text \<open>
  The commands of the server implement their specification on the abstract stores, all of them but the
  scripting commands (for these, theory \<open>StoreServer\<close>).
\<close>

subsection \<open>One command\<close>

lemma flush_abs:
  assumes "i < length (dbs d)"
  shows "implements i (flushdb i d) (Ok (), Map.empty)" "abs_db i (flushall d) = Map.empty"
proof -
  have clear: "abs_ldb (ldb_clear l) = Map.empty" for l by (simp add: abs_ldb_def ldb_clear_def fun_eq_iff)
  show "implements i (flushdb i d) (Ok (), Map.empty)"
    unfolding flushdb_def by (rule implements_with_db [OF assms]) (simp add: clear)
  show "abs_db i (flushall d) = Map.empty" using assms clear by (simp add: abs_db_def flushall_def)
qed

lemma server_fulfils:
  assumes ok: "db_ok d" "i < length (dbs d)"
  shows "fulfils i (fst (exec_server w c i d)) (spec_server w c (abs_db i d))"
proof (cases c)
  case Flushdb
  then show ?thesis
    using fulfils_runs [OF flush_abs(1) [OF ok(2)], of ok_result] by (simp add: only_def ok_result_def)
qed (use ok(2) in \<open>auto simp: fulfils_reads key_reads_abs [OF ok] fulfils_same flush_abs split: option.split\<close>)

lemma execute_fulfils:
  assumes "db_ok d" "i < length (dbs d)" "clock_ok w" "moderate w i d c" "memory_ok i d" "draws_ok w"
  shows "fulfils i (fst (execute script w c i d)) (spec_command w c (abs_db i d))"
  using assms
  by (cases c)
     (simp_all add: execute_def server_fulfils key_fulfils string_fulfils list_fulfils hash_fulfils set_cmd_fulfils zset_fulfils)

text \<open>The logical databases together, and the selected one.\<close>

type_synonym stores = "nat \<Rightarrow> store"

definition abs_all :: "database \<Rightarrow> stores" where
  "abs_all d j = (if j < length (dbs d) then abs_db j d else Map.empty)"

definition selected :: "command \<Rightarrow> nat \<Rightarrow> nat" where
  "selected c i = (case c of Server (Select j) \<Rightarrow> if j < 16 then j else i | _ \<Rightarrow> i)"

text \<open>A command on the stores: it can change the selected one alone, except that \<open>FLUSHALL\<close> empties them all.\<close>

definition spec_step :: "world \<Rightarrow> command \<Rightarrow> nat \<Rightarrow> stores \<Rightarrow> (frame option \<times> nat \<times> stores) set" where
  "spec_step w c i S =
     {(f, selected c i, if c = Server Flushall then \<lambda>_. Map.empty else S(i := A)) | f A. (f, A) \<in> spec_command w c (S i)}"

lemma execute_selects: "snd (execute script w c i d) = selected c i"
proof (cases c)
  case (Server s)
  then show ?thesis by (cases s) (simp_all add: execute_def selected_def)
qed (simp_all add: execute_def selected_def)

lemma execute_others:
  assumes "c \<noteq> Server Flushall" "\<And>s. c \<noteq> Scripting s" "j \<noteq> i"
  shows "abs_all (snd (fst (execute script w c i d))) j = abs_all d j"
proof -
  have "touches i (cmd_writes c) d (snd (fst (execute script w c i d)))"
    using execute_within [OF assms(1,2), of i d script w] by (simp add: confined_def)
  then show ?thesis using assms(3) by (auto simp: abs_all_def abs_db_def touches_def fun_eq_iff intro!: abs_ldb_slot)
qed

lemma execute_size:
  assumes "\<And>s. c \<noteq> Scripting s"
  shows "length (dbs (snd (fst (execute script w c i d)))) = length (dbs d)"
proof (cases "c = Server Flushall")
  case False
  from execute_within [OF False assms, of i d script w] show ?thesis by (simp add: confined_def touches_def)
qed (simp add: execute_def flushall_def)

lemma execute_steps:
  assumes "db_ok d" "i < length (dbs d)" "clock_ok w" "moderate w i d c" "memory_ok i d" "draws_ok w"
  shows "(case execute script w c i d of ((f, d'), j) \<Rightarrow> (f, j, abs_all d')) \<in> spec_step w c i (abs_all d)"
proof -
  obtain f d' j where run: "execute script w c i d = ((f, d'), j)" by (metis surj_pair)
  have plain: "\<And>s. c \<noteq> Scripting s" using assms(4) by auto
  have size: "length (dbs d') = length (dbs d)" using execute_size [OF plain, of script w i d] run by simp
  have "(f, abs_db i d') \<in> spec_command w c (abs_all d i)"
    using execute_fulfils [OF assms, of script] run assms(2) by (simp add: fulfils_def abs_all_def)
  moreover have "j = selected c i" using execute_selects [of script w c i d] run by simp
  moreover have "abs_all d' = (if c = Server Flushall then \<lambda>_. Map.empty else (abs_all d)(i := abs_db i d'))"
  proof (cases "c = Server Flushall")
    case True
    then have "d' = flushall d" using run by (simp add: execute_def)
    moreover have "length (dbs (flushall d)) = length (dbs d)" by (simp add: flushall_def)
    ultimately show ?thesis using True by (auto simp: abs_all_def flush_abs fun_eq_iff)
  next
    case False
    then show ?thesis
      using execute_others [OF False plain, of _ i script w d] run size assms(2) by (auto simp: abs_all_def fun_eq_iff)
  qed
  ultimately show ?thesis unfolding run spec_step_def by auto
qed

text \<open>C1: The server refines an abstract key-value store.  For every command but the scripting ones, on a
  well-formed database and with moderate operands, the reply, the selected database and the stores that
  are left are an outcome of the specification of the command on the abstraction of the database, where
  a hash is a map, a set is a set, a sorted set is a map from members to scores and a list is a list.
  The hash tables, the skip list, its levels and their random coins cannot be seen.\<close>

theorem execute_refines_store:
  assumes "db_ok d" "i < length (dbs d)" "clock_ok w" "moderate w i d c" "memory_ok i d" "draws_ok w"
  shows "(case execute script w c i d of ((f, d'), j) \<Rightarrow> (f, j, abs_all d')) \<in> spec_step w c i (abs_all d)"
  using assms by (rule execute_steps)

lemma sample_world_ok: "clock_ok sample_world" "draws_ok sample_world"
proof -
  show "clock_ok sample_world" by (simp add: clock_ok_def sample_world_def from_millis_def usize_max_def instant_max_def)
  show "draws_ok sample_world"
    by (auto simp: draws_ok_def sample_world_def samples_def distinct_card dest: in_set_takeD)
qed

theorem execute_refines_store_witness:
  "\<exists>d' A. execute (\<lambda>s i d. (None, d)) sample_world (OnSet (SAdd ''s'' [''a'', ''b''])) 0 (one_db [(''s'', OSet [''a''])]) =
       ((Some (Integer 1), d'), 0) \<and> abs_all d' 0 ''s'' = Some (ASet {''a'', ''b''}, None)"
proof -
  let ?d = "one_db [(''s'', OSet [''a''])]" and ?c = "OnSet (SAdd ''s'' [''a'', ''b''])"
  have "db_ok ?d" by (rule one_db_ok) auto
  moreover have "memory_ok 0 ?d" by (auto simp: memory_ok_def one_db_simps split: if_splits)
  ultimately have "(case execute (\<lambda>s i d. (None, d)) sample_world ?c 0 ?d of ((f, d'), j) \<Rightarrow> (f, j, abs_all d')) \<in>
      spec_step sample_world ?c 0 (abs_all ?d)"
    by (intro execute_refines_store) (simp_all add: sample_world_ok one_db_simps)
  moreover have "abs_all ?d 0 ''s'' = Some (ASet {''a''}, None)"
    by (simp add: abs_all_def abs_db_def abs_ldb_def one_db_simps)
  ultimately show ?thesis
    by (auto simp: spec_step_def only_def a_entry_def selected_def len_result_def int_result_def as_i64_def
        wrap_i64_def split: prod.splits)
qed

end
