(* ===== verification/Script.thy ===== *)
theory Script imports Exec CommandText begin

text \<open>
  The script engine of \<open>src/script/mod.rs\<close>, and the scripting commands of \<open>src/cmd/zset.rs\<close>.  The Lua
  interpreter (crate \<open>mlua\<close>) is not part of the repository: a script is a parameter, the interaction it
  has with the server, and so is the digest of crate \<open>sha1\<close>.  A Lua table is the list of its raw
  entries, without metatable; a value that cannot be sent as such (a function, a thread) is its type and
  its debug text.
\<close>

subsection \<open>Values\<close>

datatype lua_value =
    LNil | LBool bool | LInt int | LNum f64 | LStr string | LTable "(lua_value \<times> lua_value) list"
  | LOther string string

definition table_get :: "(lua_value \<times> lua_value) list \<Rightarrow> lua_value \<Rightarrow> lua_value" where
  "table_get t k = (case map_of t k of None \<Rightarrow> LNil | Some v \<Rightarrow> v)"

text \<open>The entries \<open>1, 2, ..\<close> of a sequence, and a table that is one.\<close>

fun number_from :: "int \<Rightarrow> lua_value list \<Rightarrow> (lua_value \<times> lua_value) list" where
  "number_from i [] = []"
| "number_from i (v # vs) = (LInt i, v) # number_from (i + 1) vs"

fun frame_to_lua_value :: "frame \<Rightarrow> lua_value" where
  "frame_to_lua_value (Simple s) = LStr s"
| "frame_to_lua_value (FError e) = LTable [(LStr ''err'', LStr e)]"
| "frame_to_lua_value (Integer n) = LInt n"
| "frame_to_lua_value (Bulk b) = LStr b"
| "frame_to_lua_value Null = LBool False"
| "frame_to_lua_value (Array fs) = LTable (number_from 1 (map frame_to_lua_value fs))"

text \<open>\<open>f as i64\<close>: towards zero, saturating, 0 for NaN.\<close>

fun f64_as_i64 :: "f64 \<Rightarrow> int" where
  "f64_as_i64 NaN = 0"
| "f64_as_i64 PosInf = i64_max"
| "f64_as_i64 NegInf = i64_min"
| "f64_as_i64 (Fin r) = max i64_min (min i64_max (if 0 \<le> r then \<lfloor>r\<rfloor> else \<lceil>r\<rceil>))"

text \<open>
  The loop over \<open>t.get(i)\<close> from \<open>i = 1\<close> to the first \<open>Nil\<close>.  A table has no more consecutive keys than
  entries, so \<open>length t\<close> turns are enough (\<open>table_items_enough\<close>).
\<close>

fun table_items :: "(lua_value \<times> lua_value) list \<Rightarrow> int \<Rightarrow> nat \<Rightarrow> lua_value list" where
  "table_items t i 0 = []"
| "table_items t i (Suc n) = (if table_get t (LInt i) = LNil then [] else table_get t (LInt i) # table_items t (i + 1) n)"

lemma table_items_in: "v \<in> set (table_items t i n) \<Longrightarrow> \<exists>k. (k, v) \<in> set t"
  by (induction t i n rule: table_items.induct)
     (auto simp: table_get_def split: if_splits option.splits dest: map_of_SomeD)

lemma table_entry_size: "(k, v) \<in> set t \<Longrightarrow> size v < Suc (size_list (size_prod size size) t)"
  by (induction t) auto

function lua_value_to_frame :: "lua_value \<Rightarrow> frame" where
  "lua_value_to_frame LNil = Null"
| "lua_value_to_frame (LBool b) = (if b then Integer 1 else Null)"
| "lua_value_to_frame (LInt n) = Integer n"
| "lua_value_to_frame (LNum x) = Integer (f64_as_i64 x)"
| "lua_value_to_frame (LStr s) = Bulk s"
| "lua_value_to_frame (LTable t) =
     (case table_get t (LStr ''err'') of
        LStr e \<Rightarrow> FError (from_utf8_lossy e)
      | _ \<Rightarrow>
        (case table_get t (LStr ''ok'') of
           LStr s \<Rightarrow> Simple (from_utf8_lossy s)
         | _ \<Rightarrow> Array (map lua_value_to_frame (table_items t 1 (length t)))))"
| "lua_value_to_frame (LOther ty debug) = Bulk debug"
  by pat_completeness auto
termination
  by (relation "measure size") (auto dest!: table_items_in table_entry_size)

text \<open>
  \<open>redis.error_reply(msg)\<close>: a table that is sent as an error.  The argument is a Rust \<open>String\<close>; \<open>mlua\<close>
  raises an error for bytes that are not UTF-8 (\<^theory_text>\<open>None\<close>).
\<close>

definition error_reply :: "string \<Rightarrow> lua_value option" where
  "error_reply msg = map_option (\<lambda>s. LTable [(LStr ''err'', LStr s)]) (from_utf8 msg)"

lemma error_reply_frame: "error_reply msg = Some v \<Longrightarrow> lua_value_to_frame v = FError (from_utf8_lossy (the (from_utf8 msg)))"
  by (auto simp: error_reply_def table_get_def)

subsection \<open>Interactions\<close>

text \<open>What \<open>redis.call\<close> and \<open>redis.pcall\<close> give back to the script: a value, a Lua error, or the panic of the
  command they ran, which the interpreter carries through.\<close>

datatype call_result = Reply lua_value | LuaError string | Panicked

text \<open>
  A running script: it returns, raises an error (with the text \<open>mlua\<close> displays), lets a panic
  through, or calls \<open>redis.pcall\<close> or \<open>redis.call\<close> and goes on with the result.  It may call for ever.
\<close>

codatatype lua =
    Return lua_value | Raise string | Unwind | Call bool "lua_value list" "call_result \<Rightarrow> lua"

text \<open>The surroundings of the server: Unicode upper case, the digest, the interpreter (source text, \<open>KEYS\<close>
  and \<open>ARGV\<close>), and the world each command sees, by the number of commands run before.\<close>

record env =
  e_upper :: "string \<Rightarrow> string"
  e_sha1 :: "string \<Rightarrow> string"
  e_lua :: "string \<Rightarrow> lua_value \<Rightarrow> lua_value \<Rightarrow> lua"
  e_world :: "nat \<Rightarrow> world"

text \<open>The state all connections share: the database, the script cache, and the number of commands run.\<close>

record server =
  s_db :: database
  s_cache :: "(string, string) hash_map"
  s_tick :: nat

definition the_world :: "env \<Rightarrow> server \<Rightarrow> world" where
  "the_world E s = e_world E (s_tick s)"

definition parse_now :: "env \<Rightarrow> server \<Rightarrow> string list \<Rightarrow> command res" where
  "parse_now E s args = parse (e_upper E) (w_wall (the_world E s)) args"

subsection \<open>The script cache\<close>

definition load_script :: "env \<Rightarrow> string \<Rightarrow> server \<Rightarrow> string \<times> server" where
  "load_script E script s =
     (e_sha1 E script, s\<lparr>s_cache := hm_insert (e_sha1 E script) script (s_cache s)\<rparr>)"

definition flush_scripts :: "server \<Rightarrow> server" where
  "flush_scripts s = s\<lparr>s_cache := []\<rparr>"

definition string_table :: "string list \<Rightarrow> lua_value" where
  "string_table xs = LTable (number_from 1 (map LStr xs))"

text \<open>The program of \<open>eval\<close>: the interpreter on the source, with \<open>KEYS\<close> and \<open>ARGV\<close>.\<close>

definition script_program :: "env \<Rightarrow> string \<Rightarrow> string list \<Rightarrow> string list \<Rightarrow> lua" where
  "script_program E script ks args =
     e_lua E script (string_table (map from_utf8_lossy ks)) (string_table (map from_utf8_lossy args))"

definition noscript :: redis_error where
  "noscript = Generic ''NOSCRIPT No matching script. Please use EVAL.''"

text \<open>A scripting command: the program to run, or the reply at once.\<close>

fun start_script :: "env \<Rightarrow> script_cmd \<Rightarrow> server \<Rightarrow> (lua + frame) \<times> server" where
  "start_script E (Eval script n ks args) s = (Inl (script_program E (from_utf8_lossy script) ks args), s)"
| "start_script E (EvalSha sha n ks args) s =
     (case hm_get (s_cache s) (from_utf8_lossy sha) of
        None \<Rightarrow> (Inr (frame_from_error noscript), s)
      | Some script \<Rightarrow> (Inl (script_program E script ks args), s))"
| "start_script E (ScriptLoad script) s =
     (case load_script E (from_utf8_lossy script) s of (sha, s1) \<Rightarrow> (Inr (Bulk sha), s1))"
| "start_script E ScriptFlush s = (Inr frame_ok_reply, flush_scripts s)"

subsection \<open>Commands\<close>

text \<open>A command other than a scripting one, in the world of the moment.\<close>

definition plain_command :: "env \<Rightarrow> command \<Rightarrow> nat \<Rightarrow> server \<Rightarrow> (frame option \<times> nat) \<times> server" where
  "plain_command E c i s =
     (case execute (\<lambda>_ _ d. (None, d)) (the_world E s) c i (s_db s) of
        ((f, d1), i1) \<Rightarrow> ((f, i1), s\<lparr>s_db := d1, s_tick := Suc (s_tick s)\<rparr>))"

definition script_tick :: "env \<Rightarrow> script_cmd \<Rightarrow> server \<Rightarrow> (lua + frame) \<times> server" where
  "script_tick E c s = start_script E c (s\<lparr>s_tick := Suc (s_tick s)\<rparr>)"

text \<open>The arguments of \<open>redis.call\<close> as bytes.\<close>

definition lua_type_name :: "lua_value \<Rightarrow> string" where
  "lua_type_name v =
     (case v of LNil \<Rightarrow> ''nil'' | LBool _ \<Rightarrow> ''boolean'' | LInt _ \<Rightarrow> ''integer'' | LNum _ \<Rightarrow> ''number''
      | LStr _ \<Rightarrow> ''string'' | LTable _ \<Rightarrow> ''table'' | LOther ty _ \<Rightarrow> ty)"

fun call_arg :: "lua_value \<Rightarrow> string + string" where
  "call_arg (LStr s) = Inr s"
| "call_arg (LInt n) = Inr (show_int n)"
| "call_arg (LNum x) = Inr (format_float x)"
| "call_arg v = Inl (''redis.call: unsupported argument type: '' @ [chr 34] @ lua_type_name v @ [chr 34])"

fun call_args :: "lua_value list \<Rightarrow> string + string list" where
  "call_args [] = Inr []"
| "call_args (v # vs) =
     (case call_arg v of
        Inl e \<Rightarrow> Inl e
      | Inr a \<Rightarrow> (case call_args vs of Inl e \<Rightarrow> Inl e | Inr as \<Rightarrow> Inr (a # as)))"

text \<open>The reply of a command as the result of the call; \<open>redis.call\<close> turns an error into a Lua error.\<close>

fun call_answer :: "bool \<Rightarrow> frame option \<Rightarrow> call_result" where
  "call_answer pcall None = Panicked"
| "call_answer pcall (Some (FError msg)) =
     (if pcall then Reply (frame_to_lua_value (FError msg)) else LuaError msg)"
| "call_answer pcall (Some f) = Reply (frame_to_lua_value f)"

text \<open>The checks of \<open>exec_redis_call\<close> before the command runs: the command, or the result at once.\<close>

definition call_command :: "env \<Rightarrow> server \<Rightarrow> lua_value list \<Rightarrow> command + call_result" where
  "call_command E s vs =
     (if vs = [] then Inr (LuaError ''redis.call: missing command'')
      else case call_args vs of
        Inl e \<Rightarrow> Inr (LuaError e)
      | Inr args \<Rightarrow>
          (case parse_now E s args of
             Ok c \<Rightarrow> Inl c | Err e \<Rightarrow> Inr (LuaError (err_to_string e)) | Panic \<Rightarrow> Inr Panicked))"

text \<open>
  A script runs, with the commands it calls and the scripts those run in turn.  The logical database is
  the one selected when the script began: every call works on its own copy of the index.
\<close>

partial_function (option) run_lua :: "env \<Rightarrow> nat \<Rightarrow> lua \<Rightarrow> server \<Rightarrow> (frame res \<times> server) option" where
  "run_lua E i p s =
     (case p of
        Return v \<Rightarrow> Some (Ok (lua_value_to_frame v), s)
      | Raise msg \<Rightarrow> Some (Err (Script msg), s)
      | Unwind \<Rightarrow> Some (Panic, s)
      | Call pcall vs k \<Rightarrow>
          (case call_command E s vs of
             Inr r \<Rightarrow> run_lua E i (k r) s
           | Inl c \<Rightarrow>
               (case c of
                  Scripting sc \<Rightarrow>
                    (case script_tick E sc s of
                       (Inr f, s1) \<Rightarrow> run_lua E i (k (call_answer pcall (Some f))) s1
                     | (Inl q, s1) \<Rightarrow>
                         Option.bind (run_lua E i q s1) (\<lambda>(r, s2).
                           run_lua E i (k (call_answer pcall (reply id r))) s2))
                | _ \<Rightarrow>
                    (case plain_command E c i s of
                       ((f, _), s1) \<Rightarrow> run_lua E i (k (call_answer pcall f)) s1))))"

text \<open>Any command of a connection, with its reply and the index it leaves selected.\<close>

definition exec_command :: "env \<Rightarrow> command \<Rightarrow> nat \<Rightarrow> server \<Rightarrow> ((frame option \<times> nat) \<times> server) option" where
  "exec_command E c i s =
     (case c of
        Scripting sc \<Rightarrow>
          (case script_tick E sc s of
             (Inr f, s1) \<Rightarrow> Some ((Some f, i), s1)
           | (Inl p, s1) \<Rightarrow> map_option (\<lambda>(r, s2). ((reply id r, i), s2)) (run_lua E i p s1))
      | _ \<Rightarrow> Some (plain_command E c i s))"

subsection \<open>Sequences\<close>

lemma table_items_take: "table_items t i n = take n (table_items t i (n + m))"
  by (induction t i n rule: table_items.induct) (auto simp: Let_def)

lemma table_items_keys: "j < length (table_items t i n) \<Longrightarrow> LInt (i + int j) \<in> fst ` set t"
proof (induction t i n arbitrary: j rule: table_items.induct)
  case (2 t i n)
  then have i: "table_get t (LInt i) \<noteq> LNil" by (simp split: if_splits)
  then have "LInt i \<in> fst ` set t"
    by (force simp: table_get_def split: option.splits dest!: map_of_SomeD)
  then show ?case using 2 i by (cases j) (auto simp: algebra_simps)
qed simp

lemma table_items_length: "length (table_items t i n) \<le> length t"
proof -
  let ?K = "(\<lambda>j. LInt (i + int j)) ` {..< length (table_items t i n)}"
  have "inj_on (\<lambda>j. LInt (i + int j)) {..< length (table_items t i n)}" by (auto simp: inj_on_def)
  then have "card ?K = length (table_items t i n)" by (simp add: card_image)
  moreover have "card ?K \<le> card (fst ` set t)"
    by (rule card_mono) (auto intro: table_items_keys)
  moreover have "card (fst ` set t) \<le> length t" using card_length [of "map fst t"] by simp
  ultimately show ?thesis by simp
qed

text \<open>More turns of the loop find no more items.\<close>

lemma table_items_enough: "table_items t i (length t + n) = table_items t i (length t)"
  using table_items_take [of t i "length t" n] table_items_length [of t i "length t + n"] by simp

lemma number_from_get:
  "map_of (number_from i vs) (LInt j) = (if i \<le> j \<and> j < i + int (length vs) then Some (vs ! nat (j - i)) else None)"
proof (induction vs arbitrary: i)
  case (Cons v vs)
  have "nat (j - i) = Suc (nat (j - (i + 1)))" if "i < j" using that by simp
  then show ?case using Cons [of "i + 1"] by auto
qed simp

lemma number_from_str: "map_of (number_from i vs) (LStr x) = None"
  by (induction vs arbitrary: i) auto

lemma length_number_from [simp]: "length (number_from i vs) = length vs"
  by (induction vs arbitrary: i) auto

lemma table_items_all:
  "LNil \<notin> set vs \<Longrightarrow> (\<And>m. m < length vs \<Longrightarrow> table_get t (LInt (i + int m)) = vs ! m) \<Longrightarrow>
   table_items t i (length vs) = vs"
proof (induction vs arbitrary: i)
  case (Cons v vs)
  have "table_get t (LInt i) = v" using Cons.prems(2) [of 0] by simp
  moreover have "table_items t (i + 1) (length vs) = vs"
  proof (rule Cons.IH)
    fix m assume "m < length vs"
    then show "table_get t (LInt (i + 1 + int m)) = vs ! m" using Cons.prems(2) [of "Suc m"] by (simp add: algebra_simps)
  qed (use Cons.prems(1) in simp)
  ultimately show ?case using Cons.prems(1) by auto
qed simp

lemma number_from_items: "LNil \<notin> set vs \<Longrightarrow> table_items (number_from 1 vs) 1 (length vs) = vs"
  by (rule table_items_all) (simp_all add: table_get_def number_from_get)

subsection \<open>Replies through a script\<close>

text \<open>What is left of a reply that a script returns: a status becomes a bulk string.\<close>

fun script_reply :: "frame \<Rightarrow> frame" where
  "script_reply (Simple s) = Bulk s"
| "script_reply (Array fs) = Array (map script_reply fs)"
| "script_reply f = f"

fun error_texts_ok :: "frame \<Rightarrow> bool" where
  "error_texts_ok (FError e) \<longleftrightarrow> utf8_valid e"
| "error_texts_ok (Array fs) \<longleftrightarrow> (\<forall>f\<in>set fs. error_texts_ok f)"
| "error_texts_ok f \<longleftrightarrow> True"

lemma frame_to_lua_not_nil [simp]: "frame_to_lua_value f \<noteq> LNil" "LNil \<noteq> frame_to_lua_value f"
  by (cases f; simp)+

lemma frame_through_lua:
  assumes "error_texts_ok f"
  shows "lua_value_to_frame (frame_to_lua_value f) = script_reply f"
  using assms
proof (induction f)
  case (Array fs)
  have "table_items (number_from 1 (map frame_to_lua_value fs)) 1 (length fs) = map frame_to_lua_value fs"
    using number_from_items [of "map frame_to_lua_value fs"] by (simp add: image_iff)
  then show ?case using Array by (simp add: table_get_def number_from_str)
qed (simp_all add: table_get_def from_utf8_lossy_valid)

text \<open>C38: A reply handed to a script and returned by it comes back as it was, at any nesting and with Null
  inside arrays, except that a status has become a bulk string.\<close>
theorem lua_roundtrip:
  assumes "error_texts_ok f"
  shows "lua_value_to_frame (frame_to_lua_value f) = script_reply f"
  using assms by (rule frame_through_lua)

theorem lua_roundtrip_witness:
  "lua_value_to_frame (frame_to_lua_value (Array [Simple ''OK'', Null, Array [Integer 3], FError ''no''])) =
     Array [Bulk ''OK'', Null, Array [Integer 3], FError ''no'']"
  by (subst lua_roundtrip) (simp_all add: utf8_valid_ascii ascii_def byte_of_def)

subsection \<open>Invariants of execution\<close>

text \<open>What every command and every script keeps, also when it panics: a well-formed database with the same
  logical databases.\<close>

definition keeps :: "server \<Rightarrow> server \<Rightarrow> bool" where
  "keeps s s' \<longleftrightarrow>
     (db_ok (s_db s) \<longrightarrow> db_ok (s_db s')) \<and> length (dbs (s_db s')) = length (dbs (s_db s))"

lemma keeps_refl [simp]: "keeps s s"
  by (simp add: keeps_def)

lemma keeps_trans: "keeps s s1 \<Longrightarrow> keeps s1 s2 \<Longrightarrow> keeps s s2"
  by (simp add: keeps_def)

lemma execute_keeps:
  fixes c i d w
  defines "d' \<equiv> snd (fst (execute (\<lambda>_ _ d. (None, d)) w c i d))"
  shows "(db_ok d \<longrightarrow> db_ok d') \<and> length (dbs d') = length (dbs d)"
proof -
  consider "c = Server Flushall" | s where "c = Scripting s" | "c \<noteq> Server Flushall" "\<And>s. c \<noteq> Scripting s"
    by blast
  then show ?thesis
  proof cases
    case 1
    then show ?thesis using flushall_ok by (simp add: d'_def execute_def flushall_def)
  next
    case 3
    from execute_within [OF this, of i d "\<lambda>_ _ d. (None, d)" w] show ?thesis
      by (simp add: d'_def confined_def touches_def)
  qed (simp add: d'_def execute_def)
qed

lemma plain_command_keeps: "keeps s (snd (plain_command E c i s))"
  using execute_keeps [of "s_db s" "the_world E s" c i]
  by (simp add: plain_command_def keeps_def case_prod_beta)

lemma start_script_keeps: "s_db (snd (start_script E c s)) = s_db s"
  by (cases c) (simp_all add: load_script_def flush_scripts_def split: option.splits)

lemma script_tick_keeps: "keeps s (snd (script_tick E c s))"
  using start_script_keeps [of E c] by (simp add: script_tick_def keeps_def)

lemma run_lua_keeps:
  assumes ran: "run_lua E i p s = Some (r, s')"
  shows "keeps s s'"
proof -
  have "keeps s (snd rs)" if "run_lua E i p s = Some rs" for rs
  proof (rule run_lua.raw_induct [where P = "\<lambda>E i p s rs. keeps s (snd rs)", OF _ that])
    fix f E i p s rs
    assume IH: "\<And>E i p s rs. f E i p s = Some rs \<Longrightarrow> keeps s (snd rs)"
      and eq: "(case p of
        Return v \<Rightarrow> Some (Ok (lua_value_to_frame v), s)
      | Raise msg \<Rightarrow> Some (Err (Script msg), s)
      | Unwind \<Rightarrow> Some (Panic, s)
      | Call pcall vs k \<Rightarrow>
          (case call_command E s vs of
             Inr r \<Rightarrow> f E i (k r) s
           | Inl c \<Rightarrow>
               (case c of
                  Scripting sc \<Rightarrow>
                    (case script_tick E sc s of
                       (Inr g, s1) \<Rightarrow> f E i (k (call_answer pcall (Some g))) s1
                     | (Inl q, s1) \<Rightarrow>
                         Option.bind (f E i q s1) (\<lambda>(r, s2). f E i (k (call_answer pcall (reply id r))) s2))
                | _ \<Rightarrow>
                    (case plain_command E c i s of
                       ((g, _), s1) \<Rightarrow> f E i (k (call_answer pcall g)) s1)))) = Some rs"
    have tick: "keeps s s1" if "script_tick E sc s = (x, s1)" for sc x s1
      using script_tick_keeps [of s E sc] that by simp
    have plain: "keeps s s1" if "plain_command E c i s = (x, s1)" for c x s1
      using plain_command_keeps [of s E c i] that by simp
    show "keeps s (snd rs)"
      using eq
      by (auto split: lua.splits sum.splits command.splits prod.splits bind_splits
          dest!: IH tick plain intro: keeps_trans)
  qed
  with ran show ?thesis by force
qed

lemma exec_command_keeps:
  assumes "exec_command E c i s = Some ((f, j), s')"
  shows "keeps s s'"
proof (cases "\<exists>sc. c = Scripting sc")
  case True
  then obtain sc where c: "c = Scripting sc" by auto
  obtain x s1 where x: "script_tick E sc s = (x, s1)" by fastforce
  have "keeps s s1" using script_tick_keeps [of s E sc] x by simp
  then show ?thesis
    using assms c x by (auto simp: exec_command_def split: sum.splits dest!: run_lua_keeps intro: keeps_trans)
next
  case False
  then have "plain_command E c i s = ((f, j), s')" using assms by (cases c) (simp_all add: exec_command_def)
  then show ?thesis using plain_command_keeps [of s E c i] by simp
qed

lemma plain_command_index: "plain_command E c i s = ((f, j), s') \<Longrightarrow> j = i \<or> j < 16"
proof (cases c)
  case (Server x)
  then show "plain_command E c i s = ((f, j), s') \<Longrightarrow> j = i \<or> j < 16"
    by (cases x) (auto simp: plain_command_def execute_def split: if_splits prod.splits)
qed (auto simp: plain_command_def execute_def split: prod.splits)

lemma exec_command_index: "exec_command E c i s = Some ((f, j), s') \<Longrightarrow> j = i \<or> j < 16"
proof (cases "\<exists>sc. c = Scripting sc")
  case False
  then show "exec_command E c i s = Some ((f, j), s') \<Longrightarrow> j = i \<or> j < 16"
    using plain_command_index [of E c i s f j s'] by (cases c) (simp_all add: exec_command_def)
qed (auto simp: exec_command_def split: sum.splits prod.splits)

subsection \<open>Scripting commands\<close>

text \<open>A sample interpreter for the witnesses: every script calls the command in \<open>KEYS\<close> and returns its reply.\<close>

fun hand_back :: "call_result \<Rightarrow> lua" where
  "hand_back (Reply v) = Return v"
| "hand_back (LuaError e) = Raise e"
| "hand_back Panicked = Unwind"

fun table_values :: "lua_value \<Rightarrow> lua_value list" where
  "table_values (LTable t) = map snd t"
| "table_values v = []"

definition forward_env :: "bool \<Rightarrow> env" where
  "forward_env pc =
     \<lparr>e_upper = id, e_sha1 = (\<lambda>_. ''sha''),
      e_lua = (\<lambda>src K A. Call pc (table_values K) hand_back), e_world = (\<lambda>_. sample_world)\<rparr>"

lemma call_args_strings [simp]: "call_args (map LStr xs) = Inr xs"
  by (induction xs) auto

lemma map_snd_number_from [simp]: "map snd (number_from i vs) = vs"
  by (induction vs arbitrary: i) auto

text \<open>C19: A script that runs one command with \<open>redis.call\<close> or \<open>redis.pcall\<close> and returns what it gets is that
  command: same database, same script cache, same reply but for a status turned into a bulk string.\<close>
theorem script_is_command:
  assumes prog: "script_program E (from_utf8_lossy src) ks args = Call pc (map LStr words) k"
    and returns: "\<And>v. k (Reply v) = Return v"
    and s1: "s1 = s\<lparr>s_tick := Suc (s_tick s)\<rparr>"
    and parsed: "words \<noteq> []" "parse_now E s1 words = Ok c" "\<forall>sc. c \<noteq> Scripting sc"
    and ran: "plain_command E c i s1 = ((Some f, j), s2)"
    and fine: "error_texts_ok f" "pc \<or> (\<forall>e. f \<noteq> FError e)"
  shows "exec_command E (Scripting (Eval src n ks args)) i s = Some ((Some (script_reply f), i), s2)"
proof -
  have ans: "call_answer pc (Some f) = Reply (frame_to_lua_value f)"
    using fine(2) by (cases f) auto
  have cmd: "call_command E s1 (map LStr words) = Inl c"
    using parsed by (simp add: call_command_def)
  have "run_lua E i (Call pc (map LStr words) k) s1 = run_lua E i (k (Reply (frame_to_lua_value f))) s2"
    using parsed(3) ran by (subst run_lua.simps) (cases c; simp add: cmd ans)
  also have "\<dots> = Some (Ok (script_reply f), s2)"
    using frame_through_lua [OF fine(1)] by (simp add: returns run_lua.simps)
  finally show ?thesis by (simp add: exec_command_def script_tick_def prog s1 [symmetric])
qed

lemma sample_set:
  "plain_command (forward_env b) (OnStr (Setnx ''k'' ''v'')) i \<lparr>s_db = one_db [], s_cache = [], s_tick = t\<rparr> =
     ((Some (Integer 1), i), \<lparr>s_db = one_db [(''k'', Str ''v'')], s_cache = [], s_tick = Suc t\<rparr>)" if "i = 0"
  using that
  by (simp add: plain_command_def execute_def runs_def str_setnx_def db_simps one_db_simps ldb_get_def
      ldb_insert_def hm_insert_def hm_remove_def bool_int_result_def bool_int_def) (simp add: one_db_def)

theorem script_is_command_witness:
  "exec_command (forward_env False) (Scripting (Eval ''src'' 3 [''SETNX'', ''k'', ''v''] [])) 0
      \<lparr>s_db = one_db [], s_cache = [], s_tick = 0\<rparr> =
   Some ((Some (Integer 1), 0), \<lparr>s_db = one_db [(''k'', Str ''v'')], s_cache = [], s_tick = 2\<rparr>)"
proof -
  have u: "utf8_valid ''SETNX''" "utf8_valid ''k''" "utf8_valid ''v''"
    by (rule utf8_valid_ascii, simp add: ascii_def byte_of_def)+
  let ?s1 = "\<lparr>s_db = one_db [], s_cache = [], s_tick = 1\<rparr>"
  have p: "parse_now (forward_env False) ?s1 [''SETNX'', ''k'', ''v''] = Ok (OnStr (Setnx ''k'' ''v''))"
    by (simp add: parse_now_def string_dispatch parse_setnx_def two_args_def u)
  have prog: "script_program (forward_env False) (from_utf8_lossy ''src'') [''SETNX'', ''k'', ''v''] [] =
      Call False (map LStr [''SETNX'', ''k'', ''v'']) hand_back"
    by (simp add: script_program_def string_table_def forward_env_def u)
  have r: "plain_command (forward_env False) (OnStr (Setnx ''k'' ''v'')) 0 ?s1 =
      ((Some (Integer 1), 0), \<lparr>s_db = one_db [(''k'', Str ''v'')], s_cache = [], s_tick = 2\<rparr>)"
    using sample_set [of 0 False 1] by (simp add: numeral_2_eq_2)
  show ?thesis
    using script_is_command [OF prog, of ?s1 "\<lparr>s_db = one_db [], s_cache = [], s_tick = 0\<rparr>" _ 0 "Integer 1" 0, OF _ _ _ p _ r]
    by simp
qed

text \<open>C26: EVAL, EVALSHA, SCRIPT LOAD and SCRIPT FLUSH leave the connection's logical database selected, whatever
  the script selects for itself, and keep the database well-formed with all its logical databases, also
  when the script fails or panics half-way.\<close>
theorem scripts_confined:
  assumes "exec_command E (Scripting sc) i s = Some ((f, j), s')" "db_ok (s_db s)"
  shows "j = i \<and> db_ok (s_db s') \<and> length (dbs (s_db s')) = length (dbs (s_db s))"
proof -
  have "j = i" using assms(1) by (auto simp: exec_command_def split: sum.splits prod.splits)
  then show ?thesis using exec_command_keeps [OF assms(1)] assms(2) by (simp add: keeps_def)
qed

theorem scripts_confined_witness:
  "\<exists>s'. exec_command (forward_env True) (Scripting (Eval ''src'' 2 [''SELECT'', ''3''] [])) 0
      \<lparr>s_db = one_db [], s_cache = [], s_tick = 0\<rparr> = Some ((Some (Bulk ''OK''), 0), s') \<and> db_ok (s_db s')"
proof -
  have u: "utf8_valid ''SELECT''" "utf8_valid ''3''"
    by (rule utf8_valid_ascii, simp add: ascii_def byte_of_def)+
  have n: "show_int 3 = ''3''" by (simp add: show_int_def show_nat.simps chr_def char_of_def bit_Suc_0_iff)
  let ?s0 = "\<lparr>s_db = one_db [], s_cache = [], s_tick = 0\<rparr>"
  let ?s1 = "\<lparr>s_db = one_db [], s_cache = [], s_tick = Suc 0\<rparr>"
  let ?s2 = "\<lparr>s_db = one_db [], s_cache = [], s_tick = 2\<rparr>"
  have p: "parse_now (forward_env True) ?s1 [''SELECT'', ''3''] = Ok (Server (Select 3))"
    using server_parse [of "Select 3"] by (simp add: parse_now_def n)
  have prog: "script_program (forward_env True) (from_utf8_lossy ''src'') [''SELECT'', ''3''] [] =
      Call True (map LStr [''SELECT'', ''3'']) hand_back"
    by (simp add: script_program_def string_table_def forward_env_def u)
  have "plain_command (forward_env True) (Server (Select 3)) 0 ?s1 = ((Some (Simple ''OK''), 3), ?s2)"
    by (simp add: plain_command_def execute_def frame_ok_reply_def)
  then have ran: "exec_command (forward_env True) (Scripting (Eval ''src'' 2 [''SELECT'', ''3''] [])) 0 ?s0 =
      Some ((Some (Bulk ''OK''), 0), ?s2)"
    by (simp add: exec_command_def script_tick_def prog [simplified] run_lua.simps call_command_def p)
  moreover have "db_ok (s_db ?s0)" using one_db_ok [of "[]"] by simp
  ultimately show ?thesis using scripts_confined [OF ran] by blast
qed

text \<open>C39: EVALSHA with the digest SCRIPT LOAD has answered is EVAL of the loaded script, and after SCRIPT FLUSH it
  is an error that changes nothing but the number of commands run.\<close>
theorem evalsha_is_eval:
  assumes sha: "sha = e_sha1 E (from_utf8_lossy src)" "utf8_valid sha"
    and load: "exec_command E (Scripting (ScriptLoad src)) i s = Some (r, s1)"
    and flush: "exec_command E (Scripting ScriptFlush) i s1 = Some (r2, s2)"
  shows "r = (Some (Bulk sha), i) \<and>
    exec_command E (Scripting (EvalSha sha n ks args)) j s1 = exec_command E (Scripting (Eval src n ks args)) j s1 \<and>
    exec_command E (Scripting (EvalSha sha n ks args)) j s2 =
      Some ((Some (FError (''ERR NOSCRIPT No matching script. Please use EVAL.'')), j), s2\<lparr>s_tick := Suc (s_tick s2)\<rparr>)"
proof -
  have s1: "r = (Some (Bulk sha), i)"
    "s1 = s\<lparr>s_cache := hm_insert sha (from_utf8_lossy src) (s_cache s), s_tick := Suc (s_tick s)\<rparr>"
    using load sha by (auto simp: exec_command_def script_tick_def load_script_def)
  have s2: "s_cache s2 = []" using flush by (auto simp: exec_command_def script_tick_def flush_scripts_def)
  show ?thesis
    using sha(2) s1 s2
    by (simp add: exec_command_def script_tick_def hm_get_insert frame_from_error_def noscript_def)
qed

theorem evalsha_is_eval_witness:
  "exec_command (forward_env True) (Scripting (EvalSha ''sha'' 1 [''k''] [])) 0
      \<lparr>s_db = one_db [], s_cache = [(''sha'', ''return 1'')], s_tick = 1\<rparr> =
   exec_command (forward_env True) (Scripting (Eval ''return 1'' 1 [''k''] [])) 0
      \<lparr>s_db = one_db [], s_cache = [(''sha'', ''return 1'')], s_tick = 1\<rparr>"
proof -
  have u: "utf8_valid ''sha''" "utf8_valid ''return 1''"
    by (rule utf8_valid_ascii, simp add: ascii_def byte_of_def)+
  have e: "e_sha1 (forward_env True) x = ''sha''" for x by (simp add: forward_env_def)
  have l: "exec_command (forward_env True) (Scripting (ScriptLoad ''return 1'')) 0
      \<lparr>s_db = one_db [], s_cache = [], s_tick = 0\<rparr> =
      Some ((Some (Bulk ''sha''), 0), \<lparr>s_db = one_db [], s_cache = [(''sha'', ''return 1'')], s_tick = 1\<rparr>)"
    by (simp add: exec_command_def script_tick_def load_script_def e u hm_insert_def)
  have f: "exec_command (forward_env True) (Scripting ScriptFlush) 0
      \<lparr>s_db = one_db [], s_cache = [(''sha'', ''return 1'')], s_tick = 1\<rparr> =
      Some ((Some frame_ok_reply, 0), \<lparr>s_db = one_db [], s_cache = [], s_tick = 2\<rparr>)"
    by (simp add: exec_command_def script_tick_def flush_scripts_def)
  show ?thesis using evalsha_is_eval [OF _ u(1) l f, of 1 "[''k'']" "[]" 0] by (simp add: e)
qed

end
