(* ===== verification/FrameStream.thy ===== *)
theory FrameStream imports Proto begin

text \<open>
  The decoder on a stream of bytes: more bytes at the end never change what has been decided, so any
  byte stream, well-formed or not, is one sequence of frames up to the first protocol error.
\<close>

subsection \<open>More bytes\<close>

text \<open>A result with bytes left, when more of them follow.\<close>

abbreviation with_more :: "string \<Rightarrow> ('a \<times> string) res \<Rightarrow> ('a \<times> string) res" where
  "with_more t \<equiv> map_res (\<lambda>(x, r). (x, r @ t))"

lemma bind_more:
  assumes "bind_res m f \<noteq> Err incomplete" "m \<noteq> Err incomplete \<Longrightarrow> m' = with_more t m"
    and "\<And>x r. m = Ok (x, r) \<Longrightarrow> f (x, r) \<noteq> Err incomplete \<Longrightarrow> g (x, r @ t) = with_more t (f (x, r))"
  shows "bind_res m' g = with_more t (bind_res m f)"
  using assms by (cases m) auto

lemma call_more:
  assumes "bind_call m f \<noteq> Some (Err incomplete)"
    and "m \<noteq> Some (Err incomplete) \<Longrightarrow> m' = map_call (\<lambda>(x, r). (x, r @ t)) m"
    and "\<And>x r. m = Some (Ok (x, r)) \<Longrightarrow> f (x, r) \<noteq> Some (Err incomplete) \<Longrightarrow>
      g (x, r @ t) = map_call (\<lambda>(x, r). (x, r @ t)) (f (x, r))"
  shows "bind_call m' g = map_call (\<lambda>(x, r). (x, r @ t)) (bind_call m f)"
  using assms by (cases "(m, f)" rule: bind_call.cases) auto

lemma map_call_incomplete [simp]: "map_call f m = Some (Err e) \<longleftrightarrow> m = Some (Err e)"
proof (cases m)
  case (Some r)
  then show ?thesis by (cases r) auto
qed simp

lemma map_call_map: "map_call f (map_call g m) = map_call (\<lambda>x. f (g x)) m"
proof (cases m)
  case (Some r)
  then show ?thesis by (cases r) auto
qed simp

lemma map_res_incomplete [simp]: "map_res f m = Err e \<longleftrightarrow> m = Err e" "Err e = map_res f m \<longleftrightarrow> m = Err e"
  by (cases m; auto)+

lemma split_crlf_more: "split_crlf s = Some (l, r) \<Longrightarrow> split_crlf (s @ t) = Some (l, r @ t)"
  by (induction s arbitrary: l rule: split_crlf.induct) (auto split: if_splits)

lemma read_line_more: "read_line s \<noteq> Err incomplete \<Longrightarrow> read_line (s @ t) = with_more t (read_line s)"
  by (auto simp: read_line_def split_crlf_more split: option.splits)

lemma read_int_more: "read_int what s \<noteq> Err incomplete \<Longrightarrow> read_int what (s @ t) = with_more t (read_int what s)"
  unfolding read_int_def by (erule bind_more) (auto simp: read_line_more split: option.splits)

lemma decode_bulk_more: "decode_bulk s \<noteq> Err incomplete \<Longrightarrow> decode_bulk (s @ t) = with_more t (decode_bulk s)"
  unfolding decode_bulk_def by (erule bind_more) (auto simp: read_int_more split: if_splits)

lemma decode_inline_more:
  "decode_inline s \<noteq> Err incomplete \<Longrightarrow> decode_inline (s @ t) = with_more t (decode_inline s)"
  unfolding decode_inline_def by (erule bind_more) (auto simp: read_line_more)

lemma decode_more:
  "decode_frame fsz stack s \<noteq> Some (Err incomplete) \<Longrightarrow>
    decode_frame fsz stack (s @ t) = map_call (\<lambda>(x, r). (x, r @ t)) (decode_frame fsz stack s)"
  "decode_frames fsz stack n s \<noteq> Some (Err incomplete) \<Longrightarrow>
    decode_frames fsz stack n (s @ t) = map_call (\<lambda>(x, r). (x, r @ t)) (decode_frames fsz stack n s)"
proof (induction fsz stack s and fsz stack n s rule: decode_frame_decode_frames.induct)
  case (3 fsz stack b s)
  consider "b = CHR ''+'' \<or> b = CHR ''-'' \<or> b = CHR '':''" | "b = CHR ''$''" | "b = CHR ''*''"
    | "b \<notin> {CHR ''+'', CHR ''-'', CHR '':'', CHR ''$'', CHR ''*''}" by auto
  then show ?case
  proof cases
    case 1
    then show ?thesis using 3(2) read_line_more [of s t] read_int_more [of "''integer''" s t]
      by (cases "read_line s"; cases "read_int ''integer'' s") auto
  next
    case 2
    then show ?thesis using 3(2) decode_bulk_more [of s t] by simp
  next
    case b: 3
    show ?thesis
      using 3(2)
    proof (simp add: b del: bind_call.simps, elim call_more, goal_cases)
      case 1
      then show ?case by (simp add: read_int_more)
    next
      case (2 cnt r)
      have "decode_frames fsz stack (as_usize cnt) (r @ t) =
          map_call (\<lambda>(x, r). (x, r @ t)) (decode_frames fsz stack (as_usize cnt) r)"
        if "cnt \<noteq> - 1" "\<not> cnt < 0" "capacity_ok fsz (as_usize cnt)"
        using 3(1) [OF _ _ _ _ b, of "(cnt, r)" cnt r] 2 that b by simp
      then show ?case by (simp add: map_call_map case_prod_beta)
    qed
  next
    case 4
    then show ?thesis using 3(2) decode_inline_more [of "b # s" t] by simp
  qed
next
  case (5 fsz stack n s)
  show ?case
    using 5(3)
  proof (simp, elim call_more, goal_cases)
    case 1
    then show ?case by (simp add: 5(1))
  next
    case (2 f r)
    then show ?case using 5(2) [OF _ refl, of f r] by (simp add: map_call_map case_prod_beta)
  qed
qed simp_all

lemma parse_frame_more:
  "parse_frame fsz stack a = Some (Ok (Some f), r) \<Longrightarrow> parse_frame fsz stack (a @ t) = Some (Ok (Some f), r @ t)"
  "parse_frame fsz stack a = Some (Err e, a) \<Longrightarrow> parse_frame fsz stack (a @ t) = Some (Err e, a @ t)"
  "parse_frame fsz stack a = Some (Panic, a) \<Longrightarrow> parse_frame fsz stack (a @ t) = Some (Panic, a @ t)"
  "parse_frame fsz stack a = None \<Longrightarrow> parse_frame fsz stack (a @ t) = None"
  using decode_more(1) [of fsz stack a t] by (auto simp: parse_frame_def split: res.splits option.splits if_splits)

lemma parse_frame_keeps: "parse_frame fsz stack a = Some (r, b) \<Longrightarrow> (\<And>f. r \<noteq> Ok (Some f)) \<Longrightarrow> b = a"
  by (auto simp: parse_frame_def split: res.splits option.splits if_splits)

lemma parse_frame_shrinks:
  "parse_frame fsz stack buf = Some (Ok (Some f), b) \<Longrightarrow> length b < length buf"
  by (auto simp: parse_frame_def decode_progress split: if_splits res.splits option.splits)

subsection \<open>A byte stream as frames\<close>

text \<open>The frames at the front of some bytes, why there are no more, and the bytes left.\<close>

datatype chop_end = Needs_more | Bad_frame redis_error | Panics | Overflows

function chop_frames :: "nat \<Rightarrow> nat \<Rightarrow> string \<Rightarrow> frame list \<times> chop_end \<times> string" where
  "chop_frames fsz stack buf =
     (case parse_frame fsz stack buf of
        Some (Ok (Some f), b) \<Rightarrow> (case chop_frames fsz stack b of (fs, e, r) \<Rightarrow> (f # fs, e, r))
      | Some (Ok None, b) \<Rightarrow> ([], Needs_more, b)
      | Some (Err e, b) \<Rightarrow> ([], Bad_frame e, b)
      | Some (Panic, b) \<Rightarrow> ([], Panics, b)
      | None \<Rightarrow> ([], Overflows, buf))"
  by pat_completeness auto
termination
  by (relation "measure (\<lambda>(fsz, stack, buf). length buf)") (auto dest: parse_frame_shrinks)

declare chop_frames.simps [simp del]

lemma chop_frames_simps:
  "parse_frame fsz stack buf = Some (Ok (Some f), b) \<Longrightarrow> chop_frames fsz stack b = (fs, e, r) \<Longrightarrow>
     chop_frames fsz stack buf = (f # fs, e, r)"
  "parse_frame fsz stack buf = Some (Ok None, b) \<Longrightarrow> chop_frames fsz stack buf = ([], Needs_more, b)"
  "parse_frame fsz stack buf = Some (Err x, b) \<Longrightarrow> chop_frames fsz stack buf = ([], Bad_frame x, b)"
  "parse_frame fsz stack buf = Some (Panic, b) \<Longrightarrow> chop_frames fsz stack buf = ([], Panics, b)"
  "parse_frame fsz stack buf = None \<Longrightarrow> chop_frames fsz stack buf = ([], Overflows, buf)"
  by (simp_all add: chop_frames.simps [of fsz stack buf])

text \<open>One frame at the front, or none.\<close>

lemma chop_cases:
  obtains (frame) f b gs e r where "parse_frame fsz stack a = Some (Ok (Some f), b)"
      "chop_frames fsz stack b = (gs, e, r)" "chop_frames fsz stack a = (f # gs, e, r)"
    | (more) "parse_frame fsz stack a = Some (Ok None, a)" "chop_frames fsz stack a = ([], Needs_more, a)"
    | (bad) x where "parse_frame fsz stack a = Some (Err x, a)" "chop_frames fsz stack a = ([], Bad_frame x, a)"
    | (panics) "parse_frame fsz stack a = Some (Panic, a)" "chop_frames fsz stack a = ([], Panics, a)"
    | (overflows) "parse_frame fsz stack a = None" "chop_frames fsz stack a = ([], Overflows, a)"
proof (cases "parse_frame fsz stack a")
  case None
  then show thesis using overflows chop_frames_simps(5) by blast
next
  case (Some p)
  obtain x b where p: "parse_frame fsz stack a = Some (x, b)" using Some by (cases p) auto
  show thesis
  proof (cases "\<exists>f. x = Ok (Some f)")
    case True
    then obtain f where "parse_frame fsz stack a = Some (Ok (Some f), b)" using p by auto
    then show thesis using frame chop_frames_simps(1) by (cases "chop_frames fsz stack b") blast
  next
    case False
    then have p: "parse_frame fsz stack a = Some (x, a)" using p parse_frame_keeps [OF p] by blast
    show thesis
    proof (cases x)
      case (Ok y)
      then have "parse_frame fsz stack a = Some (Ok None, a)" using p False by (cases y) auto
      then show thesis using more chop_frames_simps(2) by blast
    qed (use p bad panics chop_frames_simps(3,4) in blast)+
  qed
qed

text \<open>Bytes that arrive later only add frames; after a bad frame or an overrun they change nothing.\<close>

lemma chop_frames_more:
  "chop_frames fsz stack a = (fs, e, r) \<Longrightarrow>
   chop_frames fsz stack (a @ t) =
     (if e = Needs_more then (case chop_frames fsz stack (r @ t) of (gs, e', r') \<Rightarrow> (fs @ gs, e', r')) else (fs, e, r @ t))"
proof (induction "length a" arbitrary: a fs rule: less_induct)
  case less
  show ?case
  proof (cases rule: chop_cases [of fsz stack a])
    case (frame f b gs e' r')
    then have fs: "fs = f # gs" "e' = e" "r' = r" using less(2) by simp_all
    have IH: "chop_frames fsz stack (b @ t) =
        (if e = Needs_more then (case chop_frames fsz stack (r @ t) of (hs, e', r') \<Rightarrow> (gs @ hs, e', r')) else (gs, e, r @ t))"
      using less(1) [OF parse_frame_shrinks [OF frame(1)]] frame(2) fs by simp
    obtain hs e2 r2 where c: "chop_frames fsz stack (b @ t) = (hs, e2, r2)" by (cases "chop_frames fsz stack (b @ t)")
    show ?thesis
      using chop_frames_simps(1) [OF parse_frame_more(1) [OF frame(1)] c] IH c fs by (auto split: prod.splits if_splits)
  next
    case more
    then show ?thesis using less(2) by (auto split: prod.splits)
  next
    case (bad x)
    then show ?thesis using less(2) chop_frames_simps(3) [OF parse_frame_more(2) [OF bad(1)]] by auto
  next
    case panics
    then show ?thesis using less(2) chop_frames_simps(4) [OF parse_frame_more(3) [OF panics(1)]] by auto
  next
    case overflows
    then show ?thesis using less(2) chop_frames_simps(5) [OF parse_frame_more(4) [OF overflows(1)]] by auto
  qed
qed

lemma chop_frames_rest:
  "chop_frames fsz stack a = (fs, Needs_more, r) \<Longrightarrow> chop_frames fsz stack r = ([], Needs_more, r)"
proof (induction "length a" arbitrary: a fs rule: less_induct)
  case less
  show ?case
  proof (cases rule: chop_cases [of fsz stack a])
    case (frame f b gs e' r')
    then show ?thesis using less parse_frame_shrinks by fastforce
  qed (use less(2) in auto)
qed

text \<open>Frames written one behind the other are read as these frames.\<close>

lemma chop_encoded:
  "\<forall>f\<in>set fs. frame_ok fsz f \<and> depth f \<le> stack \<Longrightarrow>
   chop_frames fsz stack (concat (map encode fs) @ r) = (case chop_frames fsz stack r of (gs, e, b) \<Rightarrow> (fs @ gs, e, b))"
proof (induction fs)
  case (Cons f fs)
  then have "parse_frame fsz stack (encode f @ concat (map encode fs) @ r) = Some (Ok (Some f), concat (map encode fs) @ r)"
    by (simp add: parse_frame_def decode_encode)
  then show ?case using Cons chop_frames_simps(1) by (auto split: prod.splits)
qed (simp split: prod.splits)

lemma chop_nothing [simp]: "chop_frames fsz stack [] = ([], Needs_more, [])"
  by (simp add: chop_frames.simps [of fsz stack "[]"] parse_frame_def)

subsection \<open>The stack\<close>

text \<open>
  A client overflows any stack with four bytes for each call it has room for: arrays of one array.  The
  process is aborted before the innermost array is seen.
\<close>

definition nested :: "nat \<Rightarrow> string" where
  "nested n = concat (replicate n (''*1'' @ crlf))"

lemma nested_overflows:
  assumes "capacity_ok fsz 1" "0 < stack"
  shows "parse_frame fsz stack (nested stack @ r) = None"
proof -
  have one: "read_int ''array length'' (''1'' @ crlf @ r) = Ok (1, r)" for r
  proof -
    have "''1'' = show_int 1" by code_simp
    then show ?thesis using read_int_show [of 1 "''array length''" r] by (simp add: in_i64_def i64_min_def i64_max_def)
  qed
  have "decode_frame fsz n (nested n @ r) = None" for n
  proof (induction n)
    case (Suc n)
    have "nested (Suc n) @ r = CHR ''*'' # ''1'' @ crlf @ nested n @ r" by (simp add: nested_def)
    moreover have "as_usize 1 = Suc 0" by (simp add: as_usize_def)
    ultimately show ?case using Suc one [of "nested n @ r"] assms(1) by (simp add: bind_call_iff map_call_iff)
  qed simp
  moreover have "nested stack @ r \<noteq> []" using assms(2) by (cases stack) (simp_all add: nested_def)
  ultimately show ?thesis by (simp add: parse_frame_def)
qed

end
