(* ===== verification/Server.thy ===== *)
theory Server imports Script FrameStream begin

text \<open>
  The connection loop of \<open>src/server/handler.rs\<close> and the tasks of \<open>src/server/mod.rs\<close>.  One turn of
  the inner loop takes one frame from the buffer and runs without interruption; at every \<open>await\<close> (a
  read, or the write of a reply) other connections and the eviction task may run.  \<open>fsz\<close> and \<open>stack\<close>
  are the limits of the decoder (theory \<open>Proto\<close>).  Sockets are the bytes they carry.
\<close>

subsection \<open>One turn of the loop\<close>

record conn =
  c_buf :: string
  c_index :: nat

definition new_conn :: conn where
  "new_conn = \<lparr>c_buf = [], c_index = 0\<rparr>"

text \<open>What a turn does to the loop: wait for more bytes, go on after writing replies, end the connection,
  unwind the task, or abort the process.\<close>

datatype turn = Wait | Go "frame list" | Close "frame list" | Crash | Abort

definition handle_frame :: "env \<Rightarrow> frame \<Rightarrow> nat \<Rightarrow> server \<Rightarrow> (turn \<times> nat \<times> server) option" where
  "handle_frame E f i s =
     (case frame_to_cmd_args f of
        Panic \<Rightarrow> Some (Crash, i, s)
      | Err e \<Rightarrow> Some (Go [FError (err_to_string e)], i, s)
      | Ok args \<Rightarrow>
          if args = [] then Some (Go [], i, s)
          else case parse_now E s args of
            Panic \<Rightarrow> Some (Crash, i, s)
          | Err e \<Rightarrow> Some (Go [frame_from_error e], i, s)
          | Ok c \<Rightarrow>
              if c = Server Quit then Some (Close [frame_ok_reply], i, s)
              else map_option (\<lambda>((r, j), s1). (case r of None \<Rightarrow> Crash | Some g \<Rightarrow> Go [g], j, s1))
                     (exec_command E c i s))"

definition conn_turn :: "env \<Rightarrow> nat \<Rightarrow> nat \<Rightarrow> conn \<Rightarrow> server \<Rightarrow> (turn \<times> conn \<times> server) option" where
  "conn_turn E fsz stack k s =
     (case parse_frame fsz stack (c_buf k) of
        Some (Ok (Some f), b) \<Rightarrow>
          map_option (\<lambda>(t, j, s1). (t, \<lparr>c_buf = b, c_index = j\<rparr>, s1)) (handle_frame E f (c_index k) s)
      | Some (Ok None, b) \<Rightarrow> Some (Wait, k\<lparr>c_buf := b\<rparr>, s)
      | Some (Err e, b) \<Rightarrow> Some (Go [FError (err_to_string e)], k\<lparr>c_buf := []\<rparr>, s)
      | Some (Panic, b) \<Rightarrow> Some (Crash, k\<lparr>c_buf := b\<rparr>, s)
      | None \<Rightarrow> Some (Abort, k, s))"

lemma handle_not_wait: "handle_frame E f i s \<noteq> Some (Wait, j, s1)" "handle_frame E f i s \<noteq> Some (Abort, j, s1)"
  by (auto simp: handle_frame_def split: res.splits if_splits option.splits prod.splits)

lemma conn_turn_shrinks:
  assumes "conn_turn E fsz stack k s = Some (Go out, k1, s1)"
  shows "length (c_buf k1) < length (c_buf k)"
proof (cases rule: chop_cases [of fsz stack "c_buf k"])
  case (bad e)
  then have "c_buf k \<noteq> []" by (auto simp: parse_frame_def)
  then show ?thesis using assms bad by (auto simp: conn_turn_def)
qed (use assms in \<open>auto simp: conn_turn_def dest: parse_frame_shrinks\<close>)

subsection \<open>The loop\<close>

datatype status = Open | Closed | Crashed | Aborted

text \<open>Replies written before a run, and the run.\<close>

definition after :: "frame list \<Rightarrow> (frame list \<times> 'a) option \<Rightarrow> (frame list \<times> 'a) option" where
  "after out r = (case r of None \<Rightarrow> None | Some (out', x) \<Rightarrow> Some (out @ out', x))"

lemma after_simps [simp]:
  "after out None = None" "after out (Some (out', x)) = Some (out @ out', x)" "after [] r = r"
  "after out (after out' r) = after (out @ out') r"
  by (auto simp: after_def split: option.splits)

lemma after_Some: "after out r = Some (o', x) \<longleftrightarrow> (\<exists>o1. r = Some (o1, x) \<and> o' = out @ o1)"
  by (auto simp: after_def split: option.splits)

text \<open>The inner loop, on the bytes that have arrived: the replies, and how it ends.\<close>

function drain :: "env \<Rightarrow> nat \<Rightarrow> nat \<Rightarrow> conn \<Rightarrow> server \<Rightarrow> (frame list \<times> status \<times> conn \<times> server) option" where
  "drain E fsz stack k s =
     (case conn_turn E fsz stack k s of
        None \<Rightarrow> None
      | Some (Wait, k1, s1) \<Rightarrow> Some ([], Open, k1, s1)
      | Some (Go out, k1, s1) \<Rightarrow>
          after out (drain E fsz stack k1 s1)
      | Some (Close out, k1, s1) \<Rightarrow> Some (out, Closed, k1, s1)
      | Some (Crash, k1, s1) \<Rightarrow> Some ([], Crashed, k1, s1)
      | Some (Abort, k1, s1) \<Rightarrow> Some ([], Aborted, k1, s1))"
  by pat_completeness auto
termination
  by (relation "measure (\<lambda>(E, fsz, stack, k, s). length (c_buf k))") (auto dest: conn_turn_shrinks)

declare drain.simps [simp del]

text \<open>The outer loop, on the reads of the socket; a read of no bytes is the end of the stream.\<close>

fun receive :: "env \<Rightarrow> nat \<Rightarrow> nat \<Rightarrow> string list \<Rightarrow> conn \<Rightarrow> server \<Rightarrow> (frame list \<times> status \<times> conn \<times> server) option" where
  "receive E fsz stack [] k s = Some ([], Open, k, s)"
| "receive E fsz stack (c # cs) k s =
     (if c = [] then Some ([], Closed, k, s)
      else case drain E fsz stack (k\<lparr>c_buf := c_buf k @ c\<rparr>) s of
             None \<Rightarrow> None
           | Some (out, Open, k1, s1) \<Rightarrow>
               after out (receive E fsz stack cs k1 s1)
           | Some (out, st, k1, s1) \<Rightarrow> Some (out, st, k1, s1))"

subsection \<open>Frames one after the other\<close>

text \<open>
  The specification: the frames of a connection, run in their order; and what the end of the bytes adds,
  the reply to a bad frame or the panic of the decoder.
\<close>

fun run_frames :: "env \<Rightarrow> frame list \<Rightarrow> nat \<Rightarrow> server \<Rightarrow> (frame list \<times> status \<times> nat \<times> server) option" where
  "run_frames E [] i s = Some ([], Open, i, s)"
| "run_frames E (f # fs) i s =
     (case handle_frame E f i s of
        None \<Rightarrow> None
      | Some (Wait, j, s1) \<Rightarrow> Some ([], Open, j, s1)
      | Some (Go out, j, s1) \<Rightarrow> after out (run_frames E fs j s1)
      | Some (Close out, j, s1) \<Rightarrow> Some (out, Closed, j, s1)
      | Some (Crash, j, s1) \<Rightarrow> Some ([], Crashed, j, s1)
      | Some (Abort, j, s1) \<Rightarrow> Some ([], Aborted, j, s1))"

fun run_end :: "chop_end \<Rightarrow> frame list \<times> status" where
  "run_end Needs_more = ([], Open)"
| "run_end (Bad_frame e) = ([FError (err_to_string e)], Open)"
| "run_end Panics = ([], Crashed)"
| "run_end Overflows = ([], Aborted)"

definition run_stream :: "env \<Rightarrow> frame list \<Rightarrow> chop_end \<Rightarrow> nat \<Rightarrow> server \<Rightarrow> (frame list \<times> status \<times> nat \<times> server) option" where
  "run_stream E fs e i s =
     (case run_frames E fs i s of
        Some (out, Open, j, s1) \<Rightarrow> Some (out @ fst (run_end e), snd (run_end e), j, s1)
      | r \<Rightarrow> r)"

abbreviation no_buf :: "(frame list \<times> status \<times> conn \<times> server) option \<Rightarrow> (frame list \<times> status \<times> nat \<times> server) option" where
  "no_buf \<equiv> map_option (\<lambda>(out, st, k, s'). (out, st, c_index k, s'))"

lemma run_stream_Nil [simp]: "run_stream E [] e i s = Some (fst (run_end e), snd (run_end e), i, s)"
  by (simp add: run_stream_def)

lemma run_stream_Cons:
  "run_stream E (f # fs) e i s =
     (case handle_frame E f i s of
        None \<Rightarrow> None
      | Some (Wait, j, s1) \<Rightarrow> None
      | Some (Go out, j, s1) \<Rightarrow> after out (run_stream E fs e j s1)
      | Some (Close out, j, s1) \<Rightarrow> Some (out, Closed, j, s1)
      | Some (Crash, j, s1) \<Rightarrow> Some ([], Crashed, j, s1)
      | Some (Abort, j, s1) \<Rightarrow> Some ([], Aborted, j, s1))"
  by (auto simp: run_stream_def after_def handle_not_wait split: option.splits turn.splits status.splits)

lemma run_stream_append:
  "run_stream E (fs @ gs) e i s =
     (case run_frames E fs i s of
        Some (out, Open, j, s1) \<Rightarrow> after out (run_stream E gs e j s1)
      | r \<Rightarrow> r)"
proof (induction fs arbitrary: i s)
  case (Cons f fs)
  then show ?case
    by (cases "handle_frame E f i s")
       (auto simp: run_stream_Cons handle_not_wait after_def split: option.splits turn.splits status.splits)
qed (auto split: option.splits)

lemma no_buf_after [simp]: "no_buf (after out r) = after out (no_buf r)"
  by (auto simp: after_def split: option.splits)

text \<open>The inner loop on any bytes, whatever they hold.\<close>

lemma drain_frames:
  assumes "chop_frames fsz stack b = (fs, e, r)"
  shows "no_buf (drain E fsz stack \<lparr>c_buf = b, c_index = i\<rparr> s) = run_stream E fs e i s"
    and "drain E fsz stack \<lparr>c_buf = b, c_index = i\<rparr> s = Some (out, Open, k1, s1) \<Longrightarrow> e = Needs_more \<Longrightarrow> c_buf k1 = r"
proof -
  let ?k = "\<lambda>b i. \<lparr>c_buf = b, c_index = i\<rparr>"
  have "no_buf (drain E fsz stack (?k b i) s) = run_stream E fs e i s \<and>
    (\<forall>out k1 s1. drain E fsz stack (?k b i) s = Some (out, Open, k1, s1) \<longrightarrow> e = Needs_more \<longrightarrow> c_buf k1 = r)"
    using assms
  proof (induction "length b" arbitrary: b fs i s rule: less_induct)
    case less
    have d: "drain E fsz stack (?k [] j) t = Some ([], Open, ?k [] j, t)" for j t
      by (subst drain.simps) (simp add: conn_turn_def parse_frame_def)
    show ?case
    proof (cases rule: chop_cases [of fsz stack b])
      case (frame f b1 gs e' r')
      then have fs: "fs = f # gs" "e = e'" "r = r'" using less(2) by simp_all
      note IH = less(1) [OF parse_frame_shrinks [OF frame(1)] frame(2) [folded fs(2,3)]]
      show ?thesis
      proof (cases "handle_frame E f i s")
        case None
        then show ?thesis using frame(1) fs
          by (subst (1 2) drain.simps) (simp add: conn_turn_def run_stream_Cons)
      next
        case (Some y)
        obtain q j s1 where y: "y = (q, j, s1)" by (cases y)
        show ?thesis using IH [of j s1] frame(1) fs Some y handle_not_wait
          by (subst (1 2) drain.simps) (cases q; fastforce simp: conn_turn_def run_stream_Cons after_Some)
      qed
    next
      case (bad x)
      then show ?thesis using less(2) d by (subst (1 2) drain.simps) (auto simp: conn_turn_def)
    qed (use less(2) in \<open>auto simp: conn_turn_def drain.simps [of E fsz stack "?k b i" s]\<close>)
  qed
  then show "no_buf (drain E fsz stack (?k b i) s) = run_stream E fs e i s"
    and "drain E fsz stack (?k b i) s = Some (out, Open, k1, s1) \<Longrightarrow> e = Needs_more \<Longrightarrow> c_buf k1 = r"
    by blast+
qed

text \<open>All reads of a connection, up to a bad frame.\<close>

lemma receive_frames:
  assumes "chop_frames fsz stack b = ([], Needs_more, b)" "chop_frames fsz stack (b @ concat cs) = (fs, e, r)"
    "[] \<notin> set cs" "\<And>x. e \<noteq> Bad_frame x"
  shows "no_buf (receive E fsz stack cs \<lparr>c_buf = b, c_index = i\<rparr> s) = run_stream E fs e i s"
  using assms(1-3)
proof (induction cs arbitrary: b fs i s)
  case (Cons c cs)
  obtain fs1 e1 r1 where c1: "chop_frames fsz stack (b @ c) = (fs1, e1, r1)" by (cases "chop_frames fsz stack (b @ c)")
  obtain gs e' r' where c2: "chop_frames fsz stack (r1 @ concat cs) = (gs, e', r')"
    by (cases "chop_frames fsz stack (r1 @ concat cs)")
  have all: "(fs, e, r) = (if e1 = Needs_more then (fs1 @ gs, e', r') else (fs1, e1, r1 @ concat cs))"
    using chop_frames_more [OF c1, of "concat cs"] c2 Cons.prems(2) by (simp split: if_splits)
  note drain = drain_frames(1) [OF c1, of E i s]
  have c: "c \<noteq> []" "[] \<notin> set cs" using Cons.prems(3) by auto
  show ?case
  proof (cases "e1 = Needs_more")
    case True
    have rest: "chop_frames fsz stack r1 = ([], Needs_more, r1)" using chop_frames_rest c1 True by simp
    have IH: "no_buf (receive E fsz stack cs \<lparr>c_buf = r1, c_index = j\<rparr> s1) = run_stream E gs e j s1" for j s1
      using Cons.IH [OF rest _ c(2)] c2 all True by simp
    show ?thesis
    proof (cases "drain E fsz stack \<lparr>c_buf = b @ c, c_index = i\<rparr> s")
      case None
      then show ?thesis using drain c all True
        by (auto simp: run_stream_append run_stream_def [of E fs1] split: option.splits status.splits)
    next
      case (Some y)
      obtain out st k1 s1 where y: "y = (out, st, k1, s1)" by (cases y)
      have k1: "k1 = \<lparr>c_buf = r1, c_index = c_index k1\<rparr>" if "st = Open"
        using drain_frames(2) [OF c1 _ True] Some y that by (metis conn.surjective old.unit.exhaust)
      show ?thesis
      proof (cases "st = Open")
        case True
        then show ?thesis using drain c all \<open>e1 = Needs_more\<close> Some y IH [of "c_index k1" s1] k1
          by (auto simp: run_stream_append run_stream_def [of E fs1] split: option.splits status.splits)
      next
        case False
        then show ?thesis using drain c all \<open>e1 = Needs_more\<close> Some y
          by (cases st) (auto simp: run_stream_append run_stream_def [of E fs1] split: option.splits status.splits)
      qed
    qed
  next
    case False
    then have "e1 = Panics \<or> e1 = Overflows" using all assms(4) by (cases e1) auto
    then show ?thesis using drain c all
      by (auto simp: run_stream_def split: option.splits status.splits)
  qed
qed simp

text \<open>C7: However the network cuts the bytes of a connection into reads, and whatever the bytes are (requests,
  inline commands, frames that are no command, headers no vector can hold, nesting too deep for the
  stack), the replies, the end of the connection or of the process, the database, the script cache and the selected logical database are those of the
  frames the whole of the bytes holds, run one after the other.  Only a bad frame must be in one read
  with all the others: it is answered with its error, and what the read holds behind it is dropped.\<close>
theorem stream_is_frames:
  assumes "[] \<notin> set chunks" "chop_frames fsz stack (concat chunks) = (fs, e, rest)"
    and "\<And>x. e = Bad_frame x \<Longrightarrow> length chunks = 1"
  shows "map_option (\<lambda>(out, st, k, s'). (out, st, c_index k, s')) (receive E fsz stack chunks \<lparr>c_buf = [], c_index = i\<rparr> s) =
    run_stream E fs e i s"
proof (cases "\<exists>x. e = Bad_frame x")
  case False
  then show ?thesis using receive_frames [OF chop_nothing, of fsz stack chunks fs e rest E i s] assms by simp
next
  case True
  then obtain c where "chunks = [c]" using assms(3) by (auto simp: length_Suc_conv)
  then show ?thesis using drain_frames(1) [of fsz stack c fs e rest E i s] assms(1,2)
    by (auto simp: after_def split: option.splits status.splits)
qed

theorem stream_is_frames_witness:
  "map_option (\<lambda>(out, st, k, s'). (out, st, c_index k, s'))
     (receive (forward_env True) 40 2 [''+a'', crlf @ '':7'' @ crlf @ ''PI''] \<lparr>c_buf = [], c_index = 0\<rparr>
       \<lparr>s_db = one_db [], s_cache = [], s_tick = 0\<rparr>) =
   Some (replicate 2 (FError ''ERR Protocol error: expected array frame''), Open, 0,
     \<lparr>s_db = one_db [], s_cache = [], s_tick = 0\<rparr>)"
proof -
  let ?cs = "[''+a'', crlf @ '':7'' @ crlf @ ''PI'']" and ?s = "\<lparr>s_db = one_db [], s_cache = [], s_tick = 0\<rparr>"
  have ok: "\<forall>f\<in>set [Simple ''a'', Integer 7]. frame_ok 40 f \<and> depth f \<le> 2"
    by (simp add: utf8_valid_ascii ascii_def byte_of_def in_i64_def i64_min_def i64_max_def)
  have seven: "show_int 7 = ''7''" by code_simp
  have "CHR ''P'' \<noteq> CR" by code_simp
  then have "chop_frames 40 2 ''PI'' = ([], Needs_more, ''PI'')"
    by (subst chop_frames.simps) (simp add: parse_frame_def numeral_2_eq_2 decode_inline_def read_line_def)
  with chop_encoded [OF ok, of "''PI''"]
  have c: "chop_frames 40 2 (concat ?cs) = ([Simple ''a'', Integer 7], Needs_more, ''PI'')" by (simp add: seven)
  have "[] \<notin> set ?cs" by (simp add: crlf_def)
  from stream_is_frames [OF this c, of "forward_env True" 0 ?s]
  show ?thesis by (simp add: run_stream_Cons handle_frame_def frame_to_cmd_args_def numeral_2_eq_2)
qed

subsection \<open>Requests one after the other\<close>

definition request_frame :: "string list \<Rightarrow> frame" where
  "request_frame args = Array (map Bulk args)"

definition run_requests :: "env \<Rightarrow> string list list \<Rightarrow> nat \<Rightarrow> server \<Rightarrow> (frame list \<times> status \<times> nat \<times> server) option" where
  "run_requests E rs = run_frames E (map request_frame rs)"

lemma run_requests_simps [simp]:
  "run_requests E [] i s = Some ([], Open, i, s)"
  "run_requests E (r # rs) i s =
     (case handle_frame E (request_frame r) i s of
        None \<Rightarrow> None
      | Some (Wait, j, s1) \<Rightarrow> Some ([], Open, j, s1)
      | Some (Go out, j, s1) \<Rightarrow> after out (run_requests E rs j s1)
      | Some (Close out, j, s1) \<Rightarrow> Some (out, Closed, j, s1)
      | Some (Crash, j, s1) \<Rightarrow> Some ([], Crashed, j, s1)
      | Some (Abort, j, s1) \<Rightarrow> Some ([], Aborted, j, s1))"
  unfolding run_requests_def by simp_all

text \<open>Requests a client can send: some arguments, within the limits of the decoder.\<close>

definition sendable :: "nat \<Rightarrow> string list \<Rightarrow> bool" where
  "sendable fsz r \<longleftrightarrow> r \<noteq> [] \<and> frame_ok fsz (request_frame r)"

definition wire :: "string list list \<Rightarrow> string" where
  "wire rs = concat (map (\<lambda>r. encode (request_frame r)) rs)"

lemma request_depth: "depth (request_frame r) \<le> 2"
  by (induction r) (auto simp: request_frame_def)

text \<open>Bytes that hold no whole request yet.\<close>

fun partial_request :: "string \<Rightarrow> string list list \<Rightarrow> bool" where
  "partial_request b [] \<longleftrightarrow> b = []"
| "partial_request b (r # rs) \<longleftrightarrow> (\<exists>n < length (encode (request_frame r)). b = take n (encode (request_frame r)))"

lemma split_wire:
  "b @ rest = wire rs \<Longrightarrow>
   \<exists>whole todo b'. rs = whole @ todo \<and> b = wire whole @ b' \<and> b' @ rest = wire todo \<and> partial_request b' todo"
proof (induction rs arbitrary: b)
  case Nil
  then show ?case by (auto simp: wire_def)
next
  case (Cons r rs)
  let ?e = "encode (request_frame r)"
  show ?case
  proof (cases "length b < length ?e")
    case True
    then have "b = take (length b) ?e" using Cons.prems by (auto simp: wire_def append_eq_append_conv_if)
    then have "partial_request b (r # rs)" using True by auto
    then show ?thesis using Cons.prems by (intro exI [of _ "[]"] exI [of _ "r # rs"] exI [of _ b]) (simp add: wire_def)
  next
    case False
    define b1 where "b1 = drop (length ?e) b"
    have all: "b @ rest = ?e @ wire rs" using Cons.prems by (simp add: wire_def)
    from arg_cong [OF all, of "take (length ?e)"] have "take (length ?e) b = ?e" using False by simp
    then have b: "b = ?e @ b1" by (metis b1_def append_take_drop_id)
    with all have b': "b1 @ rest = wire rs" by simp
    obtain whole todo b' where "rs = whole @ todo" "b1 = wire whole @ b'" "b' @ rest = wire todo" "partial_request b' todo"
      using Cons.IH [OF b'] by blast
    then show ?thesis using b by (intro exI [of _ "r # whole"] exI [of _ todo] exI [of _ b']) (simp add: wire_def)
  qed
qed

text \<open>A turn on a buffer that holds no whole request waits; one on a whole request takes just this request.\<close>

lemma turn_partial:
  assumes "partial_request b todo" "\<forall>r\<in>set todo. sendable fsz r" "2 \<le> stack"
  shows "conn_turn E fsz stack \<lparr>c_buf = b, c_index = i\<rparr> s = Some (Wait, \<lparr>c_buf = b, c_index = i\<rparr>, s)"
proof -
  have "parse_frame fsz stack b = Some (Ok None, b)"
  proof (cases todo)
    case (Cons r rs)
    then obtain n where n: "n < length (encode (request_frame r))" "b = take n (encode (request_frame r))"
      using assms(1) by auto
    moreover have "frame_ok fsz (request_frame r)" "depth (request_frame r) \<le> stack"
      using assms(2,3) Cons request_depth [of r] by (auto simp: sendable_def intro: order_trans)
    ultimately show ?thesis by (simp add: parse_frame_def decode_cut)
  qed (use assms(1) in \<open>simp add: parse_frame_def\<close>)
  then show ?thesis by (simp add: conn_turn_def)
qed

lemma parse_request_frame:
  assumes "sendable fsz r" "2 \<le> stack"
  shows "parse_frame fsz stack (wire (r # rs) @ b) = Some (Ok (Some (request_frame r)), wire rs @ b)"
proof -
  have ok: "frame_ok fsz (request_frame r)" "depth (request_frame r) \<le> stack"
    using assms request_depth [of r] by (auto simp: sendable_def)
  show ?thesis using decode_encode [OF ok, of "wire rs @ b"] by (simp add: parse_frame_def wire_def)
qed

lemma turn_request:
  assumes "sendable fsz r" "2 \<le> stack"
  shows "conn_turn E fsz stack \<lparr>c_buf = wire (r # rs) @ b, c_index = i\<rparr> s =
    map_option (\<lambda>(t, j, s1). (t, \<lparr>c_buf = wire rs @ b, c_index = j\<rparr>, s1)) (handle_frame E (request_frame r) i s)"
  using parse_request_frame [OF assms] by (simp add: conn_turn_def)

text \<open>The bytes of a connection, in whatever pieces they are read, are its requests.\<close>

lemma receive_requests:
  assumes "\<forall>r\<in>set rs. sendable fsz r" "2 \<le> stack" "[] \<notin> set chunks" "concat chunks = wire rs"
  shows "no_buf (receive E fsz stack chunks \<lparr>c_buf = [], c_index = i\<rparr> s) = run_requests E rs i s"
proof -
  have "\<forall>f\<in>set (map request_frame rs). frame_ok fsz f \<and> depth f \<le> stack"
    using assms(1,2) request_depth by (auto simp: sendable_def intro: order_trans)
  from chop_encoded [OF this, of "[]"] have "chop_frames fsz stack ([] @ concat chunks) = (map request_frame rs, Needs_more, [])"
    using assms(4) by (simp add: wire_def comp_def)
  from receive_frames [OF chop_nothing this assms(3)] show ?thesis
    by (auto simp: run_stream_def run_requests_def split: option.splits status.splits)
qed

lemma sample_requests: "sendable 40 [''QUIT'']" "sendable 40 [''PING'', ''a'']"
  by (simp_all add: sendable_def request_frame_def in_i64_def i64_min_def i64_max_def capacity_ok_def isize_max_def)

text \<open>C6: However the network cuts the bytes of a connection's requests into reads, the replies, the order they
  are written in, how the connection ends, the database, the script cache and the selected logical
  database are those of running the requests one after the other; nothing is lost, doubled or
  reordered at a cut.\<close>
theorem stream_is_requests:
  assumes "\<forall>r\<in>set rs. sendable fsz r" "2 \<le> stack" "[] \<notin> set chunks" "concat chunks = wire rs"
  shows "map_option (\<lambda>(out, st, k, s'). (out, st, c_index k, s')) (receive E fsz stack chunks \<lparr>c_buf = [], c_index = i\<rparr> s) =
    run_requests E rs i s"
  using assms by (rule receive_requests)

theorem stream_is_requests_witness:
  "map_option (\<lambda>(out, st, k, s'). (out, st, c_index k, s'))
     (receive (forward_env True) 40 2
       [take 5 (wire [[''PING'', ''a''], [''QUIT'']]), drop 5 (wire [[''PING'', ''a''], [''QUIT'']])] \<lparr>c_buf = [], c_index = 0\<rparr>
       \<lparr>s_db = one_db [], s_cache = [], s_tick = 0\<rparr>) =
   Some ([Bulk ''a'', Simple ''OK''], Closed, 0, \<lparr>s_db = one_db [], s_cache = [], s_tick = 1\<rparr>)"
proof -
  let ?rs = "[[''PING'', ''a''], [''QUIT'']]" and ?s = "\<lparr>s_db = one_db [], s_cache = [], s_tick = 0\<rparr>"
  have l: "5 < length (wire ?rs)" by (simp add: wire_def request_frame_def)
  have "map_option (\<lambda>(out, st, k, s'). (out, st, c_index k, s'))
     (receive (forward_env True) 40 2 [take 5 (wire ?rs), drop 5 (wire ?rs)] \<lparr>c_buf = [], c_index = 0\<rparr> ?s) =
     run_requests (forward_env True) ?rs 0 ?s"
    using l by (intro stream_is_requests) (auto simp: sample_requests)
  also have "\<dots> = Some ([Bulk ''a'', Simple ''OK''], Closed, 0, \<lparr>s_db = one_db [], s_cache = [], s_tick = 1\<rparr>)"
    by (simp add: handle_frame_def request_frame_def frame_to_cmd_args_def parse_now_def server_dispatch
        parse_ping_def exec_command_def plain_command_def execute_def frame_ok_reply_def)
  finally show ?thesis .
qed

lemma request_words: "frame_to_cmd_args (request_frame r) = Ok r"
proof -
  have "cmd_args (map Bulk r) = Ok r" by (induction r) auto
  then show ?thesis by (simp add: request_frame_def frame_to_cmd_args_def)
qed

lemma handle_one_reply:
  assumes "handle_frame E (request_frame r) i s = Some (t, j, s1)" "r \<noteq> []"
  shows "(\<exists>f. t = Go [f]) \<or> (\<exists>f. t = Close [f]) \<or> t = Crash"
  using assms by (auto simp: handle_frame_def request_words split: res.splits if_splits option.splits prod.splits)

lemma run_requests_replies:
  assumes "run_requests E rs i s = Some (out, st, j, s1)" "[] \<notin> set rs"
  shows "length out \<le> length rs \<and> (st = Open \<longrightarrow> length out = length rs)"
  using assms
proof (induction rs arbitrary: i s out)
  case (Cons r rs)
  then obtain t j' s' where h: "handle_frame E (request_frame r) i s = Some (t, j', s')"
    by (cases "handle_frame E (request_frame r) i s") auto
  have "r \<noteq> []" using Cons.prems(2) by auto
  with handle_one_reply [OF h this] show ?case using Cons h by (fastforce simp: after_Some)
qed simp

text \<open>A bad frame does not end the connection, and what the client sent behind it is lost or not by how the
  network cut it.\<close>

lemma bad_frame_cut:
  fixes s :: server
  defines "bad \<equiv> FError ''ERR Protocol error: invalid array length: x''" and "s \<equiv> \<lparr>s_db = one_db [], s_cache = [], s_tick = 0\<rparr>"
  shows "map_option fst (receive (forward_env True) 40 2 [''*x'' @ crlf @ wire [[''PING'', ''a'']]] \<lparr>c_buf = [], c_index = 0\<rparr> s) =
      Some [bad]"
    and "map_option fst (receive (forward_env True) 40 2 [''*x'' @ crlf, wire [[''PING'', ''a'']]] \<lparr>c_buf = [], c_index = 0\<rparr> s) =
      Some [bad, Bulk ''a'']"
proof -
  let ?E = "forward_env True" and ?k = "\<lparr>c_buf = [], c_index = 0\<rparr>" and ?r = "[''PING'', ''a'']"
  have x: "split_crlf ''x'' = None" "utf8_valid ''x''" "parse_i64_str ''x'' = None" by code_simp+
  have "parse_frame 40 2 (''*x'' @ crlf @ t) = Some (Err (Protocol ''invalid array length: x''), ''*x'' @ crlf @ t)" for t
    using read_line_append [OF x(1,2), of t] x(3) by (simp add: parse_frame_def numeral_2_eq_2 read_int_def incomplete_def)
  then have t: "conn_turn ?E 40 2 \<lparr>c_buf = ''*x'' @ crlf @ t, c_index = 0\<rparr> s = Some (Go [bad], ?k, s)" for t
    by (simp add: conn_turn_def bad_def)
  have "conn_turn ?E 40 2 ?k s = Some (Wait, ?k, s)" by (simp add: conn_turn_def parse_frame_def)
  then have "drain ?E 40 2 ?k s = Some ([], Open, ?k, s)" by (subst drain.simps) simp
  then have d: "drain ?E 40 2 \<lparr>c_buf = ''*x'' @ crlf @ t, c_index = 0\<rparr> s = Some ([bad], Open, ?k, s)" for t
    using t [of t] by (subst drain.simps) simp
  show "map_option fst (receive ?E 40 2 [''*x'' @ crlf @ wire [?r]] ?k s) = Some [bad]"
    using d [of "wire [?r]"] by simp
  have "no_buf (receive ?E 40 2 [wire [?r]] ?k s) = run_requests ?E [?r] 0 s"
    by (rule receive_requests) (simp_all add: sample_requests wire_def encode_ne [symmetric])
  also have "\<dots> = Some ([Bulk ''a''], Open, 0, s\<lparr>s_tick := 1\<rparr>)"
    by (simp add: handle_frame_def request_words parse_now_def server_dispatch parse_ping_def exec_command_def
        plain_command_def execute_def s_def)
  finally obtain k where "receive ?E 40 2 [wire [?r]] ?k s = Some ([Bulk ''a''], Open, k, s\<lparr>s_tick := 1\<rparr>)" by auto
  then show "map_option fst (receive ?E 40 2 [''*x'' @ crlf, wire [?r]] ?k s) = Some [bad, Bulk ''a'']"
    using d [of "[]"] by simp
qed

text \<open>Every request of a connection that stays open gets exactly one reply; one that ends earlier (QUIT, or a
  panic) has had at most one reply for each request.\<close>
theorem one_reply_each:
  assumes "\<forall>r\<in>set rs. sendable fsz r" "2 \<le> stack" "[] \<notin> set chunks" "concat chunks = wire rs"
    and ran: "receive E fsz stack chunks \<lparr>c_buf = [], c_index = i\<rparr> s = Some (out, st, k, s')"
  shows "length out \<le> length rs \<and> (st = Open \<longrightarrow> length out = length rs)"
proof -
  have "run_requests E rs i s = Some (out, st, c_index k, s')"
    using receive_requests [OF assms(1-4), of E i s] ran by simp
  moreover have "[] \<notin> set rs" using assms(1) by (auto simp: sendable_def)
  ultimately show ?thesis by (rule run_requests_replies)
qed

theorem one_reply_each_witness:
  "\<exists>out k s'. receive (forward_env True) 40 2 [wire [[''PING'', ''a''], [''PING'', ''a'']]] \<lparr>c_buf = [], c_index = 0\<rparr>
     \<lparr>s_db = one_db [], s_cache = [], s_tick = 0\<rparr> = Some (out, Open, k, s') \<and> length out = 2"
proof -
  let ?rs = "[[''PING'', ''a''], [''PING'', ''a'']]" and ?s = "\<lparr>s_db = one_db [], s_cache = [], s_tick = 0\<rparr>"
  have a: "\<forall>r\<in>set ?rs. sendable 40 r" "(2::nat) \<le> 2" "[] \<notin> set [wire ?rs]" "concat [wire ?rs] = wire ?rs"
    using sample_requests by (auto simp: wire_def)
  have "run_requests (forward_env True) ?rs 0 ?s = Some ([Bulk ''a'', Bulk ''a''], Open, 0, ?s\<lparr>s_tick := 2\<rparr>)"
    by (simp add: handle_frame_def request_frame_def frame_to_cmd_args_def parse_now_def server_dispatch
        parse_ping_def exec_command_def plain_command_def execute_def)
  then obtain k where "receive (forward_env True) 40 2 [wire ?rs] \<lparr>c_buf = [], c_index = 0\<rparr> ?s =
      Some ([Bulk ''a'', Bulk ''a''], Open, k, ?s\<lparr>s_tick := 2\<rparr>)"
    using receive_requests [OF a, of "forward_env True" 0 ?s] by auto
  then show ?thesis using one_reply_each [OF a] by fastforce
qed

subsection \<open>All tasks\<close>

text \<open>
  The process: the shared state and the open connections, each with whether it waits for a read.  The
  database has at most 16 logical databases (\<open>main\<close> clamps the option).
\<close>

record process =
  p_server :: server
  p_conns :: "nat \<Rightarrow> (bool \<times> conn) option"

definition start_process :: "nat \<Rightarrow> process" where
  "start_process db_count =
     \<lparr>p_server = \<lparr>s_db = database_new (min db_count 16), s_cache = [], s_tick = 0\<rparr>, p_conns = (\<lambda>_. None)\<rparr>"

definition evict_task :: "env \<Rightarrow> server \<Rightarrow> server" where
  "evict_task E s = s\<lparr>s_db := evict_expired (w_now (the_world E s)) (s_db s), s_tick := Suc (s_tick s)\<rparr>"

abbreviation with_conn :: "process \<Rightarrow> nat \<Rightarrow> (bool \<times> conn) option \<Rightarrow> server \<Rightarrow> process" where
  "with_conn y c k s \<equiv> y\<lparr>p_server := s, p_conns := (p_conns y)(c := k)\<rparr>"

text \<open>
  What may happen next: a client connects, a read delivers bytes, a client goes away (at a read, or
  while replies are written), a connection takes a turn, or the eviction task ticks.  The label of a
  step is what passes the socket.  A turn that overflows the stack has no step, since it aborts the
  process with all its connections (\<open>process_aborts\<close>).
\<close>

datatype event = Accept nat | Reads nat string | Writes nat "frame list" | Quiet

inductive process_step :: "env \<Rightarrow> nat \<Rightarrow> nat \<Rightarrow> process \<Rightarrow> event \<Rightarrow> process \<Rightarrow> bool" for E fsz stack where
  accept: "p_conns y c = None \<Longrightarrow>
    process_step E fsz stack y (Accept c) (with_conn y c (Some (True, new_conn)) (p_server y))"
| read: "p_conns y c = Some (True, k) \<Longrightarrow> bytes \<noteq> [] \<Longrightarrow>
    process_step E fsz stack y (Reads c bytes) (with_conn y c (Some (False, k\<lparr>c_buf := c_buf k @ bytes\<rparr>)) (p_server y))"
| hang_up: "p_conns y c = Some (True, k) \<Longrightarrow> process_step E fsz stack y Quiet (with_conn y c None (p_server y))"
| wait: "p_conns y c = Some (False, k) \<Longrightarrow> conn_turn E fsz stack k (p_server y) = Some (Wait, k1, s1) \<Longrightarrow>
    process_step E fsz stack y Quiet (with_conn y c (Some (True, k1)) s1)"
| go: "p_conns y c = Some (False, k) \<Longrightarrow> conn_turn E fsz stack k (p_server y) = Some (Go out, k1, s1) \<Longrightarrow>
    process_step E fsz stack y (Writes c out) (with_conn y c (Some (False, k1)) s1)"
| write_fails: "p_conns y c = Some (False, k) \<Longrightarrow> conn_turn E fsz stack k (p_server y) = Some (Go out, k1, s1) \<Longrightarrow>
    out \<noteq> [] \<Longrightarrow> process_step E fsz stack y Quiet (with_conn y c None s1)"
| close: "p_conns y c = Some (False, k) \<Longrightarrow> conn_turn E fsz stack k (p_server y) = Some (Close out, k1, s1) \<Longrightarrow>
    process_step E fsz stack y (Writes c out) (with_conn y c None s1)"
| crash: "p_conns y c = Some (False, k) \<Longrightarrow> conn_turn E fsz stack k (p_server y) = Some (Crash, k1, s1) \<Longrightarrow>
    process_step E fsz stack y Quiet (with_conn y c None s1)"
| evict: "process_step E fsz stack y Quiet (y\<lparr>p_server := evict_task E (p_server y)\<rparr>)"

inductive reachable_process :: "env \<Rightarrow> nat \<Rightarrow> nat \<Rightarrow> nat \<Rightarrow> process \<Rightarrow> bool" for E fsz stack n where
  start: "reachable_process E fsz stack n (start_process n)"
| step: "reachable_process E fsz stack n y \<Longrightarrow> process_step E fsz stack y e z \<Longrightarrow> reachable_process E fsz stack n z"

definition process_aborts :: "env \<Rightarrow> nat \<Rightarrow> nat \<Rightarrow> process \<Rightarrow> bool" where
  "process_aborts E fsz stack y \<longleftrightarrow>
     (\<exists>c k k1 s1. p_conns y c = Some (False, k) \<and> conn_turn E fsz stack k (p_server y) = Some (Abort, k1, s1))"

text \<open>One client aborts the process, with four bytes for each call the stack has room for.\<close>

lemma nesting_aborts:
  assumes "capacity_ok fsz 1" "0 < stack"
  shows "\<exists>y. reachable_process E fsz stack n y \<and> process_aborts E fsz stack y"
proof -
  let ?s = "p_server (start_process n)" and ?k = "new_conn\<lparr>c_buf := c_buf new_conn @ nested stack\<rparr>"
  let ?y1 = "with_conn (start_process n) 0 (Some (True, new_conn)) ?s"
  let ?y2 = "with_conn ?y1 0 (Some (False, ?k)) (p_server ?y1)"
  have "process_step E fsz stack (start_process n) (Accept 0) ?y1"
    by (rule process_step.accept) (simp add: start_process_def)
  moreover have "process_step E fsz stack ?y1 (Reads 0 (nested stack)) ?y2"
    using assms(2) by (intro process_step.read) (cases stack; simp add: nested_def)+
  ultimately have "reachable_process E fsz stack n ?y2" by (blast intro: reachable_process.intros)
  moreover have "conn_turn E fsz stack ?k ?s = Some (Abort, ?k, ?s)"
    using nested_overflows [OF assms, of "[]"] by (simp add: conn_turn_def new_conn_def)
  then have "process_aborts E fsz stack ?y2"
    unfolding process_aborts_def by (intro exI [of _ 0] exI [of _ ?k] exI [of _ ?s]) simp
  ultimately show ?thesis by blast
qed

definition process_ok :: "nat \<Rightarrow> process \<Rightarrow> bool" where
  "process_ok n y \<longleftrightarrow>
     db_ok (s_db (p_server y)) \<and> length (dbs (s_db (p_server y))) = min n 16 \<and>
     (\<forall>c b k. p_conns y c = Some (b, k) \<longrightarrow> c_index k < 16)"

lemma handle_frame_keeps:
  "handle_frame E f i s = Some (t, j, s1) \<Longrightarrow> keeps s s1 \<and> (j = i \<or> j < 16)"
  by (auto simp: handle_frame_def dest: exec_command_keeps exec_command_index split: res.splits if_splits)

lemma conn_turn_keeps:
  "conn_turn E fsz stack k s = Some (t, k1, s1) \<Longrightarrow> keeps s s1 \<and> (c_index k < 16 \<longrightarrow> c_index k1 < 16)"
  by (auto simp: conn_turn_def dest: handle_frame_keeps split: res.splits option.splits prod.splits)

lemma evict_task_keeps: "keeps s (evict_task E s)"
  by (auto simp: keeps_def evict_task_def evict_expired_def db_ok_def ldb_evict_ok)

lemma process_step_ok:
  assumes "process_step E fsz stack y e z" "process_ok n y"
  shows "process_ok n z"
  using assms
proof (induction rule: process_step.induct)
  case (evict y)
  then show ?case using evict_task_keeps [of "p_server y" E] by (auto simp: process_ok_def keeps_def)
qed (auto simp: process_ok_def keeps_def new_conn_def dest!: conn_turn_keeps split: if_splits)

lemma reachable_process_ok: "reachable_process E fsz stack n y \<Longrightarrow> process_ok n y"
proof (induction rule: reachable_process.induct)
  case start
  show ?case by (simp add: process_ok_def start_process_def database_new_ok, simp add: database_new_def)
next
  case (step y e z)
  then show ?case using process_step_ok by blast
qed

text \<open>C9: In every reachable state of the server, whatever clients connect, send, run as scripts or break off, and
  however their turns and the eviction task interleave, all values of all logical databases are
  well-formed (the skip lists of the sorted sets included), the logical databases are the configured
  ones, and every connection has one of the sixteen indices selected.\<close>
theorem process_invariant:
  assumes "reachable_process E fsz stack n y"
  shows "process_ok n y"
  using assms by (rule reachable_process_ok)

theorem process_invariant_witness:
  "process_ok 4 (with_conn (start_process 4) 7 (Some (False, \<lparr>c_buf = ''PING'', c_index = 0\<rparr>)) (p_server (start_process 4)))"
proof -
  let ?y = "with_conn (start_process 4) 7 (Some (True, new_conn)) (p_server (start_process 4))"
  have a: "reachable_process E 40 2 4 ?y" for E
    by (rule reachable_process.step [OF reachable_process.start process_step.accept]) (simp add: start_process_def)
  have "process_step E 40 2 ?y (Reads 7 ''PING'') (with_conn ?y 7 (Some (False, new_conn\<lparr>c_buf := c_buf new_conn @ ''PING''\<rparr>)) (p_server ?y))" for E
    by (rule process_step.read) simp_all
  from reachable_process.step [OF a this]
  have "reachable_process E 40 2 4 (with_conn (start_process 4) 7 (Some (False, \<lparr>c_buf = ''PING'', c_index = 0\<rparr>)) (p_server (start_process 4)))" for E
    by (simp add: new_conn_def)
  then show ?thesis by (rule process_invariant)
qed

end
