(* ===== verification/Serial.thy ===== *)
theory Serial imports Server begin

text \<open>
  The server as its clients see it.  The specification runs requests of connected clients one at a
  time, in some order, with evictions in between; the process of theory \<open>Server\<close>, which reads bytes in
  arbitrary pieces and interleaves the turns of its connections, is shown to refine it.
\<close>

subsection \<open>The serial specification\<close>

text \<open>A client's visit: the logical database it has selected, the requests run so far, and their replies.\<close>

record visit =
  t_index :: nat
  t_done :: "string list list"
  t_replies :: "frame list"

text \<open>
  The requests served may be restricted by a guard \<open>G\<close>, on the selected database, the state and the
  request; \<open>any_request\<close> is no restriction.
\<close>

type_synonym guard = "nat \<Rightarrow> server \<Rightarrow> string list \<Rightarrow> bool"

abbreviation any_request :: guard where
  "any_request \<equiv> \<lambda>_ _ _. True"

inductive serial_run :: "env \<Rightarrow> guard \<Rightarrow> nat \<Rightarrow> server \<Rightarrow> (nat \<Rightarrow> visit option) \<Rightarrow> bool" for E G n where
  start: "serial_run E G n (p_server (start_process n)) (\<lambda>_. None)"
| enter: "serial_run E G n s v \<Longrightarrow> v c = None \<Longrightarrow>
    serial_run E G n s (v(c \<mapsto> \<lparr>t_index = 0, t_done = [], t_replies = []\<rparr>))"
| request: "serial_run E G n s v \<Longrightarrow> v c = Some t \<Longrightarrow> G (t_index t) s r \<Longrightarrow>
    handle_frame E (request_frame r) (t_index t) s = Some (Go out, j, s1) \<Longrightarrow>
    serial_run E G n s1 (v(c \<mapsto> \<lparr>t_index = j, t_done = t_done t @ [r], t_replies = t_replies t @ out\<rparr>))"
| last_request: "serial_run E G n s v \<Longrightarrow> v c = Some t \<Longrightarrow> G (t_index t) s r \<Longrightarrow>
    handle_frame E (request_frame r) (t_index t) s = Some (q, j, s1) \<Longrightarrow> serial_run E G n s1 (v(c := None))"
| leave: "serial_run E G n s v \<Longrightarrow> serial_run E G n s (v(c := None))"
| evict: "serial_run E G n s v \<Longrightarrow> serial_run E G n (evict_task E s) v"

subsection \<open>Runs of the process with what passed its sockets\<close>

text \<open>
  For each connection: the requests its client will send, the bytes the server has read of them, and
  the replies the server has written.
\<close>

record session =
  n_requests :: "string list list"
  n_sent :: string
  n_replies :: "frame list"

text \<open>
  In a step the connection that takes a turn changes; when a whole request is at the front of its buffer,
  this request is served.
\<close>

definition served :: "guard \<Rightarrow> nat \<Rightarrow> nat \<Rightarrow> process \<Rightarrow> process \<Rightarrow> bool" where
  "served G fsz stack y z \<longleftrightarrow>
     (\<forall>c k r b. p_conns y c = Some (False, k) \<and> p_conns z c \<noteq> p_conns y c \<and>
        parse_frame fsz stack (c_buf k) = Some (Ok (Some (request_frame r)), b) \<longrightarrow> G (c_index k) (p_server y) r)"

lemma servedD:
  "served G fsz stack y z \<Longrightarrow> p_conns y c = Some (False, k) \<Longrightarrow> p_conns z c \<noteq> p_conns y c \<Longrightarrow>
   parse_frame fsz stack (c_buf k) = Some (Ok (Some (request_frame r)), b) \<Longrightarrow> G (c_index k) (p_server y) r"
  unfolding served_def by blast

lemma served_any [simp]: "served any_request fsz stack y z"
  by (simp add: served_def)

inductive session_run :: "env \<Rightarrow> guard \<Rightarrow> nat \<Rightarrow> nat \<Rightarrow> nat \<Rightarrow> process \<Rightarrow> (nat \<Rightarrow> session) \<Rightarrow> bool"
  for E G fsz stack n where
  start: "session_run E G fsz stack n (start_process n) (\<lambda>_. \<lparr>n_requests = [], n_sent = [], n_replies = []\<rparr>)"
| connects: "session_run E G fsz stack n y h \<Longrightarrow> process_step E fsz stack y (Accept c) z \<Longrightarrow>
    \<forall>r\<in>set rs. sendable fsz r \<Longrightarrow>
    session_run E G fsz stack n z (h(c := \<lparr>n_requests = rs, n_sent = [], n_replies = []\<rparr>))"
| sends: "session_run E G fsz stack n y h \<Longrightarrow> process_step E fsz stack y (Reads c bytes) z \<Longrightarrow>
    prefix (n_sent (h c) @ bytes) (wire (n_requests (h c))) \<Longrightarrow>
    session_run E G fsz stack n z (h(c := (h c)\<lparr>n_sent := n_sent (h c) @ bytes\<rparr>))"
| gets: "session_run E G fsz stack n y h \<Longrightarrow> process_step E fsz stack y (Writes c out) z \<Longrightarrow>
    served G fsz stack y z \<Longrightarrow>
    session_run E G fsz stack n z (h(c := (h c)\<lparr>n_replies := n_replies (h c) @ out\<rparr>))"
| quiet: "session_run E G fsz stack n y h \<Longrightarrow> process_step E fsz stack y Quiet z \<Longrightarrow> served G fsz stack y z \<Longrightarrow>
    session_run E G fsz stack n z h"

lemma session_reachable: "session_run E G fsz stack n y h \<Longrightarrow> reachable_process E fsz stack n y"
  by (induction rule: session_run.induct) (auto intro: reachable_process.intros)

inductive_cases accept_step: "process_step E fsz stack y (Accept c) z"
inductive_cases reads_step: "process_step E fsz stack y (Reads c bytes) z"
inductive_cases writes_step: "process_step E fsz stack y (Writes c out) z"
inductive_cases quiet_step: "process_step E fsz stack y Quiet z"

subsection \<open>The simulation\<close>

text \<open>
  An open connection and its client's visit: the requests run are the first of those the client
  sends, each with one reply; what has been read is these requests and the buffer; and a connection
  that waits for a read has no whole request in its buffer.
\<close>

definition visiting :: "nat \<Rightarrow> session \<Rightarrow> bool \<Rightarrow> conn \<Rightarrow> visit \<Rightarrow> bool" where
  "visiting fsz h waiting k t \<longleftrightarrow>
     t_index t = c_index k \<and> t_replies t = n_replies h \<and> length (t_replies t) = length (t_done t) \<and>
     (\<forall>r\<in>set (n_requests h). sendable fsz r) \<and>
     (\<exists>todo. n_requests h = t_done t @ todo \<and> n_sent h = wire (t_done t) @ c_buf k \<and>
        prefix (c_buf k) (wire todo) \<and> (waiting \<longrightarrow> partial_request (c_buf k) todo))"

definition follows :: "nat \<Rightarrow> session \<Rightarrow> (bool \<times> conn) option \<Rightarrow> visit option \<Rightarrow> bool" where
  "follows fsz h p v \<longleftrightarrow>
     (case p of None \<Rightarrow> v = None | Some (waiting, k) \<Rightarrow> \<exists>t. v = Some t \<and> visiting fsz h waiting k t)"

lemma follows_simps [simp]:
  "follows fsz h None v \<longleftrightarrow> v = None"
  "follows fsz h (Some (w, k)) v \<longleftrightarrow> (\<exists>t. v = Some t \<and> visiting fsz h w k t)"
  by (simp_all add: follows_def)

definition simulates :: "nat \<Rightarrow> process \<Rightarrow> (nat \<Rightarrow> session) \<Rightarrow> (nat \<Rightarrow> visit option) \<Rightarrow> bool" where
  "simulates fsz y h v \<longleftrightarrow> (\<forall>c. follows fsz (h c) (p_conns y c) (v c))"

lemma simulatesD: "simulates fsz y h v \<Longrightarrow> p_conns y c = p \<Longrightarrow> follows fsz (h c) p (v c)"
  by (auto simp: simulates_def)

lemma simulates_update:
  "simulates fsz y h v \<Longrightarrow> follows fsz g k t \<Longrightarrow> simulates fsz (with_conn y c k s) (h(c := g)) (v(c := t))"
  "simulates fsz y h v \<Longrightarrow> follows fsz (h c) k t \<Longrightarrow> simulates fsz (with_conn y c k s) h (v(c := t))"
  "simulates fsz y h v \<Longrightarrow> follows fsz g k (v c) \<Longrightarrow> simulates fsz (with_conn y c k s) (h(c := g)) v"
  "simulates fsz y h v \<Longrightarrow> follows fsz (h c) k (v c) \<Longrightarrow> simulates fsz (with_conn y c k s) h v"
  by (auto simp: simulates_def)

lemma wire_append [simp]: "wire (as @ bs) = wire as @ wire bs"
  by (simp add: wire_def)

lemma wire_Nil [simp]: "wire [] = []"
  by (simp add: wire_def)

text \<open>What a turn of an open connection does, by what its buffer holds.\<close>

lemma visit_turn:
  assumes v: "visiting fsz h w k t" and stack: "2 \<le> stack"
    and turn: "conn_turn E fsz stack k s = Some (q, k1, s1)"
  obtains (waits) "q = Wait" "k1 = k" "s1 = s" "visiting fsz h True k t"
  | (runs) r where
      "handle_frame E (request_frame r) (t_index t) s = Some (q, c_index k1, s1)"
      "parse_frame fsz stack (c_buf k) = Some (Ok (Some (request_frame r)), c_buf k1)"
      "\<And>out. q = Go out \<Longrightarrow> visiting fsz (h\<lparr>n_replies := n_replies h @ out\<rparr>) False k1
        \<lparr>t_index = c_index k1, t_done = t_done t @ [r], t_replies = t_replies t @ out\<rparr>"
proof -
  obtain todo where t: "n_requests h = t_done t @ todo" "n_sent h = wire (t_done t) @ c_buf k"
      "prefix (c_buf k) (wire todo)"
    using v by (auto simp: visiting_def)
  have ok: "\<forall>r\<in>set todo. sendable fsz r" using v t(1) by (auto simp: visiting_def)
  have k: "k = \<lparr>c_buf = c_buf k, c_index = c_index k\<rparr>" by simp
  obtain rest where "c_buf k @ rest = wire todo" using t(3) by (auto simp: prefix_def)
  then obtain whole later b where w: "todo = whole @ later" "c_buf k = wire whole @ b" "b @ rest = wire later"
      "partial_request b later"
    using split_wire [of "c_buf k" rest todo] by blast
  show thesis
  proof (cases whole)
    case Nil
    then have p: "partial_request (c_buf k) todo" using w by simp
    have "q = Wait" "k1 = k" "s1 = s"
      using turn_partial [OF p ok stack, of E "c_index k" s] turn by (simp_all flip: k)
    moreover have "visiting fsz h True k t" using v t p by (auto simp: visiting_def)
    ultimately show thesis by (rule waits)
  next
    case (Cons r rs)
    have r: "sendable fsz r" "r \<noteq> []" using ok w(1) Cons by (auto simp: sendable_def)
    have "conn_turn E fsz stack k s =
        map_option (\<lambda>(t, j, s1). (t, \<lparr>c_buf = wire rs @ b, c_index = j\<rparr>, s1)) (handle_frame E (request_frame r) (c_index k) s)"
      using turn_request [OF r(1) stack, of E rs b "c_index k" s] w(2) Cons by (metis k)
    moreover have i: "t_index t = c_index k" using v by (simp add: visiting_def)
    ultimately have h: "handle_frame E (request_frame r) (t_index t) s = Some (q, c_index k1, s1)" "c_buf k1 = wire rs @ b"
      using turn by (auto simp: map_option_case split: option.splits)
    have p: "parse_frame fsz stack (c_buf k) = Some (Ok (Some (request_frame r)), c_buf k1)"
      using parse_request_frame [OF r(1) stack, of rs b] w(2) h(2) Cons by simp
    have "visiting fsz (h\<lparr>n_replies := n_replies h @ out\<rparr>) False k1
        \<lparr>t_index = c_index k1, t_done = t_done t @ [r], t_replies = t_replies t @ out\<rparr>" if go: "q = Go out" for out
    proof -
      obtain f where "out = [f]" using handle_one_reply [OF h(1) r(2)] go by auto
      then show ?thesis
        using v t w h(2) Cons by (auto simp: visiting_def prefix_def wire_def)
    qed
    then show thesis by (rule runs [OF h(1) p])
  qed
qed

text \<open>Every step of a run is matched by at most one step of the specification.\<close>

lemma session_simulates:
  assumes "session_run E G fsz stack n y h" and stack: "2 \<le> stack"
  shows "\<exists>v. serial_run E G n (p_server y) v \<and> simulates fsz y h v"
  using assms(1)
proof (induction rule: session_run.induct)
  case start
  have "simulates fsz (start_process n) (\<lambda>_. \<lparr>n_requests = [], n_sent = [], n_replies = []\<rparr>) (\<lambda>_. None)"
    by (simp add: simulates_def start_process_def)
  then show ?case using serial_run.start by blast
next
  case (connects y h c z rs)
  then obtain v where v: "serial_run E G n (p_server y) v" "simulates fsz y h v" by blast
  have z: "p_conns y c = None" "z = with_conn y c (Some (True, new_conn)) (p_server y)"
    using connects.hyps(2) by (auto elim: accept_step)
  have "visiting fsz \<lparr>n_requests = rs, n_sent = [], n_replies = []\<rparr> True new_conn \<lparr>t_index = 0, t_done = [], t_replies = []\<rparr>"
    using connects.hyps(3) by (cases rs) (auto simp: visiting_def new_conn_def)
  then have "simulates fsz z (h(c := \<lparr>n_requests = rs, n_sent = [], n_replies = []\<rparr>))
      (v(c \<mapsto> \<lparr>t_index = 0, t_done = [], t_replies = []\<rparr>))"
    unfolding z(2) by (intro simulates_update(1) [OF v(2)]) simp
  moreover have "p_server z = p_server y" "v c = None" using z(2) simulatesD [OF v(2) z(1)] by simp_all
  ultimately show ?case using serial_run.enter [OF v(1)] by metis
next
  case (sends y h c bytes z)
  then obtain v where v: "serial_run E G n (p_server y) v" "simulates fsz y h v" by blast
  obtain k where z: "p_conns y c = Some (True, k)"
      "z = with_conn y c (Some (False, k\<lparr>c_buf := c_buf k @ bytes\<rparr>)) (p_server y)"
    using sends.hyps(2) by (auto elim: reads_step)
  obtain t where t: "v c = Some t" "visiting fsz (h c) True k t" using simulatesD [OF v(2) z(1)] by auto
  have "visiting fsz ((h c)\<lparr>n_sent := n_sent (h c) @ bytes\<rparr>) False (k\<lparr>c_buf := c_buf k @ bytes\<rparr>) t"
    using t(2) sends.hyps(3) by (auto simp: visiting_def prefix_def)
  then have "simulates fsz z (h(c := (h c)\<lparr>n_sent := n_sent (h c) @ bytes\<rparr>)) v"
    unfolding z(2) using t(1) by (intro simulates_update(3) [OF v(2)]) simp
  moreover have "p_server z = p_server y" using z(2) by simp
  ultimately show ?case using v(1) by metis
next
  case (gets y h c out z)
  then obtain v where v: "serial_run E G n (p_server y) v" "simulates fsz y h v" by blast
  obtain k q k1 s1 where z: "p_conns y c = Some (False, k)" "conn_turn E fsz stack k (p_server y) = Some (q, k1, s1)"
      "q = Go out \<and> z = with_conn y c (Some (False, k1)) s1 \<or> q = Close out \<and> z = with_conn y c None s1"
    using gets.hyps(2) by (auto elim!: writes_step)
  obtain t where t: "v c = Some t" "visiting fsz (h c) False k t" using simulatesD [OF v(2) z(1)] by auto
  show ?case
  proof (cases rule: visit_turn [OF t(2) stack z(2)])
    case (2 r)
    have "c_buf k1 \<noteq> c_buf k" using parse_frame_shrinks [OF 2(2)] by auto
    then have "p_conns z c \<noteq> p_conns y c" using z(1,3) by auto
    then have g: "G (t_index t) (p_server y) r"
      using servedD [OF gets.hyps(3) z(1) _ 2(2)] t(2) by (simp add: visiting_def)
    from z(3) show ?thesis
    proof (elim disjE conjE)
      assume q: "q = Go out" "z = with_conn y c (Some (False, k1)) s1"
      have "simulates fsz z (h(c := (h c)\<lparr>n_replies := n_replies (h c) @ out\<rparr>))
          (v(c \<mapsto> \<lparr>t_index = c_index k1, t_done = t_done t @ [r], t_replies = t_replies t @ out\<rparr>))"
        unfolding q(2) using 2(3) [OF q(1)] by (intro simulates_update(1) [OF v(2)]) simp
      moreover have "p_server z = s1" using q(2) by simp
      ultimately show ?thesis using serial_run.request [OF v(1) t(1) g 2(1) [unfolded q(1)]] by metis
    next
      assume q: "z = with_conn y c None s1"
      have "simulates fsz z (h(c := (h c)\<lparr>n_replies := n_replies (h c) @ out\<rparr>)) (v(c := None))"
        unfolding q by (intro simulates_update(1) [OF v(2)]) simp
      moreover have "p_server z = s1" using q by simp
      ultimately show ?thesis using serial_run.last_request [OF v(1) t(1) g 2(1)] by metis
    qed
  qed (use z(3) in auto)
next
  case (quiet y h z)
  then obtain v where v: "serial_run E G n (p_server y) v" "simulates fsz y h v" by blast
  have stay: "\<exists>v'. serial_run E G n s1 v' \<and> simulates fsz (with_conn y c p s1) h v'"
    if k: "p_conns y c = Some (False, k)" "conn_turn E fsz stack k (p_server y) = Some (q, k1, s1)"
      "p = (if q = Wait then Some (True, k1) else None)" "z = with_conn y c p s1" for c k q k1 s1 p
  proof -
    obtain t where t: "v c = Some t" "visiting fsz (h c) False k t" using simulatesD [OF v(2) k(1)] by auto
    show ?thesis
    proof (cases rule: visit_turn [OF t(2) stack k(2)])
      case 1
      then have "simulates fsz (with_conn y c p s1) h v" using t(1) k(3) by (intro simulates_update(4) [OF v(2)]) auto
      then show ?thesis using 1(3) v(1) by auto
    next
      case (2 r)
      then have p: "p = None" using handle_not_wait k(3) by auto
      then have g: "G (t_index t) (p_server y) r"
        using servedD [OF quiet.hyps(3) k(1) _ 2(2)] k(1,4) t(2) by (simp add: visiting_def)
      have "simulates fsz (with_conn y c p s1) h (v(c := None))" using p by (intro simulates_update(2) [OF v(2)]) simp
      then show ?thesis using serial_run.last_request [OF v(1) t(1) g 2(1)] by blast
    qed
  qed
  from quiet.hyps(2) consider (hang_up) c where "z = with_conn y c None (p_server y)"
    | (turn) c k q k1 s1 where "p_conns y c = Some (False, k)" "conn_turn E fsz stack k (p_server y) = Some (q, k1, s1)"
        "z = with_conn y c (if q = Wait then Some (True, k1) else None) s1"
    | (evict) "z = y\<lparr>p_server := evict_task E (p_server y)\<rparr>"
    by (cases rule: quiet_step) auto
  then show ?case
  proof cases
    case hang_up
    have "simulates fsz z h (v(c := None))" unfolding hang_up by (intro simulates_update(2) [OF v(2)]) simp
    moreover have "p_server z = p_server y" using hang_up by simp
    ultimately show ?thesis using serial_run.leave [OF v(1), of c] by metis
  next
    case turn
    then show ?thesis using stay [OF turn(1,2) refl turn(3)] by simp
  next
    case evict
    then show ?thesis using serial_run.evict [OF v(1)] v(2) by (auto simp: simulates_def)
  qed
qed

text \<open>What a matched state says of the clients.\<close>

lemma simulates_clients:
  assumes "simulates fsz y h v" "p_conns y c = Some (w, k)"
  shows "\<exists>t todo. v c = Some t \<and> t_index t = c_index k \<and> n_requests (h c) = t_done t @ todo \<and>
    n_sent (h c) = wire (t_done t) @ c_buf k \<and> n_replies (h c) = t_replies t \<and>
    length (t_replies t) = length (t_done t) \<and> (w \<longrightarrow> partial_request (c_buf k) todo)"
  using simulatesD [OF assms] by (auto simp: visiting_def)

text \<open>A session of one client whose first request has been answered; more bytes may have arrived.\<close>

lemma first_request_session:
  assumes ok: "\<forall>q\<in>set (r # rs). sendable fsz q" "2 \<le> stack" "prefix b (wire rs)"
    and run: "handle_frame E (request_frame r) 0 (p_server (start_process n)) = Some (Go out, j, s1)"
    and guard: "G 0 (p_server (start_process n)) r"
  obtains y h where "session_run E G fsz stack n y h" "p_server y = s1"
    "p_conns y c = Some (False, \<lparr>c_buf = b, c_index = j\<rparr>)"
    "h c = \<lparr>n_requests = r # rs, n_sent = wire [r] @ b, n_replies = out\<rparr>"
proof -
  let ?s0 = "p_server (start_process n)" and ?w = "wire [r] @ b"
  let ?h = "\<lambda>sent out. (\<lambda>_ :: nat. \<lparr>n_requests = [], n_sent = [], n_replies = []\<rparr>)
    (c := \<lparr>n_requests = r # rs, n_sent = sent, n_replies = out\<rparr>)"
  let ?y1 = "with_conn (start_process n) c (Some (True, new_conn)) ?s0"
  let ?y2 = "with_conn (start_process n) c (Some (False, \<lparr>c_buf = ?w, c_index = 0\<rparr>)) ?s0"
  let ?y3 = "with_conn (start_process n) c (Some (False, \<lparr>c_buf = b, c_index = j\<rparr>)) s1"
  have "process_step E fsz stack (start_process n) (Accept c) ?y1"
    by (rule process_step.accept) (simp add: start_process_def)
  from session_run.connects [OF session_run.start this ok(1)]
  have r1: "session_run E G fsz stack n ?y1 (?h [] [])" .
  have "process_step E fsz stack ?y1 (Reads c ?w) (with_conn ?y1 c (Some (False, new_conn\<lparr>c_buf := c_buf new_conn @ ?w\<rparr>)) (p_server ?y1))"
    by (intro process_step.read) (simp_all add: wire_def)
  then have "process_step E fsz stack ?y1 (Reads c ?w) ?y2" by (simp add: new_conn_def)
  moreover have "prefix (n_sent (?h [] [] c) @ ?w) (wire (n_requests (?h [] [] c)))"
    using ok(3) wire_append [of "[r]" rs] by simp
  ultimately have r2: "session_run E G fsz stack n ?y2 (?h ?w [])" using session_run.sends [OF r1] by fastforce
  have r: "sendable fsz r" using ok(1) by simp
  have "conn_turn E fsz stack \<lparr>c_buf = ?w, c_index = 0\<rparr> ?s0 = Some (Go out, \<lparr>c_buf = b, c_index = j\<rparr>, s1)"
    using turn_request [OF r ok(2), of E "[]" b 0 ?s0] run by simp
  then have "process_step E fsz stack ?y2 (Writes c out) (with_conn ?y2 c (Some (False, \<lparr>c_buf = b, c_index = j\<rparr>)) s1)"
    by (intro process_step.go) simp_all
  then have step: "process_step E fsz stack ?y2 (Writes c out) ?y3" by simp
  have "q = r" if "request_frame q = request_frame r" for q
    using that by (simp add: request_frame_def inj_map_eq_map inj_def)
  then have "served G fsz stack ?y2 ?y3"
    using parse_request_frame [OF r ok(2), of "[]" b] guard by (auto simp: served_def start_process_def)
  from session_run.gets [OF r2 step this] show thesis by (rule that) simp_all
qed

text \<open>C3: The server serves its clients one request at a time.  However the bytes of the clients arrive, however
  the turns of their connections interleave with each other and with the eviction task, and whenever
  connections break off, the shared state is that of running whole requests one after the other; each
  client's requests run in the order it sends them, each exactly once, and the replies it is written
  are theirs, one for each; and a connection that waits for its client has run every request that has
  arrived whole.\<close>
theorem server_serialises:
  assumes "session_run E any_request fsz stack n y h" "2 \<le> stack"
  shows "\<exists>v. serial_run E any_request n (p_server y) v \<and>
    (\<forall>c waiting k. p_conns y c = Some (waiting, k) \<longrightarrow>
      (\<exists>t todo. v c = Some t \<and> t_index t = c_index k \<and>
         n_requests (h c) = t_done t @ todo \<and> n_sent (h c) = wire (t_done t) @ c_buf k \<and>
         n_replies (h c) = t_replies t \<and> length (t_replies t) = length (t_done t) \<and>
         (waiting \<longrightarrow> partial_request (c_buf k) todo)))"
  using session_simulates [OF assms] simulates_clients by blast

theorem server_serialises_witness:
  "\<exists>(y :: process) v t. serial_run (forward_env True) any_request 4 (p_server y) v \<and> v 7 = Some t \<and>
     t_done t = [[''PING'', ''a'']] \<and> t_replies t = [Bulk ''a'']"
proof -
  let ?E = "forward_env True" and ?rs = "[[''QUIT'']]" and ?s0 = "p_server (start_process 4)"
  have "wire ?rs = ''*'' @ tl (wire ?rs)"
    by (simp add: wire_def request_frame_def)
  then have p: "prefix ''*'' (wire ?rs)" by (rule prefixI)
  have h: "handle_frame ?E (request_frame [''PING'', ''a'']) 0 ?s0 = Some (Go [Bulk ''a''], 0, ?s0\<lparr>s_tick := 1\<rparr>)"
    by (simp add: handle_frame_def request_words parse_now_def server_dispatch parse_ping_def exec_command_def
        plain_command_def execute_def start_process_def)
  have ok: "\<forall>q\<in>set ([''PING'', ''a''] # ?rs). sendable 40 q" by (simp add: sample_requests)
  obtain y h where y: "session_run ?E any_request 40 2 4 y h" "p_conns y 7 = Some (False, \<lparr>c_buf = ''*'', c_index = 0\<rparr>)"
      "h 7 = \<lparr>n_requests = [''PING'', ''a''] # ?rs, n_sent = wire [[''PING'', ''a'']] @ ''*'', n_replies = [Bulk ''a'']\<rparr>"
    by (rule first_request_session [where G = any_request and c = 7, OF ok order_refl p h TrueI])
  then obtain v t todo where v: "serial_run ?E any_request 4 (p_server y) v" "v 7 = Some t" "n_requests (h 7) = t_done t @ todo"
      "n_replies (h 7) = t_replies t" "length (t_replies t) = length (t_done t)"
    using server_serialises [OF y(1) order_refl] y(2) by metis
  have t: "t_replies t = [Bulk ''a'']" using v(4) y(3) by simp
  then obtain r where "t_done t = [r]" using v(5) by (cases "t_done t") auto
  then have "t_done t = [[''PING'', ''a'']]" using v(3) y(3) by simp
  then show ?thesis using v(1,2) t by blast
qed

end
