(* ===== verification/StoreServer.thy ===== *)
theory StoreServer imports Refinement Serial begin

text \<open>
  The server as an abstract store server: scripts are their calls on the stores, one after the other, and
  the requests of all clients run whole, in some order (theory \<open>Serial\<close>).
\<close>

subsection \<open>Commands and scripts on the stores\<close>

text \<open>The stores of all logical databases, the cached scripts by their digest, and the number of commands run.\<close>

record stored =
  a_stores :: stores
  a_cache :: "string \<Rightarrow> string option"
  a_tick :: nat

definition abs_server :: "server \<Rightarrow> stored" where
  "abs_server s = \<lparr>a_stores = abs_all (s_db s), a_cache = hm_get (s_cache s), a_tick = s_tick s\<rparr>"

text \<open>A scripting command: the program to run, or the reply at once, with the cache it leaves.\<close>

fun spec_start :: "env \<Rightarrow> script_cmd \<Rightarrow> (string \<Rightarrow> string option) \<Rightarrow> (lua + frame) \<times> (string \<Rightarrow> string option)" where
  "spec_start E (Eval script n ks args) m = (Inl (script_program E (from_utf8_lossy script) ks args), m)"
| "spec_start E (EvalSha sha n ks args) m =
     (case m (from_utf8_lossy sha) of
        None \<Rightarrow> (Inr (frame_from_error noscript), m)
      | Some script \<Rightarrow> (Inl (script_program E script ks args), m))"
| "spec_start E (ScriptLoad script) m =
     (let sha = e_sha1 E (from_utf8_lossy script) in (Inr (Bulk sha), m(sha \<mapsto> from_utf8_lossy script)))"
| "spec_start E ScriptFlush m = (Inr frame_ok_reply, Map.empty)"

text \<open>The command a call names is read at a tick; the data are not looked at.\<close>

definition called :: "env \<Rightarrow> nat \<Rightarrow> lua_value list \<Rightarrow> command + call_result" where
  "called E t vs = call_command E \<lparr>s_db = \<lparr>dbs = []\<rparr>, s_cache = [], s_tick = t\<rparr> vs"

lemma called_now: "call_command E s vs = called E (s_tick s) vs"
proof -
  have "parse_now E s = parse_now E \<lparr>s_db = \<lparr>dbs = []\<rparr>, s_cache = [], s_tick = s_tick s\<rparr>"
    by (simp add: fun_eq_iff parse_now_def the_world_def)
  then show ?thesis unfolding called_def call_command_def by (simp only:)
qed

text \<open>A command is an outcome of its specification, or a script that is called with what each of its calls gives.\<close>

inductive
  store_command :: "env \<Rightarrow> command \<Rightarrow> nat \<Rightarrow> stored \<Rightarrow> frame \<Rightarrow> nat \<Rightarrow> stored \<Rightarrow> bool" and
  store_script :: "env \<Rightarrow> nat \<Rightarrow> lua \<Rightarrow> stored \<Rightarrow> frame res \<Rightarrow> stored \<Rightarrow> bool" for E where
  plain: "(Some f, j, S) \<in> spec_step (e_world E (a_tick A)) c i (a_stores A) \<Longrightarrow>
    store_command E c i A f j (A\<lparr>a_stores := S, a_tick := Suc (a_tick A)\<rparr>)"
| at_once: "spec_start E sc (a_cache A) = (Inr f, m) \<Longrightarrow>
    store_command E (Scripting sc) i A f i (A\<lparr>a_cache := m, a_tick := Suc (a_tick A)\<rparr>)"
| scripted: "spec_start E sc (a_cache A) = (Inl p, m) \<Longrightarrow>
    store_script E i p (A\<lparr>a_cache := m, a_tick := Suc (a_tick A)\<rparr>) r B \<Longrightarrow> reply id r = Some f \<Longrightarrow>
    store_command E (Scripting sc) i A f i B"
| returns: "store_script E i (Return v) A (Ok (lua_value_to_frame v)) A"
| raises: "store_script E i (Raise msg) A (Err (Script msg)) A"
| refused: "called E (a_tick A) vs = Inr q \<Longrightarrow> store_script E i (k q) A r B \<Longrightarrow>
    store_script E i (Call pcall vs k) A r B"
| calls: "called E (a_tick A) vs = Inl c \<Longrightarrow> store_command E c i A f j A1 \<Longrightarrow>
    store_script E i (k (call_answer pcall (Some f))) A1 r B \<Longrightarrow> store_script E i (Call pcall vs k) A r B"

text \<open>
  The commands of the server the specification covers: those with moderate operands, and the scripts
  whose calls are such commands.
\<close>

inductive
  tame_command :: "env \<Rightarrow> command \<Rightarrow> nat \<Rightarrow> server \<Rightarrow> frame \<Rightarrow> nat \<Rightarrow> server \<Rightarrow> bool" and
  tame_script :: "env \<Rightarrow> nat \<Rightarrow> lua \<Rightarrow> server \<Rightarrow> frame res \<Rightarrow> server \<Rightarrow> bool" for E where
  plain: "moderate (the_world E s) i (s_db s) c \<Longrightarrow> memory_ok i (s_db s) \<Longrightarrow>
    plain_command E c i s = ((Some f, j), s1) \<Longrightarrow> tame_command E c i s f j s1"
| at_once: "script_tick E sc s = (Inr f, s1) \<Longrightarrow> tame_command E (Scripting sc) i s f i s1"
| scripted: "script_tick E sc s = (Inl p, s1) \<Longrightarrow> tame_script E i p s1 r s2 \<Longrightarrow> reply id r = Some f \<Longrightarrow>
    tame_command E (Scripting sc) i s f i s2"
| returns: "tame_script E i (Return v) s (Ok (lua_value_to_frame v)) s"
| raises: "tame_script E i (Raise msg) s (Err (Script msg)) s"
| refused: "call_command E s vs = Inr q \<Longrightarrow> tame_script E i (k q) s r s2 \<Longrightarrow> tame_script E i (Call pcall vs k) s r s2"
| calls: "call_command E s vs = Inl c \<Longrightarrow> tame_command E c i s f j s1 \<Longrightarrow>
    tame_script E i (k (call_answer pcall (Some f))) s1 r s2 \<Longrightarrow> tame_script E i (Call pcall vs k) s r s2"

text \<open>They are runs of the server.\<close>

lemma plain_runs: "\<forall>sc. c \<noteq> Scripting sc \<Longrightarrow> exec_command E c i s = Some (plain_command E c i s)"
  by (cases c) (simp_all add: exec_command_def)

lemma tame_runs:
  "tame_command E c i s f j s1 \<Longrightarrow> exec_command E c i s = Some ((Some f, j), s1)"
  "tame_script E i p s r s1 \<Longrightarrow> run_lua E i p s = Some (r, s1)"
proof (induction rule: tame_command_tame_script.inducts)
  case (plain s i c f j s1)
  then show ?case by (subst plain_runs) auto
next
  case (calls s vs c i f j s1 k pcall r s2)
  show ?case
  proof (cases "\<exists>sc. c = Scripting sc")
    case True
    then obtain sc where c: "c = Scripting sc" ..
    obtain x s' where x: "script_tick E sc s = (x, s')" by fastforce
    show ?thesis
      using calls c x
      by (subst run_lua.simps) (auto simp: exec_command_def split: sum.splits)
  next
    case False
    then have "plain_command E c i s = ((Some f, j), s1)" using calls by (simp add: plain_runs)
    then show ?thesis using calls False by (subst run_lua.simps) (cases c; simp)
  qed
qed (simp_all add: exec_command_def run_lua.simps)

subsection \<open>Commands and scripts refine\<close>

definition tame_env :: "env \<Rightarrow> bool" where
  "tame_env E \<longleftrightarrow> (\<forall>t. clock_ok (e_world E t) \<and> draws_ok (e_world E t))"

lemma start_abs:
  "script_tick E sc s = (x, s1) \<Longrightarrow> \<exists>m. spec_start E sc (hm_get (s_cache s)) = (x, m) \<and>
     abs_server s1 = (abs_server s)\<lparr>a_cache := m, a_tick := Suc (a_tick (abs_server s))\<rparr>"
  by (cases sc)
     (auto simp: script_tick_def load_script_def flush_scripts_def abs_server_def Let_def hm_get_updates hm_get_empty
        split: option.splits)

lemma plain_refines:
  assumes "tame_env E" "db_ok (s_db s)" "i < length (dbs (s_db s))" "moderate (the_world E s) i (s_db s) c"
    "memory_ok i (s_db s)" "plain_command E c i s = ((Some f, j), s1)"
  shows "store_command E c i (abs_server s) f j (abs_server s1)"
proof -
  obtain d' where e: "execute (\<lambda>_ _ d. (None, d)) (the_world E s) c i (s_db s) = ((Some f, d'), j)"
    "s1 = s\<lparr>s_db := d', s_tick := Suc (s_tick s)\<rparr>"
    using assms(6) by (auto simp: plain_command_def split: prod.splits)
  have "clock_ok (the_world E s)" "draws_ok (the_world E s)" using assms(1) by (simp_all add: tame_env_def the_world_def)
  then have "(Some f, j, abs_all d') \<in> spec_step (the_world E s) c i (abs_all (s_db s))"
    using execute_steps [OF assms(2,3) _ assms(4,5), of "\<lambda>_ _ d. (None, d)"] e(1) by simp
  then show ?thesis
    using store_command_store_script.plain [of f j "abs_all d'" E "abs_server s" c i] e(2)
    by (simp add: abs_server_def the_world_def)
qed

lemma keeps_okD: "keeps s s1 \<Longrightarrow> db_ok (s_db s) \<Longrightarrow> db_ok (s_db s1)"
  "keeps s s1 \<Longrightarrow> length (dbs (s_db s1)) = length (dbs (s_db s))"
  by (simp_all add: keeps_def)

lemma tame_refines:
  assumes env: "tame_env E"
  shows "tame_command E c i s f j s1 \<Longrightarrow> db_ok (s_db s) \<Longrightarrow> i < length (dbs (s_db s)) \<Longrightarrow>
      store_command E c i (abs_server s) f j (abs_server s1)"
    "tame_script E i p s r s1 \<Longrightarrow> db_ok (s_db s) \<Longrightarrow> i < length (dbs (s_db s)) \<Longrightarrow>
      store_script E i p (abs_server s) r (abs_server s1)"
proof (induction rule: tame_command_tame_script.inducts)
  case (plain s i c f j s1)
  then show ?case by (intro plain_refines [OF env])
next
  case (at_once sc s f s1 i)
  obtain m where "spec_start E sc (a_cache (abs_server s)) = (Inr f, m)"
    "abs_server s1 = (abs_server s)\<lparr>a_cache := m, a_tick := Suc (a_tick (abs_server s))\<rparr>"
    using start_abs [OF at_once(1)] by (auto simp: abs_server_def)
  then show ?case using store_command_store_script.at_once by simp
next
  case (scripted sc s p s1 i r s2 f)
  obtain m where m: "spec_start E sc (a_cache (abs_server s)) = (Inl p, m)"
    "abs_server s1 = (abs_server s)\<lparr>a_cache := m, a_tick := Suc (a_tick (abs_server s))\<rparr>"
    using start_abs [OF scripted(1)] by (auto simp: abs_server_def)
  have "keeps s s1" using script_tick_keeps [of s E sc] scripted(1) by simp
  then have "store_script E i p (abs_server s1) r (abs_server s2)" using scripted keeps_okD [of s s1] by simp
  then show ?case using store_command_store_script.scripted [OF m(1)] m(2) scripted by simp
next
  case (refused s vs q i k r s2 pcall)
  then have "called E (a_tick (abs_server s)) vs = Inr q" by (simp add: called_now abs_server_def)
  then show ?case using refused by (intro store_command_store_script.refused) simp_all
next
  case (calls s vs c i f j s1 k pcall r s2)
  have c: "called E (a_tick (abs_server s)) vs = Inl c" using calls(1) by (simp add: called_now abs_server_def)
  have "keeps s s1" using exec_command_keeps [OF tame_runs(1) [OF calls(2)]] .
  then have "store_script E i (k (call_answer pcall (Some f))) (abs_server s1) r (abs_server s2)"
    using calls keeps_okD [of s s1] by simp
  then show ?case using store_command_store_script.calls [OF c] calls by blast
qed (rule store_command_store_script.returns store_command_store_script.raises)+

subsection \<open>The server\<close>

text \<open>
  A request on the stores: nothing for no words, an error for words that are no command, and else its
  command; with the replies and the selected database.
\<close>

inductive store_request :: "env \<Rightarrow> string list \<Rightarrow> nat \<Rightarrow> stored \<Rightarrow> frame list \<Rightarrow> nat \<Rightarrow> stored \<Rightarrow> bool" for E where
  blank: "store_request E [] i A [] i A"
| refused: "r \<noteq> [] \<Longrightarrow> parse (e_upper E) (w_wall (e_world E (a_tick A))) r = Err e \<Longrightarrow>
    store_request E r i A [frame_from_error e] i A"
| quit: "r \<noteq> [] \<Longrightarrow> parse (e_upper E) (w_wall (e_world E (a_tick A))) r = Ok (Server Quit) \<Longrightarrow>
    store_request E r i A [frame_ok_reply] i A"
| runs: "r \<noteq> [] \<Longrightarrow> parse (e_upper E) (w_wall (e_world E (a_tick A))) r = Ok c \<Longrightarrow> c \<noteq> Server Quit \<Longrightarrow>
    store_command E c i A f j B \<Longrightarrow> store_request E r i A [f] j B"

definition quits :: "env \<Rightarrow> stored \<Rightarrow> string list \<Rightarrow> bool" where
  "quits E A r \<longleftrightarrow> r \<noteq> [] \<and> parse (e_upper E) (w_wall (e_world E (a_tick A))) r = Ok (Server Quit)"

text \<open>The abstract server: its clients' requests run on the stores one at a time, with evictions in between.\<close>

definition a_evict :: "nat \<Rightarrow> store \<Rightarrow> store" where
  "a_evict now A k = (if live now A k = None then None else A k)"

inductive store_run :: "env \<Rightarrow> stored \<Rightarrow> (nat \<Rightarrow> visit option) \<Rightarrow> bool" for E where
  start: "store_run E \<lparr>a_stores = (\<lambda>_. Map.empty), a_cache = Map.empty, a_tick = 0\<rparr> (\<lambda>_. None)"
| enter: "store_run E A v \<Longrightarrow> v c = None \<Longrightarrow>
    store_run E A (v(c \<mapsto> \<lparr>t_index = 0, t_done = [], t_replies = []\<rparr>))"
| request: "store_run E A v \<Longrightarrow> v c = Some x \<Longrightarrow> store_request E r (t_index x) A out j B \<Longrightarrow>
    store_run E B (v(c \<mapsto> \<lparr>t_index = j, t_done = t_done x @ [r], t_replies = t_replies x @ out\<rparr>))"
| last_request: "store_run E A v \<Longrightarrow> v c = Some x \<Longrightarrow> store_request E r (t_index x) A out j B \<Longrightarrow>
    store_run E B (v(c := None))"
| leave: "store_run E A v \<Longrightarrow> store_run E A (v(c := None))"
| evict: "store_run E A v \<Longrightarrow> store_run E (A\<lparr>a_stores := \<lambda>j. a_evict (w_now (e_world E (a_tick A))) (a_stores A j),
    a_tick := Suc (a_tick A)\<rparr>) v"

text \<open>A request that can be read, and is QUIT or such a command: the guard of the runs the stores explain.\<close>

definition tame :: "env \<Rightarrow> guard" where
  "tame E i s r \<longleftrightarrow> r = [] \<or>
     (case parse_now E s r of
        Panic \<Rightarrow> False | Err e \<Rightarrow> True
      | Ok c \<Rightarrow> c = Server Quit \<or> (\<exists>f j s1. tame_command E c i s f j s1))"

lemma tame_handled: "tame E i s r \<Longrightarrow> \<exists>q j s1. handle_frame E (request_frame r) i s = Some (q, j, s1)"
  using tame_runs(1) by (fastforce simp: tame_def handle_frame_def request_words split: res.splits)

lemma handle_refines:
  assumes ok: "db_ok (s_db s)" "i < length (dbs (s_db s))" and env: "tame_env E" and tame: "tame E i s r"
    and run: "handle_frame E (request_frame r) i s = Some (q, j, s1)"
  shows "\<exists>out. q = (if quits E (abs_server s) r then Close out else Go out) \<and>
    store_request E r i (abs_server s) out j (abs_server s1)"
proof (cases "r = []")
  case True
  then show ?thesis using run by (auto simp: handle_frame_def request_words quits_def intro: store_request.blank)
next
  case r: False
  have p: "parse (e_upper E) (w_wall (e_world E (a_tick (abs_server s)))) r = parse_now E s r"
    by (simp add: parse_now_def the_world_def abs_server_def)
  show ?thesis
  proof (cases "parse_now E s r")
    case (Err e)
    then show ?thesis using run r p store_request.refused [OF r, of E "abs_server s" e i]
      by (auto simp: handle_frame_def request_words quits_def)
  next
    case Panic
    then show ?thesis using tame r by (simp add: tame_def)
  next
    case (Ok c)
    show ?thesis
    proof (cases "c = Server Quit")
      case True
      then show ?thesis using run r Ok p store_request.quit [OF r, of E "abs_server s" i]
        by (auto simp: handle_frame_def request_words quits_def)
    next
      case False
      obtain f k s2 where c: "tame_command E c i s f k s2" using tame r Ok False by (auto simp: tame_def)
      have "handle_frame E (request_frame r) i s = Some (Go [f], k, s2)"
        using r Ok False tame_runs(1) [OF c] by (simp add: handle_frame_def request_words)
      then show ?thesis
        using run store_request.runs [OF r _ False tame_refines(1) [OF env c ok]] p Ok False by (auto simp: quits_def)
    qed
  qed
qed

lemma evict_abs: "db_ok d \<Longrightarrow> abs_all (evict_expired now d) = (\<lambda>j. a_evict now (abs_all d j))"
proof (intro ext)
  fix j k assume ok: "db_ok d"
  show "abs_all (evict_expired now d) j k = a_evict now (abs_all d j) k"
  proof (cases "j < length (dbs d)")
    case True
    let ?l = "dbs d ! j"
    note ok' = db_ok_nth [OF ok True]
    have "hm_get (expiry (ldb_evict_expired now ?l)) k = (if \<exists>x. hm_get (expiry ?l) k = Some x \<and> now \<ge> x then None
        else hm_get (expiry ?l) k)"
      using evicted_keys [OF ldb_okD(2) [OF ok'], of k now] by (auto simp: ldb_evict_expired_def remove_keys_get simp del: set_map)
    then have "abs_ldb (ldb_evict_expired now ?l) k = a_evict now (abs_ldb ?l) k"
      using evict_data [OF ok', of now k] by (auto simp: abs_ldb_def a_evict_def live_def ldb_get_def split: option.splits)
    then show ?thesis using True by (simp add: abs_all_def abs_db_def evict_expired_def)
  qed (simp add: abs_all_def evict_expired_def a_evict_def live_def)
qed

text \<open>Serial runs of such requests are runs of the stores.\<close>

lemma serial_refines_stores:
  assumes "serial_run E (tame E) n s v" "16 \<le> n" "tame_env E"
  shows "store_run E (abs_server s) v"
proof -
  have "store_run E (abs_server s) v \<and> db_ok (s_db s) \<and> length (dbs (s_db s)) = 16 \<and>
    (\<forall>c t. v c = Some t \<longrightarrow> t_index t < 16)"
    using assms(1)
  proof (induction rule: serial_run.induct)
    case start
    have "abs_all (database_new (min n 16)) = (\<lambda>_. Map.empty)"
      by (auto simp: abs_all_def abs_db_def database_new_def ldb_default_def abs_ldb_def fun_eq_iff)
    then have "abs_server (p_server (start_process n)) = \<lparr>a_stores = (\<lambda>_. Map.empty), a_cache = Map.empty, a_tick = 0\<rparr>"
      by (simp add: abs_server_def start_process_def fun_eq_iff)
    then show ?case using assms(2) store_run.start
      by (auto simp: start_process_def database_new_ok) (simp add: database_new_def)
  next
    case (request s v c t r out j s1)
    then have i: "db_ok (s_db s)" "t_index t < length (dbs (s_db s))" by auto
    have "store_request E r (t_index t) (abs_server s) out j (abs_server s1)"
      using handle_refines [OF i assms(3) request.hyps(3,4)] by (auto split: if_splits)
    then have S: "store_run E (abs_server s1)
        (v(c \<mapsto> \<lparr>t_index = j, t_done = t_done t @ [r], t_replies = t_replies t @ out\<rparr>))"
      using request.IH request.hyps(2) by (blast intro: store_run.request)
    show ?case
      using request.IH handle_frame_keeps [OF request.hyps(4)] request.hyps(2) by (intro conjI S) (auto simp: keeps_def)
  next
    case (last_request s v c t r q j s1)
    then have i: "db_ok (s_db s)" "t_index t < length (dbs (s_db s))" by auto
    obtain out where "store_request E r (t_index t) (abs_server s) out j (abs_server s1)"
      using handle_refines [OF i assms(3) last_request.hyps(3,4)] by blast
    then have S: "store_run E (abs_server s1) (v(c := None))"
      using last_request.IH last_request.hyps(2) by (blast intro: store_run.last_request)
    show ?case
      using last_request.IH handle_frame_keeps [OF last_request.hyps(4)] last_request.hyps(2)
      by (intro conjI S) (auto simp: keeps_def)
  next
    case (evict s v)
    have "abs_server (evict_task E s) = (abs_server s)\<lparr>
        a_stores := \<lambda>j. a_evict (w_now (e_world E (a_tick (abs_server s)))) (a_stores (abs_server s) j),
        a_tick := Suc (a_tick (abs_server s))\<rparr>"
      using evict.IH by (simp add: abs_server_def evict_task_def evict_abs the_world_def)
    then show ?case
      using evict.IH store_run.evict [of E "abs_server s" v] evict_task_keeps [of s E] by (simp add: keeps_def)
  next
    case (enter s v c)
    then have S: "store_run E (abs_server s) (v(c \<mapsto> \<lparr>t_index = 0, t_done = [], t_replies = []\<rparr>))"
      by (blast intro: store_run.enter)
    show ?case using enter by (intro conjI S) auto
  next
    case (leave s v c)
    then have S: "store_run E (abs_server s) (v(c := None))" by (blast intro: store_run.leave)
    show ?case using leave by (intro conjI S) auto
  qed
  then show ?thesis ..
qed

text \<open>A script the specification covers: it calls one command and hands back the reply.\<close>

lemma sample_script:
  "tame_command (forward_env False) (Scripting (Eval ''src'' 3 [''SETNX'', ''k'', ''v''] [])) 0
     \<lparr>s_db = one_db [], s_cache = [], s_tick = 0\<rparr> (Integer 1) 0
     \<lparr>s_db = one_db [(''k'', Str ''v'')], s_cache = [], s_tick = 2\<rparr>"
proof -
  let ?E = "forward_env False" and ?s1 = "\<lparr>s_db = one_db [], s_cache = [], s_tick = 1\<rparr>"
  let ?s2 = "\<lparr>s_db = one_db [(''k'', Str ''v'')], s_cache = [], s_tick = 2\<rparr>" and ?c = "OnStr (Setnx ''k'' ''v'')"
  let ?p = "Call False (map LStr [''SETNX'', ''k'', ''v'']) hand_back"
  have u: "utf8_valid ''SETNX''" "utf8_valid ''k''" "utf8_valid ''v''"
    by (rule utf8_valid_ascii, simp add: ascii_def byte_of_def)+
  have p: "call_command ?E ?s1 (map LStr [''SETNX'', ''k'', ''v'']) = Inl ?c"
    by (simp add: call_command_def parse_now_def string_dispatch parse_setnx_def two_args_def u)
  have t: "script_tick ?E (Eval ''src'' 3 [''SETNX'', ''k'', ''v''] []) \<lparr>s_db = one_db [], s_cache = [], s_tick = 0\<rparr> = (Inl ?p, ?s1)"
    by (simp add: script_tick_def script_program_def string_table_def forward_env_def u)
  have "memory_ok 0 (one_db [])" by (simp add: memory_ok_def one_db_simps)
  then have "tame_command ?E ?c 0 ?s1 (Integer 1) 0 ?s2"
    using sample_set [of 0 False 1] by (intro tame_command_tame_script.plain) (simp_all add: numeral_2_eq_2)
  moreover have "tame_script ?E 0 (hand_back (call_answer False (Some (Integer 1)))) ?s2 (Ok (lua_value_to_frame (LInt 1))) ?s2"
    using tame_command_tame_script.returns [of ?E 0 "LInt 1" ?s2] by simp
  ultimately have "tame_script ?E 0 ?p ?s1 (Ok (lua_value_to_frame (LInt 1))) ?s2"
    by (rule tame_command_tame_script.calls [OF p])
  then show ?thesis by (rule tame_command_tame_script.scripted [OF t]) simp
qed

end
