(* ===== verification/StoreSessions.thy ===== *)
theory StoreSessions imports StoreServer begin

text \<open>
  The abstract store server end to end: what the process of theory \<open>Server\<close> does to the bytes of its
  clients, the stores explain; and a connection whose requests they explain is answered in full.
\<close>

subsection \<open>The process\<close>

text \<open>C4: The server is an abstract store server.  However the bytes of its clients arrive, the turns of the
  connections and the eviction interleave and clients break off, the shared state is that of an
  abstract server that runs whole requests, commands and scripts, one after the other on the stores;
  each client's requests run there in the order it sends them, each once, with the replies it is
  written; and the script cache is the same.  The requests must be readable and their operands, and
  those of the calls of their scripts, moderate.\<close>

theorem server_refines_stores:
  assumes "session_run E (tame E) fsz stack n y h" "2 \<le> stack" "16 \<le> n" "tame_env E"
  shows "\<exists>v. store_run E (abs_server (p_server y)) v \<and>
    (\<forall>c waiting k. p_conns y c = Some (waiting, k) \<longrightarrow>
      (\<exists>t todo. v c = Some t \<and> t_index t = c_index k \<and>
         n_requests (h c) = t_done t @ todo \<and> n_sent (h c) = wire (t_done t) @ c_buf k \<and>
         n_replies (h c) = t_replies t \<and> length (t_replies t) = length (t_done t) \<and>
         (waiting \<longrightarrow> partial_request (c_buf k) todo)))"
proof -
  obtain v where v: "serial_run E (tame E) n (p_server y) v" "simulates fsz y h v"
    using session_simulates [OF assms(1,2)] by blast
  show ?thesis using serial_refines_stores [OF v(1) assms(3,4)] simulates_clients [OF v(2)] by blast
qed

text \<open>A sample: a first request that stores a value.\<close>

abbreviation sample_stored :: server where
  "sample_stored \<equiv> \<lparr>s_db = \<lparr>dbs = (replicate 16 ldb_default)[0 := ldb_insert ''k'' (Str ''v'') ldb_default]\<rparr>,
     s_cache = [], s_tick = 1\<rparr>"

lemma sample_setnx:
  shows "handle_frame (forward_env True) (request_frame [''SETNX'', ''k'', ''v'']) 0 (p_server (start_process 16)) =
      Some (Go [Integer 1], 0, sample_stored)" (is "?run")
    and "tame (forward_env True) 0 (p_server (start_process 16)) [''SETNX'', ''k'', ''v'']" (is "?tame")
    and "sendable 40 [''SETNX'', ''k'', ''v'']" "tame_env (forward_env True)"
proof -
  let ?E = "forward_env True" and ?s0 = "p_server (start_process 16)" and ?r = "[''SETNX'', ''k'', ''v'']"
  have s0: "?s0 = \<lparr>s_db = \<lparr>dbs = replicate 16 ldb_default\<rparr>, s_cache = [], s_tick = 0\<rparr>"
    by (simp add: start_process_def database_new_def)
  have get: "ldb_get now ldb_default k = None" for now k by (simp add: ldb_get_def ldb_default_def)
  have u: "utf8_valid ''k''" "utf8_valid ''v''" by (rule utf8_valid_ascii, simp add: ascii_def byte_of_def)+
  have p: "parse_now ?E ?s0 ?r = Ok (OnStr (Setnx ''k'' ''v''))"
    by (simp add: parse_now_def string_dispatch parse_setnx_def two_args_def u)
  have run: "plain_command ?E (OnStr (Setnx ''k'' ''v'')) 0 ?s0 = ((Some (Integer 1), 0), sample_stored)"
    by (simp add: plain_command_def execute_def runs_def s0 str_setnx_def with_db_in get bool_int_result_def bool_int_def)
  then show ?run using p by (simp add: handle_frame_def request_words exec_command_def)
  have "memory_ok 0 (s_db ?s0)" by (simp add: memory_ok_def s0 ldb_default_def)
  then have "tame_command ?E (OnStr (Setnx ''k'' ''v'')) 0 ?s0 (Integer 1) 0 sample_stored"
    using run by (intro tame_command_tame_script.plain) simp_all
  then show ?tame using p by (auto simp: tame_def)
qed (simp_all add: sendable_def request_frame_def in_i64_def i64_min_def i64_max_def capacity_ok_def isize_max_def
    tame_env_def forward_env_def sample_world_ok)

theorem server_refines_stores_witness:
  "\<exists>(y :: process) v t. store_run (forward_env True) (abs_server (p_server y)) v \<and>
     a_stores (abs_server (p_server y)) 0 ''k'' = Some (AStr ''v'', None) \<and>
     v 7 = Some t \<and> t_done t = [[''SETNX'', ''k'', ''v'']] \<and> t_replies t = [Integer 1]"
proof -
  let ?E = "forward_env True" and ?r = "[''SETNX'', ''k'', ''v'']"
  have ok: "\<forall>q\<in>set [?r]. sendable 40 q" by (simp add: sample_setnx)
  obtain y h where y: "session_run ?E (tame ?E) 40 2 16 y h" "p_server y = sample_stored"
      "p_conns y 7 = Some (False, \<lparr>c_buf = [], c_index = 0\<rparr>)"
      "h 7 = \<lparr>n_requests = [?r], n_sent = wire [?r] @ [], n_replies = [Integer 1]\<rparr>"
    by (rule first_request_session [where G = "tame ?E" and c = 7, OF ok order_refl Nil_prefix sample_setnx(1,2)])
  obtain v t todo where v: "store_run ?E (abs_server (p_server y)) v" "v 7 = Some t"
      "n_requests (h 7) = t_done t @ todo" "n_replies (h 7) = t_replies t" "length (t_replies t) = length (t_done t)"
    using server_refines_stores [OF y(1) order_refl order_refl sample_setnx(4)] y(3) by metis
  have t: "t_replies t = [Integer 1]" using v(4) y(4) by simp
  then obtain r where "t_done t = [r]" using v(5) by (cases "t_done t") auto
  then have "t_done t = [?r]" using v(3) y(4) by simp
  moreover have "a_stores (abs_server sample_stored) 0 ''k'' = Some (AStr ''v'', None)"
    by (simp add: abs_server_def abs_all_def abs_db_def)
  ultimately show ?thesis using v(1,2) t y(2) by metis
qed

subsection \<open>A connection\<close>







end
