(* ===== verification/RespGrammar.thy ===== *)
theory RespGrammar imports FrameStream begin

text \<open>
  The grammar of the frames the server reads, and the decoder of \<open>src/proto/mod.rs\<close> against it.  The
  grammar is what the code accepts: integers and lengths in any form \<open>str::parse\<close> takes (a leading \<open>+\<close>,
  leading zeros), any two bytes behind a bulk string, arrays of any frames, a null of either kind, and
  inline commands.
\<close>

subsection \<open>The grammar\<close>

definition text_line :: "string \<Rightarrow> bool" where
  "text_line l \<longleftrightarrow> utf8_valid l \<and> \<not> sublist crlf l"

text \<open>
  The bytes of a frame of at most \<open>d\<close> levels; an array takes one level and has to fit a vector of frames
  of \<open>fsz\<close> bytes.
\<close>

inductive
  frame_bytes :: "nat \<Rightarrow> nat \<Rightarrow> frame \<Rightarrow> string \<Rightarrow> bool" and
  frames_bytes :: "nat \<Rightarrow> nat \<Rightarrow> frame list \<Rightarrow> string \<Rightarrow> bool" for fsz where
  status: "text_line l \<Longrightarrow> frame_bytes fsz (Suc d) (Simple l) (''+'' @ l @ crlf)"
| error: "text_line l \<Longrightarrow> frame_bytes fsz (Suc d) (FError l) (''-'' @ l @ crlf)"
| integer: "text_line l \<Longrightarrow> parse_i64_str l = Some n \<Longrightarrow> frame_bytes fsz (Suc d) (Integer n) ('':'' @ l @ crlf)"
| null_bulk: "text_line l \<Longrightarrow> parse_i64_str l = Some (- 1) \<Longrightarrow> frame_bytes fsz (Suc d) Null (''$'' @ l @ crlf)"
| bulk: "text_line l \<Longrightarrow> parse_i64_str l = Some (int (length b)) \<Longrightarrow> length t = 2 \<Longrightarrow>
    frame_bytes fsz (Suc d) (Bulk b) (''$'' @ l @ crlf @ b @ t)"
| null_array: "text_line l \<Longrightarrow> parse_i64_str l = Some (- 1) \<Longrightarrow> frame_bytes fsz (Suc d) Null (''*'' @ l @ crlf)"
| array: "text_line l \<Longrightarrow> parse_i64_str l = Some (int (length fs)) \<Longrightarrow> capacity_ok fsz (length fs) \<Longrightarrow>
    frames_bytes fsz d fs bs \<Longrightarrow> frame_bytes fsz (Suc d) (Array fs) (''*'' @ l @ crlf @ bs)"
| inline: "text_line (c # l) \<Longrightarrow> c \<notin> set ''+-:$*'' \<Longrightarrow> split_ascii_whitespace (c # l) \<noteq> [] \<Longrightarrow>
    frame_bytes fsz (Suc d) (Array (map Bulk (split_ascii_whitespace (c # l)))) ((c # l) @ crlf)"
| no_frames: "frames_bytes fsz d [] []"
| more_frames: "frame_bytes fsz d f bs \<Longrightarrow> frames_bytes fsz d fs cs \<Longrightarrow> frames_bytes fsz d (f # fs) (bs @ cs)"

subsection \<open>Lines and numbers\<close>

lemma split_crlf_None: "split_crlf s = None \<longleftrightarrow> \<not> sublist crlf s"
  by (induction s rule: split_crlf.induct) (auto simp: crlf_def sublist_Cons_right)

lemma split_crlf_Some: "split_crlf s = Some (l, r) \<longleftrightarrow> s = l @ crlf @ r \<and> \<not> sublist crlf l"
proof
  assume "split_crlf s = Some (l, r)"
  then have "s = l @ crlf @ r \<and> split_crlf l = None"
  proof (induction s arbitrary: l rule: split_crlf.induct)
    case (3 c d s)
    show ?case
    proof (cases "c = CR \<and> d = LF")
      case True
      then show ?thesis using 3(2) by (auto simp: crlf_def)
    next
      case False
      then obtain l' where l: "split_crlf (d # s) = Some (l', r)" "l = c # l'" using 3(2) by auto
      have IH: "d # s = l' @ crlf @ r" "split_crlf l' = None" using 3(1) [OF False l(1)] by auto
      have "split_crlf (c # l') = None"
        using IH False by (cases l') (auto simp: crlf_def)
      then show ?thesis using IH l by simp
    qed
  qed simp_all
  then show "s = l @ crlf @ r \<and> \<not> sublist crlf l" by (simp add: split_crlf_None)
qed (simp add: split_crlf_append split_crlf_None)

lemma read_line_iff: "read_line s = Ok (l, r) \<longleftrightarrow> s = l @ crlf @ r \<and> text_line l"
proof
  assume "read_line s = Ok (l, r)"
  then show "s = l @ crlf @ r \<and> text_line l"
    by (auto simp: read_line_def from_utf8_def text_line_def split_crlf_Some split: option.splits if_splits)
next
  assume l: "s = l @ crlf @ r \<and> text_line l"
  then have "split_crlf s = Some (l, r)" by (subst split_crlf_Some) (simp add: text_line_def)
  then show "read_line s = Ok (l, r)" using l by (simp add: read_line_def from_utf8_def text_line_def)
qed

lemma read_int_iff: "read_int what s = Ok (n, r) \<longleftrightarrow> (\<exists>l. s = l @ crlf @ r \<and> text_line l \<and> parse_i64_str l = Some n)"
  by (auto simp: read_int_def bind_res_Ok_iff read_line_iff split: option.splits)

lemma parsed_in_i64: "parse_i64_str l = Some n \<Longrightarrow> in_i64 n"
  by (auto simp: parse_i64_str_def split: option.splits if_splits)

lemma read_int_range: "read_int what s = Ok (n, r) \<Longrightarrow> in_i64 n"
  by (auto simp: read_int_iff dest: parsed_in_i64)

subsection \<open>The decoder\<close>

lemma bulk_iff:
  "decode_bulk s = Ok (f, r) \<longleftrightarrow> (\<exists>l. text_line l \<and>
     (parse_i64_str l = Some (- 1) \<and> f = Null \<and> s = l @ crlf @ r \<or>
      (\<exists>b t. parse_i64_str l = Some (int (length b)) \<and> length t = 2 \<and> f = Bulk b \<and> s = l @ crlf @ b @ t @ r)))"
proof
  assume "decode_bulk s = Ok (f, r)"
  then obtain n r0 where n: "read_int ''bulk length'' s = Ok (n, r0)"
      "n = - 1 \<and> f = Null \<and> r = r0 \<or> 0 \<le> n \<and> as_usize n + 2 \<le> length r0 \<and>
       f = Bulk (take (as_usize n) r0) \<and> r = drop (as_usize n + 2) r0"
    by (auto simp: decode_bulk_def bind_res_Ok_iff split: if_splits)
  obtain l where l: "s = l @ crlf @ r0" "text_line l" "parse_i64_str l = Some n" using n(1) by (auto simp: read_int_iff)
  have len: "as_usize n = nat n" if "0 \<le> n" using read_int_range [OF n(1)] that by (simp add: as_usize_id)
  have r0: "r0 = take (nat n) r0 @ take 2 (drop (nat n) r0) @ drop (nat n + 2) r0"
    by (metis append_take_drop_id drop_drop add.commute)
  then show "\<exists>l. text_line l \<and>
     (parse_i64_str l = Some (- 1) \<and> f = Null \<and> s = l @ crlf @ r \<or>
      (\<exists>b t. parse_i64_str l = Some (int (length b)) \<and> length t = 2 \<and> f = Bulk b \<and> s = l @ crlf @ b @ t @ r))"
    using n(2)
  proof (elim disjE conjE)
    assume "n = - 1" "f = Null" "r = r0"
    then show ?thesis using l by blast
  next
    assume b: "0 \<le> n" "as_usize n + 2 \<le> length r0" "f = Bulk (take (as_usize n) r0)" "r = drop (as_usize n + 2) r0"
    then have "parse_i64_str l = Some (int (length (take (nat n) r0)))" "length (take 2 (drop (nat n) r0)) = 2"
        "s = l @ crlf @ take (nat n) r0 @ take 2 (drop (nat n) r0) @ r" "f = Bulk (take (nat n) r0)"
      using l len r0 by simp_all
    then show ?thesis using l(2) by blast
  qed
next
  assume "\<exists>l. text_line l \<and>
     (parse_i64_str l = Some (- 1) \<and> f = Null \<and> s = l @ crlf @ r \<or>
      (\<exists>b t. parse_i64_str l = Some (int (length b)) \<and> length t = 2 \<and> f = Bulk b \<and> s = l @ crlf @ b @ t @ r))"
  then obtain l where l: "text_line l"
      "parse_i64_str l = Some (- 1) \<and> f = Null \<and> s = l @ crlf @ r \<or>
       (\<exists>b t. parse_i64_str l = Some (int (length b)) \<and> length t = 2 \<and> f = Bulk b \<and> s = l @ crlf @ b @ t @ r)"
    by blast
  from l(2) show "decode_bulk s = Ok (f, r)"
  proof (elim disjE exE conjE)
    assume "parse_i64_str l = Some (- 1)" "f = Null" "s = l @ crlf @ r"
    then have "read_int ''bulk length'' s = Ok (- 1, r)" using l(1) by (auto simp: read_int_iff)
    then show ?thesis using \<open>f = Null\<close> by (simp add: decode_bulk_def)
  next
    fix b t assume p: "parse_i64_str l = Some (int (length b))" "length t = 2" "f = Bulk b" "s = l @ crlf @ b @ t @ r"
    then have "read_int ''bulk length'' s = Ok (int (length b), b @ t @ r)" using l(1) by (auto simp: read_int_iff)
    moreover have "as_usize (int (length b)) = length b" using parsed_in_i64 [OF p(1)] by (simp add: as_usize_id)
    ultimately show ?thesis using p(2,3) by (simp add: decode_bulk_def)
  qed
qed

lemma inline_iff:
  "decode_inline s = Ok (f, r) \<longleftrightarrow> (\<exists>l. s = l @ crlf @ r \<and> text_line l \<and> split_ascii_whitespace l \<noteq> [] \<and>
     f = Array (map Bulk (split_ascii_whitespace l)))"
  by (auto simp: decode_inline_def bind_res_Ok_iff read_line_iff split: if_splits)

lemma decode_sound:
  "decode_frame fsz d s = Some (Ok (f, r)) \<Longrightarrow> \<exists>bs. s = bs @ r \<and> frame_bytes fsz d f bs"
  "decode_frames fsz d n s = Some (Ok (fs, r)) \<Longrightarrow> \<exists>bs. s = bs @ r \<and> frames_bytes fsz d fs bs \<and> length fs = n"
proof (induction fsz d s and fsz d n s arbitrary: f r and fs r rule: decode_frame_decode_frames.induct)
  case (3 fsz d b s)
  consider "b = CHR ''+''" | "b = CHR ''-''" | "b = CHR '':''" | "b = CHR ''$''" | "b = CHR ''*''"
    | "b \<notin> {CHR ''+'', CHR ''-'', CHR '':'', CHR ''$'', CHR ''*''}" by auto
  then show ?case
  proof cases
    case 1
    then show ?thesis using 3(2) by (auto simp: map_res_Ok_iff read_line_iff dest: frame_bytes_frames_bytes.status)
  next
    case 2
    then show ?thesis using 3(2) by (auto simp: map_res_Ok_iff read_line_iff dest: frame_bytes_frames_bytes.error)
  next
    case 3
    then show ?thesis using \<open>decode_frame fsz (Suc d) (b # s) = _\<close>
      by (auto simp: map_res_Ok_iff read_int_iff dest: frame_bytes_frames_bytes.integer)
  next
    case 4
    then have "decode_bulk s = Ok (f, r)" using 3(2) by simp
    then show ?thesis using 4
      by (auto simp: bulk_iff dest: frame_bytes_frames_bytes.null_bulk frame_bytes_frames_bytes.bulk)
  next
    case b: 5
    obtain cnt r0 where c: "read_int ''array length'' s = Ok (cnt, r0)"
        "cnt = - 1 \<and> f = Null \<and> r = r0 \<or> 0 \<le> cnt \<and> capacity_ok fsz (as_usize cnt) \<and>
         (\<exists>fs. f = Array fs \<and> decode_frames fsz d (as_usize cnt) r0 = Some (Ok (fs, r)))"
      using 3(2) b by (auto simp: bind_call_iff map_call_iff split: if_splits)
    obtain l where l: "s = l @ crlf @ r0" "text_line l" "parse_i64_str l = Some cnt" using c(1) by (auto simp: read_int_iff)
    from c(2) show ?thesis
    proof (elim disjE conjE exE)
      assume "cnt = - 1" "f = Null" "r = r0"
      then show ?thesis using l b frame_bytes_frames_bytes.null_array by fastforce
    next
      fix fs assume a: "0 \<le> cnt" "capacity_ok fsz (as_usize cnt)" "f = Array fs"
        "decode_frames fsz d (as_usize cnt) r0 = Some (Ok (fs, r))"
      obtain bs where bs: "r0 = bs @ r" "frames_bytes fsz d fs bs" "length fs = as_usize cnt"
        using 3(1) [OF _ _ _ _ b, of "(cnt, r0)" cnt r0 fs r] c(1) a b by auto
      have "as_usize cnt = nat cnt" using read_int_range [OF c(1)] a(1) by (simp add: as_usize_id)
      then have "parse_i64_str l = Some (int (length fs))" "capacity_ok fsz (length fs)" using l bs(3) a by simp_all
      from frame_bytes_frames_bytes.array [OF l(2) this bs(2)] show ?thesis using a(3) l bs b by auto
    qed
  next
    case b: 6
    then obtain l where l: "b # s = l @ crlf @ r" "text_line l" "split_ascii_whitespace l \<noteq> []"
        "f = Array (map Bulk (split_ascii_whitespace l))" using 3(2) by (auto simp: inline_iff)
    obtain l' where "l = b # l'" using l(1,3) by (cases l) (auto simp: split_ascii_whitespace_def)
    then show ?thesis using l b frame_bytes_frames_bytes.inline [where c = b and l = l' and d = d]
      by (intro exI [of _ "l @ crlf"]) auto
  qed
next
  case (5 fsz d n s)
  then obtain f r1 fs' where c: "decode_frame fsz d s = Some (Ok (f, r1))" "decode_frames fsz d n r1 = Some (Ok (fs', r))"
      "fs = f # fs'"
    by (auto simp: bind_call_iff map_call_iff)
  then show ?case using 5(1) [OF c(1)] 5(2) [OF c(1) refl c(2)] frame_bytes_frames_bytes.more_frames by fastforce
qed (auto intro: frame_bytes_frames_bytes.no_frames)

lemma decode_complete:
  "frame_bytes fsz d f bs \<Longrightarrow> decode_frame fsz d (bs @ r) = Some (Ok (f, r))"
  "frames_bytes fsz d fs bs \<Longrightarrow> decode_frames fsz d (length fs) (bs @ r) = Some (Ok (fs, r))"
proof (induction arbitrary: r and r rule: frame_bytes_frames_bytes.inducts)
  case (status l d)
  then have "read_line (l @ crlf @ r) = Ok (l, r)" by (simp add: read_line_iff)
  then show ?case by simp
next
  case (error l d)
  then have "read_line (l @ crlf @ r) = Ok (l, r)" by (simp add: read_line_iff)
  then show ?case by simp
next
  case (integer l n d)
  then have "read_int ''integer'' (l @ crlf @ r) = Ok (n, r)" by (auto simp: read_int_iff)
  then show ?case by simp
next
  case (null_bulk l d)
  then have "decode_bulk (l @ crlf @ r) = Ok (Null, r)" by (auto simp: bulk_iff)
  then show ?case by simp
next
  case (bulk l b t d)
  then have "decode_bulk (l @ crlf @ b @ t @ r) = Ok (Bulk b, r)" by (fastforce simp: bulk_iff)
  then show ?case by simp
next
  case (null_array l d)
  then have "read_int ''array length'' (l @ crlf @ r) = Ok (- 1, r)" by (auto simp: read_int_iff)
  then show ?case by simp
next
  case (array l fs d bs)
  then have "read_int ''array length'' (l @ crlf @ bs @ r) = Ok (int (length fs), bs @ r)" by (auto simp: read_int_iff)
  moreover have "as_usize (int (length fs)) = length fs" using parsed_in_i64 [OF array(2)] by (simp add: as_usize_id)
  ultimately show ?case using array by simp
next
  case (inline c l d)
  then have "decode_inline (((c # l) @ crlf) @ r) = Ok (Array (map Bulk (split_ascii_whitespace (c # l))), r)"
    by (auto simp: inline_iff)
  then show ?case using inline(2) by simp
qed simp_all

text \<open>C37: The decoder reads exactly the grammar.  \<open>parse_frame\<close> takes a frame from the front of the buffer if
  and only if the bytes it takes are bytes of this frame, within the depth of the stack, whatever comes
  behind them; and on a buffer that more bytes can complete to a frame it waits, keeping the buffer.\<close>

theorem decoder_reads_grammar:
  "(parse_frame fsz stack buf = Some (Ok (Some f), rest) \<longleftrightarrow> (\<exists>bs. buf = bs @ rest \<and> frame_bytes fsz stack f bs)) \<and>
   (\<forall>t g. t \<noteq> [] \<and> frame_bytes fsz stack g (buf @ t) \<longrightarrow> parse_frame fsz stack buf = Some (Ok None, buf))"
proof -
  have ne: "bs \<noteq> []" if "frame_bytes fsz stack f bs" for bs
    using that by (cases rule: frame_bytes.cases) auto
  have "parse_frame fsz stack buf = Some (Ok (Some f), rest) \<longleftrightarrow> decode_frame fsz stack buf = Some (Ok (f, rest))"
    using decode_complete(1) [of fsz stack f "[]" rest] ne
    by (cases stack) (auto simp: parse_frame_def split: option.splits res.splits if_splits)
  moreover have "decode_frame fsz stack buf = Some (Ok (f, rest)) \<longleftrightarrow> (\<exists>bs. buf = bs @ rest \<and> frame_bytes fsz stack f bs)"
    using decode_sound(1) decode_complete(1) by blast
  moreover have "parse_frame fsz stack buf = Some (Ok None, buf)"
    if t: "t \<noteq> []" "frame_bytes fsz stack g (buf @ t)" for t g
  proof -
    have whole: "decode_frame fsz stack (buf @ t) = Some (Ok (g, []))" using decode_complete(1) [OF t(2), of "[]"] by simp
    have "decode_frame fsz stack buf = Some (Err incomplete)"
    proof (rule ccontr)
      assume "decode_frame fsz stack buf \<noteq> Some (Err incomplete)"
      then have "map_call (\<lambda>(x, r). (x, r @ t)) (decode_frame fsz stack buf) = Some (Ok (g, []))"
        using decode_more(1) [of fsz stack buf t] whole by simp
      then show False using t(1) by (auto simp: map_call_iff)
    qed
    then show ?thesis by (simp add: parse_frame_def)
  qed
  ultimately show ?thesis by blast
qed

theorem decoder_reads_grammar_witness:
  "parse_frame 40 1 ''+OK'' = Some (Ok None, ''+OK'') \<and>
   frame_bytes 40 1 (Simple ''OK'') (''+OK'' @ crlf)"
proof -
  have "split_crlf ''OK'' = None" by code_simp
  then have ok: "\<not> sublist crlf ''OK''" using split_crlf_None by blast
  then have "text_line ''OK''"
    using utf8_valid_ascii [of "''OK''"] by (simp add: text_line_def ascii_def byte_of_def ok)
  then have b: "frame_bytes 40 1 (Simple ''OK'') (''+OK'' @ crlf)"
    using frame_bytes_frames_bytes.status [where l = "''OK''" and d = 0] by simp
  moreover have "crlf \<noteq> []" by (simp add: crlf_def)
  ultimately show ?thesis using decoder_reads_grammar [of 40 1 "''+OK''" "Simple ''OK''" "[]"] by blast
qed

end
