(* ===== verification/Startup.thy ===== *)
theory Startup imports Server begin

text \<open>
  How the process starts and ends: the command line of \<open>src/main.rs\<close>, the configuration and \<open>run\<close> in
  \<open>src/server/mod.rs\<close> with its listener, its eviction task and the end of a connection's task.  The
  steps of the tasks are those of theory \<open>Server\<close>.  A port is a number below 2^16, the other numbers
  are a \<open>usize\<close> and a \<open>u64\<close>; clap refuses anything else.
\<close>

subsection \<open>Configuration\<close>

record cli =
  cli_host :: string
  cli_port :: nat
  cli_databases :: nat
  cli_log_level :: string
  cli_eviction_interval_ms :: nat

definition cli_defaults :: cli where
  "cli_defaults = \<lparr>cli_host = ''127.0.0.1'', cli_port = 6379, cli_databases = 16, cli_log_level = ''info'',
     cli_eviction_interval_ms = 100\<rparr>"

record server_config =
  host :: string
  port :: nat
  db_count :: nat
  eviction_interval_ms :: nat

definition config_default :: server_config where
  "config_default = \<lparr>host = ''127.0.0.1'', port = 6379, db_count = 16, eviction_interval_ms = 100\<rparr>"

definition main_config :: "cli \<Rightarrow> server_config" where
  "main_config c = \<lparr>host = cli_host c, port = cli_port c, db_count = min (cli_databases c) 16,
     eviction_interval_ms = cli_eviction_interval_ms c\<rparr>"

text \<open>The address \<open>run\<close> listens on, and the state it builds before it accepts connections.\<close>

definition listen_addr :: "server_config \<Rightarrow> string" where
  "listen_addr c = host c @ '':'' @ show_nat (port c)"

definition run_start :: "server_config \<Rightarrow> process" where
  "run_start c = \<lparr>p_server = \<lparr>s_db = database_new (db_count c), s_cache = [], s_tick = 0\<rparr>, p_conns = (\<lambda>_. None)\<rparr>"

subsection \<open>The tasks\<close>

text \<open>
  Binding the address is an operation of the runtime: \<open>listen\<close> gives the text of its error, or none.
  \<open>run\<close> returns only with this error, which ends the process; else it serves for ever.
\<close>

definition run :: "(string \<Rightarrow> string option) \<Rightarrow> server_config \<Rightarrow> string + process" where
  "run listen c = (case listen (listen_addr c) of Some e \<Rightarrow> Inl e | None \<Rightarrow> Inr (run_start c))"

datatype main_end = Exits nat string | Serves process

definition main_outcome :: "(string \<Rightarrow> string option) \<Rightarrow> cli \<Rightarrow> main_end" where
  "main_outcome listen c =
     (case run listen (main_config c) of Inl e \<Rightarrow> Exits 1 (''Server error: '' @ e) | Inr y \<Rightarrow> Serves y)"

text \<open>One turn of the listener: a connection, which gets a task of its own, or an error, which is skipped.\<close>

fun accept_turn :: "nat + string \<Rightarrow> process \<Rightarrow> process" where
  "accept_turn (Inl c) y = with_conn y c (Some (True, new_conn)) (p_server y)"
| "accept_turn (Inr e) y = y"

text \<open>
  One turn of the eviction task.  \<open>tokio::time::interval\<close> panics for a period of zero, so that such a
  task has none.
\<close>

definition evict_turn :: "env \<Rightarrow> server_config \<Rightarrow> process \<Rightarrow> process option" where
  "evict_turn E c y = (if eviction_interval_ms c = 0 then None else Some (y\<lparr>p_server := evict_task E (p_server y)\<rparr>))"

text \<open>An error that ends a connection is logged unless its text says that the peer went away.\<close>

definition text_contains :: "string \<Rightarrow> string \<Rightarrow> bool" where
  "text_contains s p \<longleftrightarrow> list_ex (\<lambda>i. take (length p) (drop i s) = p) [0..<Suc (length s)]"

definition error_logged :: "string \<Rightarrow> bool" where
  "error_logged e \<longleftrightarrow> \<not> text_contains e ''connection reset'' \<and> \<not> text_contains e ''eof''"

lemma text_contains_iff: "text_contains s p \<longleftrightarrow> (\<exists>us vs. s = us @ p @ vs)"
proof
  assume "text_contains s p"
  then obtain i where "take (length p) (drop i s) = p" by (auto simp: text_contains_def list_ex_iff simp del: upt_Suc)
  then have "s = take i s @ p @ drop (length p) (drop i s)" by (metis append_take_drop_id)
  then show "\<exists>us vs. s = us @ p @ vs" by blast
next
  assume "\<exists>us vs. s = us @ p @ vs"
  then obtain us vs where "s = us @ p @ vs" by blast
  then have "length us \<in> set [0..<Suc (length s)]" "take (length p) (drop (length us) s) = p" by auto
  then show "text_contains s p" unfolding text_contains_def list_ex_iff by blast
qed

text \<open>The turns are steps of the process, so all its states are as theory \<open>Server\<close> says.\<close>

lemma accept_turn_steps:
  "p_conns y c = None \<Longrightarrow> process_step E fsz stack y (Accept c) (accept_turn (Inl c) y)"
  using process_step.accept [of y c E fsz stack] by simp

lemma evict_turn_steps: "evict_turn E c y = Some z \<Longrightarrow> process_step E fsz stack y Quiet z"
  by (auto simp: evict_turn_def process_step.evict split: if_splits)

subsection \<open>The states of the process\<close>

lemma main_starts: "run_start (main_config c) = start_process (cli_databases c)"
  by (simp add: run_start_def main_config_def start_process_def)

lemma defaults_agree: "main_config cli_defaults = config_default"
  by (simp add: main_config_def cli_defaults_def config_default_def)

text \<open>
  A program: its listener, its eviction task and its connections take turns from the start on.
\<close>

inductive program_run :: "env \<Rightarrow> nat \<Rightarrow> nat \<Rightarrow> server_config \<Rightarrow> process \<Rightarrow> bool" for E fsz stack c where
  start: "program_run E fsz stack c (run_start c)"
| accepted: "program_run E fsz stack c y \<Longrightarrow> p_conns y i = None \<Longrightarrow> program_run E fsz stack c (accept_turn (Inl i) y)"
| not_accepted: "program_run E fsz stack c y \<Longrightarrow> program_run E fsz stack c (accept_turn (Inr e) y)"
| evicts: "program_run E fsz stack c y \<Longrightarrow> evict_turn E c y = Some z \<Longrightarrow> program_run E fsz stack c z"
| serves: "program_run E fsz stack c y \<Longrightarrow> process_step E fsz stack y e z \<Longrightarrow> p_conns y i = Some k \<Longrightarrow>
    p_conns z i \<noteq> Some k \<Longrightarrow> program_run E fsz stack c z"

lemma program_reaches: "program_run E fsz stack (main_config c) y \<Longrightarrow> reachable_process E fsz stack (cli_databases c) y"
proof (induction rule: program_run.induct)
  case start
  show ?case by (simp add: main_starts reachable_process.start)
next
  case (accepted y i)
  then show ?case using reachable_process.step accept_turn_steps by blast
next
  case (evicts y z)
  then show ?case using reachable_process.step evict_turn_steps by blast
next
  case (serves y e z i k)
  then show ?case using reachable_process.step by blast
qed simp

text \<open>
  Whatever the command line, the process ends at once with code 1 or serves; then every state it reaches
  has at most sixteen logical databases, as many as asked for, all well-formed.
\<close>

lemma main_serves:
  "main_outcome listen c = Exits code text \<Longrightarrow> code = 1 \<and> listen (listen_addr (main_config c)) \<noteq> None"
  "main_outcome listen c = Serves y \<Longrightarrow> program_run E fsz stack (main_config c) y"
  by (auto simp: main_outcome_def run_def program_run.start split: option.splits)

lemma main_reaches:
  assumes "program_run E fsz stack (main_config c) y"
  shows "length (dbs (s_db (p_server y))) = db_count (main_config c) \<and> db_ok (s_db (p_server y))"
  using reachable_process_ok [OF program_reaches [OF assms]] by (simp add: process_ok_def main_config_def)

text \<open>With a period of zero nothing is evicted: a key whose deadline has passed keeps its memory.\<close>

lemma zero_period_never_evicts: "eviction_interval_ms c = 0 \<Longrightarrow> evict_turn E c y = None"
  by (simp add: evict_turn_def)

end
