(* ===== verification/Persistence.thy ===== *)
theory Persistence imports Errors begin

text \<open>
  \<open>src/persistence\<close>: the trait \<open>Persistence\<close> and its two implementations, which are stubs.  A method
  with \<open>&self\<close> and no interior mutability cannot change its object, so it is a function of it alone; the
  warnings they log are not modelled.  The rest of the program does not call them.
\<close>

subsection \<open>The append-only file\<close>

datatype fsync_policy = Always | Everysec | No

record aof_config =
  aof_path :: string
  aof_fsync_policy :: fsync_policy
  rewrite_min_size :: nat
  rewrite_percentage :: nat

definition aof_config_default :: aof_config where
  "aof_config_default = \<lparr>aof_path = ''appendonly.aof'', aof_fsync_policy = Everysec,
     rewrite_min_size = 64 * 1024 * 1024, rewrite_percentage = 100\<rparr>"

record aof_persistence =
  aof_config_of :: aof_config

definition aof_new :: "aof_config \<Rightarrow> aof_persistence" where
  "aof_new c = \<lparr>aof_config_of = c\<rparr>"

definition append_command :: "aof_persistence \<Rightarrow> string \<Rightarrow> unit res" where
  "append_command p cmd_bytes = Ok ()"

definition aof_rewrite :: "aof_persistence \<Rightarrow> unit res" where
  "aof_rewrite p = Err (Generic ''ERR AOF rewrite not implemented'')"

definition aof_save :: "aof_persistence \<Rightarrow> unit res" where
  "aof_save p = Err (Generic ''ERR AOF persistence not implemented'')"

definition aof_load :: "aof_persistence \<Rightarrow> unit res" where
  "aof_load p = Err (Generic ''ERR AOF persistence not implemented'')"

definition aof_last_save :: "aof_persistence \<Rightarrow> nat" where
  "aof_last_save p = 0"

subsection \<open>The snapshot\<close>

record rdb_config =
  rdb_path :: string
  save_rules :: "(nat \<times> nat) list"

definition rdb_config_default :: rdb_config where
  "rdb_config_default = \<lparr>rdb_path = ''dump.rdb'', save_rules = [(3600, 1), (300, 100), (60, 10000)]\<rparr>"

record rdb_persistence =
  rdb_config_of :: rdb_config
  rdb_saved :: nat

text \<open>\<open>wall\<close> is the system clock in seconds, 0 when it stands before 1970.\<close>

definition rdb_new :: "nat \<Rightarrow> rdb_config \<Rightarrow> rdb_persistence" where
  "rdb_new wall c = \<lparr>rdb_config_of = c, rdb_saved = wall\<rparr>"

definition rdb_save :: "rdb_persistence \<Rightarrow> unit res" where
  "rdb_save p = Err (Generic ''ERR RDB persistence not implemented'')"

definition rdb_load :: "rdb_persistence \<Rightarrow> unit res" where
  "rdb_load p = Err (Generic ''ERR RDB persistence not implemented'')"

definition rdb_last_save :: "rdb_persistence \<Rightarrow> nat" where
  "rdb_last_save p = rdb_saved p"

subsection \<open>The trait\<close>

text \<open>
  What the trait offers its callers, and what both stubs keep: they refuse to save and to load, with a
  text.  So a caller that believes a success only after a success never takes its data for saved.
\<close>

locale stub_backend =
  fixes save :: "'p \<Rightarrow> unit res" and load :: "'p \<Rightarrow> unit res" and last_save :: "'p \<Rightarrow> nat"
  assumes save_refused: "\<exists>msg. save p = Err (Generic msg)" and load_refused: "\<exists>msg. load p = Err (Generic msg)"
begin

lemma never_saved: "save p \<noteq> Ok ()" "load p \<noteq> Ok ()" "save p \<noteq> Panic" "load p \<noteq> Panic"
  using save_refused [of p] load_refused [of p] by auto

end

interpretation aof: stub_backend aof_save aof_load aof_last_save
  by unfold_locales (simp_all add: aof_save_def aof_load_def)

interpretation rdb: stub_backend rdb_save rdb_load rdb_last_save
  by unfold_locales (simp_all add: rdb_save_def rdb_load_def)

text \<open>
  Two answers that say more than was done: a command appended to the file is not written anywhere, and a
  snapshot reports the time the process started as the time of its last success.
\<close>

lemma append_pretends: "append_command p cmd_bytes = Ok () \<and> aof_last_save p = 0"
  by (simp add: append_command_def aof_last_save_def)

lemma last_save_pretends: "rdb_last_save (rdb_new wall c) = wall \<and> rdb_save (rdb_new wall c) \<noteq> Ok ()"
  by (simp add: rdb_last_save_def rdb_new_def rdb.never_saved)

end
