(* ===== verification/ErrorLaws.thy ===== *)
theory ErrorLaws imports Exec begin

text \<open>
  What a command that fails leaves behind.  A step that answers an error is shown to be calm, from the
  shapes the operations share (\<open>on_entry\<close>, \<open>on_stored\<close>, \<open>get_list_mut\<close>) up to whole commands.
\<close>

subsection \<open>What an error leaves\<close>

text \<open>
  Every key keeps its value and its deadline, except that one past its deadline may be gone: some
  operations drop it on the way.
\<close>

definition calm_db :: "nat \<Rightarrow> logical_db \<Rightarrow> logical_db \<Rightarrow> bool" where
  "calm_db now l l' \<longleftrightarrow>
     (\<forall>k. slot l' k = slot l k \<or> ldb_is_expired now l k \<and> slot l' k = (None, None))"

definition calm :: "nat \<Rightarrow> database \<Rightarrow> database \<Rightarrow> bool" where
  "calm now d d' \<longleftrightarrow>
     length (dbs d') = length (dbs d) \<and> (\<forall>j<length (dbs d). calm_db now (dbs d ! j) (dbs d' ! j))"

lemma calm_refl [simp]: "calm_db now l l" "calm now d d"
  by (simp_all add: calm_db_def calm_def)

text \<open>A step on a logical database that is calm when it fails.\<close>

definition calm_step :: "nat \<Rightarrow> (logical_db \<Rightarrow> 'a res \<times> logical_db) \<Rightarrow> bool" where
  "calm_step now f \<longleftrightarrow> (\<forall>l e. ldb_ok l \<longrightarrow> fst (f l) = Err e \<longrightarrow> calm_db now l (snd (f l)))"

named_theorems calm_rules "steps that are calm when they fail"

lemma calm_with_db:
  assumes f: "calm_step now f" and ok: "db_ok d" and e: "fst (with_db i d f) = Err e"
  shows "calm now d (snd (with_db i d f))"
proof (cases "i < length (dbs d)")
  case True
  then have "calm_db now (dbs d ! i) (snd (f (dbs d ! i)))"
    using f e db_ok_nth [OF ok] by (simp add: calm_step_def db_simps)
  then show ?thesis using True by (auto simp: calm_def with_db_in nth_list_update)
qed (simp add: with_db_def)

lemma calm_no_error: "(\<And>l e. fst (f l) \<noteq> Err e) \<Longrightarrow> calm_step now f"
  by (simp add: calm_step_def)

lemma calm_stored [calm_rules]:
  "(\<And>e. absent \<noteq> Err e) \<Longrightarrow> (\<And>x e. fst (f x) \<noteq> Err e) \<Longrightarrow> calm_step now (on_stored un mk none_left absent key f)"
  by (auto simp: calm_step_def on_stored_def case_prod_beta split: option.splits)

context value_kind
begin

lemma calm_entry:
  assumes "\<And>e. fst (f fresh) \<noteq> Err e" "\<And>x e. fst (f x) = Err e \<Longrightarrow> snd (f x) = x"
  shows "calm_step now (on_entry goc mk key f)"
  unfolding calm_step_def
proof (intro allI impI)
  fix l e assume e: "fst (on_entry goc mk key f l) = Err e"
  show "calm_db now l (snd (on_entry goc mk key f l))"
  proof (cases rule: kind_cases [of l key])
    case (there x)
    then show ?thesis using e assms(2) [of x e] by (simp add: entry_there calm_db_def slot_accesses, simp add: slot_def)
  next
    case absent
    then show ?thesis using e assms(1) by (simp add: entry_absent)
  qed (simp add: entry_other)
qed

end

lemmas [calm_rules] = str0.calm_entry lists.calm_entry hashes.calm_entry sets.calm_entry zsets.calm_entry

lemma calm_list_mut [calm_rules]:
  assumes "\<And>xs e. fst (f xs) = Err e \<Longrightarrow> snd (f xs) = xs"
  shows "calm_step now (get_list_mut now absent key f)"
  unfolding calm_step_def
proof (intro allI impI)
  fix l e assume e: "fst (get_list_mut now absent key f l) = Err e"
  show "calm_db now l (snd (get_list_mut now absent key f l))"
  proof (cases "ldb_is_expired now l key")
    case True
    then show ?thesis
      by (auto simp: get_list_mut_def ldb_get_mut_def calm_db_def slot_def hm_get_remove)
  next
    case False
    then show ?thesis
      using e assms
      by (auto simp: get_list_mut_def ldb_get_mut_def calm_db_def case_prod_beta slot_accesses
          split: option.splits rudis_object.splits) (auto simp: slot_def)
  qed
qed

lemma calm_rename [calm_rules]:
  "calm_step now (\<lambda>l. case ldb_remove src l of
     (None, l1) \<Rightarrow> (Err NoSuchKey, l1) | (Some v, l1) \<Rightarrow> (Ok u, ldb_insert dst v l1))"
proof -
  have "slot (snd (ldb_remove src l)) k = slot l k" if "ldb_ok l" "hm_get (data l) src = None" for l k
    using that ldb_okD(3) [OF that(1), of src] by (cases "hm_get (expiry l) src") (auto simp: slot_def ldb_remove_def hm_get_remove)
  then show ?thesis by (auto simp: calm_step_def calm_db_def ldb_remove_def split: option.splits)
qed

lemma calm_unless [calm_rules]:
  "calm_step now f \<Longrightarrow> calm_step now (\<lambda>l. if b l then (Ok r, l) else f l)"
  by (simp add: calm_step_def)

subsection \<open>Operations that may fail\<close>

lemma incr_zero: "in_i64 n \<Longrightarrow> \<exists>r. incr_value ''0'' n = Ok r"
proof -
  have "from_utf8 ''0'' = Some ''0''" "parse_i64_str (trim ''0'') = Some 0" by code_simp+
  then show "in_i64 n \<Longrightarrow> \<exists>r. incr_value ''0'' n = Ok r" by (simp add: incr_value_def checked_add_i64_def)
qed

lemma float_zero: "parse_float_value ''0'' = Ok (Fin 0)"
  by code_simp

lemma zadd_loop_no_error:
  "\<forall>(s, m)\<in>set ms. \<not> is_nan s \<Longrightarrow> fst (zadd_loop coins nx xx gt lt ch ms n z) \<noteq> Err e"
  by (induction coins nx xx gt lt ch ms n z rule: zadd_loop.induct) (auto split: option.splits)

definition honest :: "nat \<Rightarrow> database \<Rightarrow> 'a res \<times> database \<Rightarrow> bool" where
  "honest now d p \<longleftrightarrow> (\<forall>e. fst p = Err e \<longrightarrow> calm now d (snd p))"

definition honest_reply :: "nat \<Rightarrow> database \<Rightarrow> frame option \<times> database \<Rightarrow> bool" where
  "honest_reply now d p \<longleftrightarrow> (\<forall>e. fst p = Some (FError e) \<longrightarrow> calm now d (snd p))"

text \<open>A reply builder that sends an error frame for an error only.\<close>

definition faithful :: "('a res \<Rightarrow> frame option) \<Rightarrow> bool" where
  "faithful g \<longleftrightarrow> (\<forall>r e. g r = Some (FError e) \<longrightarrow> (\<exists>er. r = Err er))"

lemma faithfulI: "(\<And>x e. g (Ok x) \<noteq> Some (FError e)) \<Longrightarrow> g Panic = None \<Longrightarrow> faithful g"
  unfolding faithful_def by (metis option.distinct(1) res.exhaust)

lemmas reply_builders = int_result_def ok_result_def bool_int_result_def null_or_bulk_def bulk_array_def
  len_result_def opt_bulk_array_def exec_pop_result_def one_or_array_def

lemmas frame_builders = frame_ok_reply_def bool_int_def opt_bulk_def float_bulk_def opt_int_def pair_frames_def
  build_member_score_array_def popped_pairs_def

lemma faithful_builders [simp]:
  "faithful int_result" "faithful ok_result" "faithful bool_int_result" "faithful null_or_bulk"
  "faithful bulk_array" "faithful len_result" "faithful (\<lambda>r. ok_result (map_res h r))"
  "faithful (\<lambda>r. exec_pop_result r b)" "faithful (\<lambda>r. one_or_array r b)"
  "faithful (reply float_bulk)" "faithful (reply popped_pairs)"
  by (rule faithfulI; auto simp: reply_builders frame_builders split: option.splits list.splits if_splits)+

lemma honest_with_db: "calm_step now f \<Longrightarrow> db_ok d \<Longrightarrow> honest now d (with_db i d f)"
  by (auto simp: honest_def dest: calm_with_db)

lemma honest_runs: "honest now d p \<Longrightarrow> faithful g \<Longrightarrow> honest_reply now d (runs g p)"
  by (auto simp: honest_def honest_reply_def faithful_def runs_def)

lemma honest_reads [simp]: "honest_reply now d (reads g r d)"
  by (simp add: honest_reply_def reads_def)

lemma honest_same [simp]: "honest now d (r, d)" "honest_reply now d (q, d)"
  by (simp_all add: honest_def honest_reply_def)

subsection \<open>The commands\<close>

lemma keyspace_honest:
  assumes "db_ok d"
  shows "honest now d (del i d ks)" "honest now d (rename i d src dst)" "honest now d (renamenx now i d src dst)"
    "honest now d (expire now i d k n)" "honest now d (pexpire now i d k n)"
    "honest now d (expireat now wall i d k n)" "honest now d (pexpireat now wall i d k n)" "honest now d (persist i d k)"
proof -
  show "honest now d (rename i d src dst)" "honest now d (renamenx now i d src dst)"
    unfolding rename_def renamenx_def by (intro honest_with_db [OF _ assms] calm_unless calm_rename)+
qed (simp_all add: del_def expire_def pexpire_def expireat_def pexpireat_def persist_def expire_at_target_def
      ldb_set_expiry_def case_prod_beta honest_with_db calm_no_error assms split: option.split)

lemma key_honest: "db_ok d \<Longrightarrow> honest_reply (w_now w) d (exec_key w c i d)"
  by (cases c) (auto intro!: honest_runs keyspace_honest)

text \<open>
  The commands that fail without a trace: increments are 64-bit integers (as parsed ones are), those of
  INCRBYFLOAT finite numbers, scores and the increments of HINCRBYFLOAT numbers.  GETDEL, LMOVE and
  SMOVE can fail after they have changed something.
\<close>

fun steady :: "command \<Rightarrow> bool" where
  "steady (OnStr (GetDel k)) = False"
| "steady (OnStr (IncrBy k n)) = in_i64 n"
| "steady (OnStr (IncrByFloat k x)) = (\<not> is_nan (f_add (Fin 0) x) \<and> \<not> is_infinite (f_add (Fin 0) x))"
| "steady (OnList (LMove src dst a b)) = False"
| "steady (OnHash (HIncrBy k f n)) = in_i64 n"
| "steady (OnHash (HIncrByFloat k f x)) = (\<not> is_nan (f_add (Fin 0) x))"
| "steady (OnSet (SMove src dst m)) = False"
| "steady (OnZSet (ZAdd a)) = (\<forall>(s, m)\<in>set (za_members a). \<not> is_nan s)"
| "steady (OnZSet (ZIncrBy k x m)) = (\<not> is_nan (f_add (Fin 0) x))"
| "steady _ = True"

lemma insert_str_no_error [simp]: "fst (insert_str now k v dur r l) \<noteq> Err e"
  by (auto simp: insert_str_def ldb_set_expiry_def split: option.splits)

lemma map_res_Err [simp]: "map_res f r = Err e \<longleftrightarrow> r = Err e"
  by (cases r) simp_all

lemma string_honest:
  assumes "db_ok d"
  shows "honest now d (str_set now i d k v dur)" "honest now d (str_setnx now i d k v)"
    "honest now d (str_setxx now i d k v dur)" "honest now d (str_getset now i d k v)"
    "honest now d (mset_pairs i d ps)" "honest now d (msetnx now i d ps)" "honest now d (str_append i d k v)"
    "honest now d (str_setrange i d k off v)"
proof -
  show "honest now d (str_set now i d k v dur)" for dur
    unfolding str_set_def by (intro honest_with_db [OF _ assms] calm_no_error insert_str_no_error)
  then show "honest now d (str_getset now i d k v)"
    by (auto simp: str_getset_def honest_def case_prod_beta split: res.splits)
  show "honest now d (str_setxx now i d k v dur)" "honest now d (str_setnx now i d k v)" "honest now d (msetnx now i d ps)"
    "honest now d (mset_pairs i d ps)"
    by (auto simp: str_setxx_def str_setnx_def msetnx_def mset_pairs_def intro!: honest_with_db [OF _ assms] calm_no_error
        split: if_splits)
  show "honest now d (str_append i d k v)" unfolding str_append_def
    by (intro honest_with_db [OF _ assms] str0.calm_entry) simp_all
  show "honest now d (str_setrange i d k off v)" unfolding str_setrange_def
    by (intro honest_with_db [OF _ assms] str0.calm_entry) (auto simp: setrange_value_def Let_def split: if_splits)
qed

lemma incr_honest:
  assumes "db_ok d"
  shows "in_i64 n \<Longrightarrow> honest now d (str_incr i d k n)"
    "\<not> is_nan (f_add (Fin 0) x) \<Longrightarrow> \<not> is_infinite (f_add (Fin 0) x) \<Longrightarrow> honest now d (str_incr_float i d k x)"
    "in_i64 n \<Longrightarrow> honest now d (hincrby i d k f n)"
    "\<not> is_nan (f_add (Fin 0) x) \<Longrightarrow> honest now d (hincrbyfloat i d k f x)"
proof -
  show "honest now d (str_incr i d k n)" if "in_i64 n"
    unfolding str_incr_def
    by (intro honest_with_db [OF _ assms] str0.calm_entry) (use incr_zero [OF that] in \<open>auto split: res.splits\<close>)
  show "honest now d (str_incr_float i d k x)" if "\<not> is_nan (f_add (Fin 0) x)" "\<not> is_infinite (f_add (Fin 0) x)"
    unfolding str_incr_float_def
    by (intro honest_with_db [OF _ assms] str0.calm_entry)
       (use that float_zero in \<open>auto simp: Let_def split: res.splits if_splits\<close>)
  show "honest now d (hincrby i d k f n)" if "in_i64 n"
    unfolding hincrby_def
    by (intro honest_with_db [OF _ assms] hashes.calm_entry)
       (use incr_zero [OF that] in \<open>auto simp: field_entry_def split: res.splits option.splits\<close>)
  show "honest now d (hincrbyfloat i d k f x)" if "\<not> is_nan (f_add (Fin 0) x)"
    unfolding hincrbyfloat_def
    by (intro honest_with_db [OF _ assms] hashes.calm_entry)
       (use that float_zero in \<open>auto simp: field_entry_def Let_def split: res.splits option.splits if_splits\<close>)
qed

lemma list_honest:
  assumes "db_ok d"
  shows "honest now d (lpush i d k vs)" "honest now d (rpush i d k vs)"
    "honest now d (lpushx now i d k vs)" "honest now d (rpushx now i d k vs)"
    "honest now d (lpop i d k n)" "honest now d (rpop i d k n)" "honest now d (lset now i d k m v)"
    "honest now d (linsert now i d k b p v)" "honest now d (lrem now i d k m v)" "honest now d (ltrim i d k a z)"
  unfolding lpush_def rpush_def lpushx_def rpushx_def lpop_def rpop_def lset_def linsert_def lrem_def ltrim_def
  by (intro honest_with_db [OF _ assms] lists.calm_entry calm_list_mut calm_stored;
      auto simp: Let_def split: if_splits prod.splits option.splits)+

lemma hash_honest:
  assumes "db_ok d"
  shows "honest now d (hset i d k fs)" "honest now d (hsetnx i d k f v)" "honest now d (hdel i d k ks)"
  unfolding hset_def hsetnx_def hdel_def
  by (intro honest_with_db [OF _ assms] hashes.calm_entry calm_stored; auto split: if_splits prod.splits)+

lemma set_honest:
  assumes "db_ok d"
  shows "honest now d (sadd i d k ms)" "honest now d (srem i d k ms)" "honest now d (spop sample i d k n)"
    "honest now d (store_set i d k r)"
proof -
  show "honest now d (store_set i d k r)"
    by (cases r) (auto simp: store_set_def intro!: honest_with_db [OF _ assms] calm_no_error)
qed (unfold sadd_def srem_def spop_def,
     (intro honest_with_db [OF _ assms] sets.calm_entry calm_stored; auto split: prod.splits option.splits)+)

lemma zset_honest:
  assumes "db_ok d"
  shows "\<forall>(s, m)\<in>set ms. \<not> is_nan s \<Longrightarrow> honest now d (zadd coins i d k ms nx xx gt lt ch)"
    "\<not> is_nan (f_add (Fin 0) x) \<Longrightarrow> honest now d (zincrby bits i d k x m)"
    "honest now d (zrem i d k ks)" "honest now d (zremrangebyscore i d k mn mx)"
    "honest now d (zremrangebyrank i d k a b)" "honest now d (zpopmin i d k n)" "honest now d (zpopmax i d k n)"
proof -
  show "honest now d (zadd coins i d k ms nx xx gt lt ch)" if "\<forall>(s, m)\<in>set ms. \<not> is_nan s"
    unfolding zadd_def
    by (intro honest_with_db [OF _ assms] zsets.calm_entry) (use zadd_loop_no_error [OF that] in auto)
  show "honest now d (zincrby bits i d k x m)" if "\<not> is_nan (f_add (Fin 0) x)"
    unfolding zincrby_def
    by (intro honest_with_db [OF _ assms] zsets.calm_entry)
       (use that in \<open>auto simp: Let_def z_new_def split: if_splits option.splits\<close>)
qed (unfold zrem_def zremrangebyscore_def zremrangebyrank_def zpopmin_def zpopmax_def,
     (intro honest_with_db [OF _ assms] calm_stored; auto simp: run_zset_def split: option.splits)+)

lemma set_new_honest: "db_ok d \<Longrightarrow> honest now d (set_new w a i d)"
proof -
  assume ok: "db_ok d"
  have "calm now d d1" if "str_setnx (w_now w) i d (sa_key a) (sa_value a) = (Err e, d1)" for e d1
    using that string_honest(2) [OF ok, of "w_now w" i "sa_key a" "sa_value a"]
    by (auto simp: honest_def str_setnx_def with_db_def split: if_splits)
  then show ?thesis
    by (auto simp: honest_def set_new_def split: res.splits bool.splits option.splits prod.splits)
qed

lemma exec_set_honest: "db_ok d \<Longrightarrow> honest_reply (w_now w) d (exec_set w a i d)"
proof -
  assume ok: "db_ok d"
  let ?set = "if sa_nx a then set_new w a i d
      else if sa_xx a then str_setxx (w_now w) i d (sa_key a) (sa_value a) (sa_expire a)
      else (case str_set (w_now w) i d (sa_key a) (sa_value a) (sa_expire a) of (r, d1) \<Rightarrow> (map_res (\<lambda>_. True) r, d1))"
  have p: "honest (w_now w) d ?set"
    using set_new_honest [OF ok] string_honest(3) [OF ok] string_honest(1) [OF ok, of "w_now w" i "sa_key a"]
    by (simp add: honest_def case_prod_beta)
  have r: "honest_reply (w_now w) d (runs (reply (\<lambda>stored. if stored then (if sa_get a then opt_bulk old
      else frame_ok_reply) else Null)) ?set)" for old
    by (rule honest_runs [OF p]) (auto intro!: faithfulI simp: frame_builders split: option.splits if_splits)
  show ?thesis
  proof (cases "if sa_get a then str_get (w_now w) i d (sa_key a) else Ok None")
    case (Ok old)
    then show ?thesis using r [of old] by (simp only: exec_set_def res.case)
  qed (simp_all only: exec_set_def res.case honest_same)
qed

lemma exec_getex_honest: "honest_reply (w_now w) d (exec_getex w a i d)"
  by (auto simp: exec_getex_def honest_reply_def split: res.splits option.splits prod.splits)

lemma string_cmd_honest: "db_ok d \<Longrightarrow> steady (OnStr c) \<Longrightarrow> honest_reply (w_now w) d (exec_string w c i d)"
proof (cases c)
  case (DecrBy k n)
  have "in_i64 (wrap_i64 (- n))" by (simp add: wrap_i64_def in_i64_def i64_min_def i64_max_def)
  then show "db_ok d \<Longrightarrow> ?thesis" using DecrBy by (auto intro!: honest_runs incr_honest)
qed (auto intro!: honest_runs string_honest incr_honest exec_set_honest exec_getex_honest
      simp: in_i64_def i64_min_def i64_max_def)

lemma list_cmd_honest: "db_ok d \<Longrightarrow> steady (OnList c) \<Longrightarrow> honest_reply (w_now w) d (exec_list w c i d)"
  by (cases c) (auto intro!: honest_runs list_honest)

lemma hash_cmd_honest: "db_ok d \<Longrightarrow> steady (OnHash c) \<Longrightarrow> honest_reply (w_now w) d (exec_hash w c i d)"
  by (cases c) (auto intro!: honest_runs hash_honest incr_honest)

lemma set_cmd_honest: "db_ok d \<Longrightarrow> steady (OnSet c) \<Longrightarrow> honest_reply (w_now w) d (exec_set_cmd w c i d)"
  by (cases c) (auto intro!: honest_runs set_honest simp: sunionstore_def sinterstore_def sdiffstore_def)

lemma honest_with_bounds:
  "(\<And>b1 b2. honest_reply now d (f b1 b2)) \<Longrightarrow> honest_reply now d (with_bounds r1 r2 d f)"
  by (auto simp: with_bounds_def split: res.splits prod.splits)

lemma zset_cmd_honest: "db_ok d \<Longrightarrow> steady (OnZSet c) \<Longrightarrow> honest_reply (w_now w) d (exec_zset w c i d)"
  by (cases c) (auto intro!: honest_runs honest_with_bounds zset_honest)

lemma server_honest:
  "honest_reply now d (fst (exec_server w c i d)) \<and>
   (snd (exec_server w c i d) = i \<or> fst (fst (exec_server w c i d)) = Some frame_ok_reply)"
  by (cases c)
     (auto simp: flushdb_def frame_builders runs_def ok_result_def with_db_def honest_reply_def split: if_splits)

lemma execute_honest:
  assumes "steady c" "\<And>s. c \<noteq> Scripting s" "db_ok d"
  shows "honest_reply (w_now w) d (fst (execute script w c i d))"
  using assms(1,2)
  by (cases c) (auto simp add: execute_def server_honest key_honest string_cmd_honest list_cmd_honest hash_cmd_honest
      set_cmd_honest zset_cmd_honest assms(3))

lemma execute_index:
  assumes "\<And>s. c \<noteq> Scripting s" "fst (fst (execute script w c i d)) \<noteq> Some frame_ok_reply"
  shows "snd (execute script w c i d) = i"
  using assms server_honest [of _ d w _ i] by (cases c) (auto simp: execute_def)

text \<open>C10: A command that answers an error has changed nothing: every key of every logical database keeps its
  value and its deadline, but that a key past its deadline may have been dropped.  Left out are the
  scripting commands (the calls a script has made before it fails stay), GETDEL, LMOVE and SMOVE, ZADD,
  ZINCRBY and HINCRBYFLOAT with a score or increment that is not a number, and INCRBYFLOAT with one that
  is not a number or infinite: these can fail after they have changed something.  Integer increments
  have 64 bits, as those the parser gives have.\<close>
theorem errors_change_nothing:
  assumes "steady c" "\<forall>s. c \<noteq> Scripting s" "db_ok d"
    and ran: "execute script w c i d = ((Some (FError e), d'), j)"
  shows "j = i \<and> length (dbs d') = length (dbs d) \<and>
    (\<forall>n k. n < length (dbs d) \<longrightarrow> slot (dbs d' ! n) k = slot (dbs d ! n) k \<or>
       ldb_is_expired (w_now w) (dbs d ! n) k \<and> slot (dbs d' ! n) k = (None, None))"
  using execute_honest [of c d w script i] execute_index [of c script w i d] assms
  by (auto simp: honest_reply_def calm_def calm_db_def frame_ok_reply_def)

theorem errors_change_nothing_witness:
  "slot (dbs (snd (fst (execute (\<lambda>s i d. (None, d)) sample_world (OnList (LPush ''k'' [''a''])) 0
      (one_db [(''k'', Str ''v'')])))) ! 0) ''k'' = (Some (Str ''v''), None)"
proof -
  let ?d = "one_db [(''k'', Str ''v'')]"
  have ok: "db_ok ?d" by (rule one_db_ok) auto
  have ran: "execute (\<lambda>s i d. (None, d)) sample_world (OnList (LPush ''k'' [''a''])) 0 ?d =
      ((Some (FError (err_to_string WrongType)), ?d), 0)"
    by (simp add: execute_def lpush_def with_db_def one_db_def lists.entry_other un_list_def hm_get_def runs_def
        len_result_def int_result_def frame_from_error_def)
  show ?thesis
    using errors_change_nothing [OF _ _ ok ran] by (simp add: ran ldb_is_expired_def slot_def one_db_simps)
qed

end
