(* ===== verification/KindLaws.thy ===== *)
theory KindLaws imports ErrorLaws begin

text \<open>
  The kinds of values as a type discipline of the commands: which kind each command needs its keys to
  hold, and that it refuses a key that holds another kind.
\<close>

subsection \<open>The kind a command needs\<close>

text \<open>
  The keys a command reads or changes as a value of one kind, with the name of the kind.  MGET answers
  null for another kind; SET, MSET, SETNX and their like replace a value of any kind; the destinations
  of LMOVE, SMOVE and the store commands are not looked at first.
\<close>

fun string_needs :: "string_cmd \<Rightarrow> string set" where
  "string_needs (CSet a) = (if sa_get a then {sa_key a} else {})"
| "string_needs (Get k) = {k}"
| "string_needs (GetSet k v) = {k}"
| "string_needs (GetDel k) = {k}"
| "string_needs (GetEx a) = {ga_key a}"
| "string_needs (Incr k) = {k}"
| "string_needs (IncrBy k n) = {k}"
| "string_needs (IncrByFloat k x) = {k}"
| "string_needs (Decr k) = {k}"
| "string_needs (DecrBy k n) = {k}"
| "string_needs (CAppend k v) = {k}"
| "string_needs (Strlen k) = {k}"
| "string_needs (GetRange k a b) = {k}"
| "string_needs (SetRange k off v) = {k}"
| "string_needs _ = {}"

fun list_needs :: "list_cmd \<Rightarrow> string set" where
  "list_needs (LPush k vs) = {k}"
| "list_needs (RPush k vs) = {k}"
| "list_needs (LPushX k vs) = {k}"
| "list_needs (RPushX k vs) = {k}"
| "list_needs (LPop k n) = {k}"
| "list_needs (RPop k n) = {k}"
| "list_needs (LLen k) = {k}"
| "list_needs (LRange k a b) = {k}"
| "list_needs (LIndex k n) = {k}"
| "list_needs (LSet k n v) = {k}"
| "list_needs (LInsert k b p v) = {k}"
| "list_needs (LRem k n v) = {k}"
| "list_needs (LTrim k a b) = {k}"
| "list_needs (LMove src dst a b) = {src}"

fun hash_needs :: "hash_cmd \<Rightarrow> string set" where
  "hash_needs (HSet k fs) = {k}"
| "hash_needs (HSetnx k f v) = {k}"
| "hash_needs (HGet k f) = {k}"
| "hash_needs (HMGet k fs) = {k}"
| "hash_needs (HMSet k fs) = {k}"
| "hash_needs (HDel k fs) = {k}"
| "hash_needs (HExists k f) = {k}"
| "hash_needs (HGetAll k) = {k}"
| "hash_needs (HKeys k) = {k}"
| "hash_needs (HVals k) = {k}"
| "hash_needs (HLen k) = {k}"
| "hash_needs (HIncrBy k f n) = {k}"
| "hash_needs (HIncrByFloat k f x) = {k}"

fun set_needs :: "set_cmd \<Rightarrow> string set" where
  "set_needs (SAdd k ms) = {k}"
| "set_needs (SRem k ms) = {k}"
| "set_needs (SMembers k) = {k}"
| "set_needs (SIsMember k m) = {k}"
| "set_needs (SMIsMember k ms) = {k}"
| "set_needs (SCard k) = {k}"
| "set_needs (SUnion ks) = set ks"
| "set_needs (SInter ks) = set ks"
| "set_needs (SDiff ks) = set ks"
| "set_needs (SUnionStore dst ks) = set ks"
| "set_needs (SInterStore dst ks) = set ks"
| "set_needs (SDiffStore dst ks) = set ks"
| "set_needs (SPop k n) = {k}"
| "set_needs (SRandMember k n) = {k}"
| "set_needs (SMove src dst m) = {src}"

fun zset_needs :: "zset_cmd \<Rightarrow> string set" where
  "zset_needs (ZAdd a) = {za_key a}"
| "zset_needs (ZRem k ms) = {k}"
| "zset_needs (ZScore k m) = {k}"
| "zset_needs (ZMScore k ms) = {k}"
| "zset_needs (ZIncrBy k x m) = {k}"
| "zset_needs (ZRank k m) = {k}"
| "zset_needs (ZRevRank k m) = {k}"
| "zset_needs (ZCard k) = {k}"
| "zset_needs (ZCount k a b) = {k}"
| "zset_needs (ZRange k a b r ws) = {k}"
| "zset_needs (ZRangeByScore z) = {zr_key z}"
| "zset_needs (ZRevRangeByScore z) = {zr_key z}"
| "zset_needs (ZRevRange k a b ws) = {k}"
| "zset_needs (ZRemRangeByRank k a b) = {k}"
| "zset_needs (ZRemRangeByScore k a b) = {k}"
| "zset_needs (ZPopMin k n) = {k}"
| "zset_needs (ZPopMax k n) = {k}"

fun needs :: "command \<Rightarrow> string set \<times> string" where
  "needs (OnStr c) = (string_needs c, ''string'')"
| "needs (OnList c) = (list_needs c, ''list'')"
| "needs (OnHash c) = (hash_needs c, ''hash'')"
| "needs (OnSet c) = (set_needs c, ''set'')"
| "needs (OnZSet c) = (zset_needs c, ''zset'')"
| "needs _ = ({}, [])"

text \<open>The score bounds of a command can be read.\<close>

fun bounds_parse :: "command \<Rightarrow> bool" where
  "bounds_parse (OnZSet (ZCount k a b)) = (\<exists>x y. parse_min a = Ok x \<and> parse_max b = Ok y)"
| "bounds_parse (OnZSet (ZRangeByScore z)) = (\<exists>x y. parse_min (zr_min z) = Ok x \<and> parse_max (zr_max z) = Ok y)"
| "bounds_parse (OnZSet (ZRevRangeByScore z)) = (\<exists>x y. parse_min (zr_min z) = Ok x \<and> parse_max (zr_max z) = Ok y)"
| "bounds_parse (OnZSet (ZRemRangeByScore k a b)) = (\<exists>x y. parse_min a = Ok x \<and> parse_max b = Ok y)"
| "bounds_parse _ = True"

subsection \<open>Refusals\<close>

abbreviation refused :: frame where "refused \<equiv> frame_from_error WrongType"

lemma un_other:
  "type_name v \<noteq> ''string'' \<Longrightarrow> un_str v = None" "type_name v \<noteq> ''list'' \<Longrightarrow> un_list v = None"
  "type_name v \<noteq> ''hash'' \<Longrightarrow> un_hash v = None" "type_name v \<noteq> ''set'' \<Longrightarrow> un_set v = None"
  "type_name v \<noteq> ''zset'' \<Longrightarrow> un_zset v = None"
  by (cases v; simp add: un_str_def un_list_def un_hash_def un_set_def un_zset_def)+

lemma seen_stored:
  assumes "view now d i k = Some v"
  shows "ldb_get now (dbs d ! i) k = Some v" "hm_get (data (dbs d ! i)) k = Some v"
    "ldb_get_mut now k (dbs d ! i) = (Some v, dbs d ! i)"
  using assms by (auto simp: view_def ldb_get_def ldb_get_mut_def ldb_is_expired_def split: option.splits if_splits)

context value_kind
begin

lemma refuses:
  assumes "i < length (dbs d)" "hm_get (data (dbs d ! i)) k = Some v" "un v = None"
  shows "with_db i d (on_entry goc mk k f) = (Err WrongType, d)"
    and "with_db i d (on_stored un mk none_left absent k g) = (Err WrongType, d)"
  using assms by (simp_all add: with_db_def entry_other stored_other list_update_id)

end

lemma list_mut_refuses:
  assumes "i < length (dbs d)" "view now d i k = Some v" "un_list v = None"
  shows "with_db i d (get_list_mut now absent k f) = (Err WrongType, d)"
  using assms seen_stored [OF assms(2)]
  by (auto simp: with_db_def get_list_mut_def un_list_def list_update_id split: rudis_object.splits)

lemma moves_refuse:
  assumes "i < length (dbs d)" "hm_get (data (dbs d ! i)) k = Some v"
  shows "un_list v = None \<Longrightarrow> lmove i d k dst a b = (Err WrongType, d)"
    and "un_set v = None \<Longrightarrow> smove i d k dst m = (Err WrongType, d)"
  using assms
  by (auto simp: lmove_def move_step_def smove_def smove_step_def with_db_def lists.stored_other list_update_id un_set_def
      split: rudis_object.splits)

text \<open>The reads of one key, with what they look for.\<close>

lemma read_refuses:
  assumes "i < length (dbs d)" "view now d i k = Some v"
  shows "un_str v = None \<Longrightarrow> str_get now i d k = Err WrongType" "un_str v = None \<Longrightarrow> str_strlen now i d k = Err WrongType"
    "un_str v = None \<Longrightarrow> str_getrange now i d k a b = Err WrongType"
    "un_list v = None \<Longrightarrow> get_list now i d k = Err WrongType"
    "un_hash v = None \<Longrightarrow> read_hash now i d k r0 h = Err WrongType"
    "un_set v = None \<Longrightarrow> read_set now i d k r1 s = Err WrongType"
    "un_zset v = None \<Longrightarrow> get_zset now i d k r2 z = Err WrongType"
  using assms seen_stored(1) [OF assms(2)]
  by (cases v; simp add: read_db_def str_get_def str_strlen_def str_getrange_def get_list_def read_hash_def
      read_set_def get_zset_def un_str_def un_list_def un_hash_def un_set_def un_zset_def)+

lemma builders_refuse [simp]:
  "int_result (Err e) = Some (frame_from_error e)" "ok_result (Err e) = Some (frame_from_error e)"
  "bool_int_result (Err e) = Some (frame_from_error e)" "null_or_bulk (Err e) = Some (frame_from_error e)"
  "bulk_array (Err e) = Some (frame_from_error e)" "len_result (Err e) = Some (frame_from_error e)"
  "opt_bulk_array (Err e) = Some (frame_from_error e)" "exec_pop_result (Err e) b = Some (frame_from_error e)"
  "one_or_array (Err e) b = Some (frame_from_error e)"
  by (simp_all add: reply_builders)

lemma runs_refuses [simp]: "runs g (Err e, d) = (g (Err e), d)" "reads g r d = (g r, d)"
  by (simp_all add: runs_def reads_def)

subsection \<open>The commands\<close>

lemma string_refuses:
  assumes "i < length (dbs d)" "view (w_now w) d i k = Some v" "un_str v = None" "k \<in> string_needs c"
  shows "exec_string w c i d = (Some refused, d) \<or>
    c = GetDel k \<and> fst (exec_string w c i d) = Some refused \<and> view (w_now w) (snd (exec_string w c i d)) = view (w_now w) d"
proof -
  have e: "with_db i d (on_entry (entry_str init) Str k f) = (Err WrongType, d)" for init and f :: "string \<Rightarrow> 'b res \<times> string"
    by (rule str0.refuses(1) [OF assms(1) seen_stored(2) [OF assms(2)] assms(3)])
  show ?thesis
  proof (cases c)
    case (GetDel k')
    then show ?thesis
      using assms seen_stored [OF assms(2)]
      by (cases v) (auto simp: str_getdel_def with_db_def ldb_remove_def un_str_def view_def fun_eq_iff nth_list_update
          ldb_get_def ldb_insert_def hm_get_insert hm_get_remove runs_def null_or_bulk_def split: option.splits)
  qed (use assms in \<open>auto simp: exec_set_def exec_getex_def str_getset_def read_refuses str_append_def str_incr_def
      str_incr_float_def str_setrange_def e reply_builders split: if_splits\<close>)
qed

lemma list_refuses:
  assumes "i < length (dbs d)" "view (w_now w) d i k = Some v" "un_list v = None" "k \<in> list_needs c"
  shows "exec_list w c i d = (Some refused, d)"
  using assms(2,4) seen_stored(2) [OF assms(2)]
  by (cases c)
     (simp_all add: lpush_def rpush_def lpushx_def rpushx_def lpop_def rpop_def llen_def lrange_def lindex_def lset_def
        linsert_def lrem_def ltrim_def lists.refuses [OF assms(1) _ assms(3)]
        list_mut_refuses [OF assms(1) _ assms(3)] read_refuses(4) [OF assms(1) _ assms(3)] moves_refuse(1) [OF assms(1) _ assms(3)])

lemma hash_refuses:
  assumes "i < length (dbs d)" "view (w_now w) d i k = Some v" "un_hash v = None" "k \<in> hash_needs c"
  shows "exec_hash w c i d = (Some refused, d)"
  using assms(2,4) seen_stored(2) [OF assms(2)]
  by (cases c)
     (simp_all add: hset_def hsetnx_def hdel_def hincrby_def hincrbyfloat_def hget_def hmget_def hexists_def hgetall_def
        hkeys_def hvals_def hlen_def hashes.refuses [OF assms(1) _ assms(3)] read_refuses(5) [OF assms(1) _ assms(3)])

lemma set_refuses:
  assumes "i < length (dbs d)" "view (w_now w) d i k = Some v" "un_set v = None" "k \<in> set_needs c"
  shows "exec_set_cmd w c i d = (Some refused, d)"
  using assms(2,4) seen_stored(2) [OF assms(2)]
  by (cases c)
     (simp_all add: sadd_def srem_def smembers_def sismember_def smismember_def scard_def spop_def srandmember_def
        moves_refuse(2) [OF assms(1) _ assms(3)] set_algebra_wrong_type [OF assms(1) _ _ assms(3)]
        sets.refuses [OF assms(1) _ assms(3)] read_refuses(6) [OF assms(1) _ assms(3)])

lemma zset_refuses:
  assumes "i < length (dbs d)" "view (w_now w) d i k = Some v" "un_zset v = None" "k \<in> zset_needs c"
    "bounds_parse (OnZSet c)"
  shows "exec_zset w c i d = (Some refused, d)"
  using assms(2,4,5) seen_stored(2) [OF assms(2)]
  by (cases c)
     (auto simp add: zadd_def zrem_def zscore_def zmscore_def zincrby_def zrank_def zrevrank_def zcard_def zcount_def
        zrange_def zrangebyscore_def zrevrangebyscore_def zremrangebyrank_def zremrangebyscore_def zpopmin_def zpopmax_def
        with_bounds_def zsets.refuses [OF assms(1) _ assms(3)] read_refuses(7) [OF assms(1) _ assms(3)])

text \<open>C12: A command that looks at a key holding a live value of another kind than it works on answers
  \<open>WRONGTYPE\<close> and changes nothing: the database is the one before, or, for GETDEL, which takes the value
  out and puts it back, reads the same.\<close>

theorem wrong_type_refused:
  assumes "i < length (dbs d)" "needs c = (K, kind)" "k \<in> K" "view (w_now w) d i k = Some v" "type_name v \<noteq> kind"
    and "bounds_parse c"
  shows "\<exists>d'. execute script w c i d = ((Some refused, d'), i) \<and> view (w_now w) d' = view (w_now w) d \<and>
    (d' = d \<or> c = OnStr (GetDel k))"
proof (cases c)
  case (OnStr s)
  then show ?thesis
    using string_refuses [OF assms(1,4), of s] assms(2,3,5) un_other(1)
    by (cases "exec_string w s i d") (auto simp: execute_def)
qed (use assms un_other list_refuses hash_refuses set_refuses zset_refuses in \<open>auto simp: execute_def\<close>)

theorem wrong_type_refused_witness:
  "\<exists>d'. execute (\<lambda>s i d. (None, d)) sample_world (OnSet (SInterStore ''d'' [''s'', ''k''])) 0
      (one_db [(''s'', OSet [''a'']), (''k'', Str ''v'')]) = ((Some refused, d'), 0) \<and>
    view 0 d' = view 0 (one_db [(''s'', OSet [''a'']), (''k'', Str ''v'')])"
  using wrong_type_refused [of 0 "one_db [(''s'', OSet [''a'']), (''k'', Str ''v'')]"
      "OnSet (SInterStore ''d'' [''s'', ''k''])" "{''s'', ''k''}" "''set''" "''k''" sample_world "Str ''v''" "\<lambda>s i d. (None, d)"]
  by (simp add: one_db_simps sample_world_def)

subsection \<open>A logical database that does not exist\<close>

lemma no_db [simp]: "\<not> i < length (dbs d) \<Longrightarrow> with_db i d f = (Err DbIndexOutOfRange, d)"
  "\<not> i < length (dbs d) \<Longrightarrow> read_db i d g = Err DbIndexOutOfRange"
  by (simp_all add: with_db_def read_db_def)

text \<open>The commands that work on one logical database: all but those of the server and the scripts, and a set operation
  on no key at all.\<close>

fun on_one_db :: "command \<Rightarrow> bool" where
  "on_one_db (Server c) = (c = Dbsize \<or> c = Flushdb)"
| "on_one_db (Scripting c) = False"
| "on_one_db (OnSet (SUnion ks)) = (ks \<noteq> [])"
| "on_one_db (OnSet (SInter ks)) = (ks \<noteq> [])"
| "on_one_db (OnSet (SDiff ks)) = (ks \<noteq> [])"
| "on_one_db (OnSet (SUnionStore dst ks)) = (ks \<noteq> [])"
| "on_one_db (OnSet (SInterStore dst ks)) = (ks \<noteq> [])"
| "on_one_db (OnSet (SDiffStore dst ks)) = (ks \<noteq> [])"
| "on_one_db _ = True"

abbreviation no_such_index :: frame where "no_such_index \<equiv> frame_from_error DbIndexOutOfRange"

lemma server_no_db: "\<not> i < length (dbs d) \<Longrightarrow> on_one_db (Server c) \<Longrightarrow> exec_server w c i d = ((Some no_such_index, d), i)"
  by (cases c) (auto simp: dbsize_def flushdb_def)

lemma key_no_db: "\<not> i < length (dbs d) \<Longrightarrow> exec_key w c i d = (Some no_such_index, d)"
  by (cases c) (simp_all add: del_def exists_keys_def type_of_def rename_def renamenx_def expire_def pexpire_def
      expireat_def pexpireat_def ttl_def pttl_def persist_def keys_def randomkey_def)

lemma string_no_db: "\<not> i < length (dbs d) \<Longrightarrow> exec_string w c i d = (Some no_such_index, d)"
  by (cases c) (simp_all add: exec_set_def exec_getex_def set_new_def str_get_def str_set_def str_setnx_def str_setxx_def
      str_getset_def str_getdel_def mset_pairs_def mget_def msetnx_def str_incr_def str_incr_float_def str_append_def
      str_strlen_def str_getrange_def str_setrange_def)

lemma list_no_db: "\<not> i < length (dbs d) \<Longrightarrow> exec_list w c i d = (Some no_such_index, d)"
  by (cases c) (simp_all add: lpush_def rpush_def lpushx_def rpushx_def lpop_def rpop_def get_list_def llen_def lrange_def
      lindex_def lset_def linsert_def lrem_def ltrim_def lmove_def)

lemma hash_no_db: "\<not> i < length (dbs d) \<Longrightarrow> exec_hash w c i d = (Some no_such_index, d)"
  by (cases c) (simp_all add: hset_def hsetnx_def hdel_def hincrby_def hincrbyfloat_def read_hash_def hget_def hmget_def
      hexists_def hgetall_def hkeys_def hvals_def hlen_def)

lemma set_no_db:
  assumes "\<not> i < length (dbs d)" "on_one_db (OnSet c)"
  shows "exec_set_cmd w c i d = (Some no_such_index, d)"
proof -
  have "get_set_clone now i d k = Err DbIndexOutOfRange" for now k using assms(1) by (simp add: get_set_clone_def read_set_def)
  then show ?thesis
    using assms
    by (cases c) (auto simp: neq_Nil_conv sadd_def srem_def read_set_def smembers_def sismember_def smismember_def scard_def
        sunion_def sinter_def sdiff_def sunionstore_def sinterstore_def sdiffstore_def store_set_def spop_def
        srandmember_def smove_def)
qed

lemma zset_no_db:
  "\<not> i < length (dbs d) \<Longrightarrow> bounds_parse (OnZSet c) \<Longrightarrow> exec_zset w c i d = (Some no_such_index, d)"
  by (cases c) (auto simp: zadd_def zrem_def get_zset_def zscore_def zmscore_def zincrby_def zrank_def zrevrank_def
      zcard_def zcount_def zrange_def zrangebyscore_def zrevrangebyscore_def zremrangebyrank_def zremrangebyscore_def
      zpopmin_def zpopmax_def with_bounds_def)

text \<open>C28: SELECT goes to any index below sixteen, also when the server was configured with fewer databases.  There
  every command that works on one logical database answers that the index is out of range, changes
  nothing and stays there.\<close>

theorem select_missing:
  assumes "length (dbs d) \<le> j" "j < 16" "on_one_db c" "bounds_parse c"
  shows "execute script w (Server (Select j)) i d = ((Some frame_ok_reply, d), j) \<and>
    execute script w c j d = ((Some no_such_index, d), j)"
proof -
  have "\<not> j < length (dbs d)" using assms(1) by simp
  then show ?thesis
    using assms(2-4)
    by (cases c) (simp_all add: execute_def server_no_db key_no_db string_no_db list_no_db hash_no_db set_no_db zset_no_db
        del: on_one_db.simps(1) add: on_one_db.simps(2))
qed

theorem select_missing_witness:
  "execute (\<lambda>s i d. (None, d)) sample_world (OnStr (Get ''k'')) 3 (database_new 2) = ((Some no_such_index, database_new 2), 3)"
  using select_missing [of "database_new 2" 3 "OnStr (Get ''k'')" "\<lambda>s i d. (None, d)" sample_world 0]
  by (simp add: database_new_def)

end
