(* ===== verification/ReadLaws.thy ===== *)
theory ReadLaws imports Exec begin

text \<open>
  What a command that only reads can observe: the live part of the selected logical database.  A value
  past its deadline is invisible to every read, so it is also invisible when the background eviction
  drops it.
\<close>

subsection \<open>Databases that are alike\<close>

text \<open>
  At a time, two logical databases are alike when they hold the same live values and deadlines, in the
  same order.
\<close>

definition live_keys_of :: "nat \<Rightarrow> logical_db \<Rightarrow> string list" where
  "live_keys_of now l = filter (not_expired now l) (hm_keys (data l))"

definition alike :: "nat \<Rightarrow> logical_db \<Rightarrow> logical_db \<Rightarrow> bool" where
  "alike now l l' \<longleftrightarrow> live_keys_of now l = live_keys_of now l' \<and>
     (\<forall>k. ldb_get now l k = ldb_get now l' k) \<and>
     (\<forall>k. ldb_get now l k \<noteq> None \<longrightarrow> hm_get (expiry l) k = hm_get (expiry l') k)"

definition alike_db :: "nat \<Rightarrow> database \<Rightarrow> database \<Rightarrow> bool" where
  "alike_db now d d' \<longleftrightarrow>
     length (dbs d) = length (dbs d') \<and> (\<forall>j<length (dbs d). alike now (dbs d ! j) (dbs d' ! j))"

text \<open>The remaining time of a key, from its live value and deadline.\<close>

lemma ttl_live:
  "ldb_ttl_ms now k l =
     (if ldb_get now l k = None then Some (- 2)
      else case hm_get (expiry l) k of None \<Rightarrow> Some (- 1) | Some e \<Rightarrow> Some (wrap_i64 (int (as_millis (e - now)))))"
  by (auto simp: ldb_ttl_ms_def ldb_get_def hm_contains_def split: option.splits)

lemma alike_sees:
  assumes "alike now l l'"
  shows "ldb_get now l = ldb_get now l'" "ldb_ttl_ms now k l = ldb_ttl_ms now k l'"
    "live_keys_of now l = live_keys_of now l'"
  using assms by (auto simp: alike_def fun_eq_iff ttl_live)

lemma live_keys_fold: "filter (not_expired now l) (hm_keys (data l)) = live_keys_of now l"
  "filter (\<lambda>k. not_expired now l k \<and> P k) (hm_keys (data l)) = filter P (live_keys_of now l)"
  by (simp_all add: live_keys_of_def conj_commute)

text \<open>A read that gives the same answer on databases that are alike.\<close>

lemma alike_read_db:
  assumes "alike_db now d d'" "\<And>l l'. alike now l l' \<Longrightarrow> f l = f l'"
  shows "read_db i d f = read_db i d' f"
  using assms by (auto simp: alike_db_def read_db_def)

lemma alike_with_db:
  assumes "alike_db now d d'" "\<And>l l'. alike now l l' \<Longrightarrow> fst (f l) = fst (f l')"
  shows "fst (with_db i d f) = fst (with_db i d' f)"
  using assms by (auto simp: alike_db_def with_db_def case_prod_beta)

subsection \<open>The reads\<close>

lemma keyspace_alike:
  assumes a: "alike_db now d d'"
  shows "exists_keys now i d ks = exists_keys now i d' ks" "type_of now i d k = type_of now i d' k"
    "keys now i d p = keys now i d' p" "dbsize now i d = dbsize now i d'" "pttl now i d k = pttl now i d' k"
    "randomkey pick now i d = randomkey pick now i d'"
  unfolding exists_keys_def type_of_def keys_def dbsize_def randomkey_def pttl_def live_keys_fold
  by (rule alike_read_db [OF a], simp add: alike_sees cong: filter_cong)+

lemma values_alike:
  assumes a: "alike_db now d d'"
  shows "str_get now i d k = str_get now i d' k" "str_strlen now i d k = str_strlen now i d' k"
    "str_getrange now i d k b e = str_getrange now i d' k b e" "mget now i d ks = mget now i d' ks"
    "get_list now i d k = get_list now i d' k" "read_hash now i d k r0 h = read_hash now i d' k r0 h"
    "read_set now i d k r1 s = read_set now i d' k r1 s" "get_zset now i d k r2 z = get_zset now i d' k r2 z"
  unfolding str_get_def str_strlen_def str_getrange_def mget_def get_list_def read_hash_def read_set_def get_zset_def
  by (rule alike_read_db [OF a], simp add: alike_sees)+

lemma algebra_alike:
  assumes a: "alike_db now d d'"
  shows "sunion now i d ks = sunion now i d' ks" "sinter now i d ks = sinter now i d' ks" "sdiff now i d ks = sdiff now i d' ks"
proof -
  have "get_set_clone now i d = get_set_clone now i d'"
    by (simp add: fun_eq_iff get_set_clone_def values_alike [OF a])
  then show "sunion now i d ks = sunion now i d' ks" "sinter now i d ks = sinter now i d' ks" "sdiff now i d ks = sdiff now i d' ks"
    by (simp_all add: sunion_def sinter_def sdiff_def split: list.split)
qed

text \<open>Commands that write but name no key.\<close>

lemma no_keys_alike:
  assumes a: "alike_db now d d'"
  shows "fst (del i d []) = fst (del i d' [])" "fst (mset_pairs i d []) = fst (mset_pairs i d' [])"
    "fst (msetnx now i d []) = fst (msetnx now i d' [])"
  unfolding del_def mset_pairs_def msetnx_def by (rule alike_with_db [OF a], simp)+

lemma fst_reads [simp]: "fst (reads f r d) = f r" "fst (runs f p) = f (fst p)"
  by (simp_all add: reads_def runs_def)

lemma server_alike:
  assumes "alike_db (w_now w) d d'" "c \<noteq> Flushdb"
  shows "fst (fst (exec_server w c i d)) = fst (fst (exec_server w c i d'))"
    "snd (exec_server w c i d) = snd (exec_server w c i d')"
  using assms by (cases c; simp add: keyspace_alike [OF assms(1)])+

lemma key_alike:
  "alike_db (w_now w) d d' \<Longrightarrow> key_writes c = {} \<Longrightarrow> fst (exec_key w c i d) = fst (exec_key w c i d')"
  by (cases c) (simp_all add: keyspace_alike no_keys_alike ttl_def)

lemma string_alike:
  "alike_db (w_now w) d d' \<Longrightarrow> string_writes c = {} \<Longrightarrow> fst (exec_string w c i d) = fst (exec_string w c i d')"
  by (cases c) (simp_all add: values_alike no_keys_alike)

lemma list_alike:
  "alike_db (w_now w) d d' \<Longrightarrow> list_writes c = {} \<Longrightarrow> fst (exec_list w c i d) = fst (exec_list w c i d')"
  by (cases c) (simp_all add: values_alike llen_def lrange_def lindex_def)

lemma hash_alike:
  "alike_db (w_now w) d d' \<Longrightarrow> hash_writes c = {} \<Longrightarrow> fst (exec_hash w c i d) = fst (exec_hash w c i d')"
  by (cases c) (simp_all add: values_alike hget_def hmget_def hexists_def hgetall_def hkeys_def hvals_def hlen_def)

lemma set_alike:
  "alike_db (w_now w) d d' \<Longrightarrow> set_writes c = {} \<Longrightarrow> fst (exec_set_cmd w c i d) = fst (exec_set_cmd w c i d')"
  by (cases c) (simp_all add: values_alike algebra_alike smembers_def sismember_def smismember_def scard_def srandmember_def)

lemma zset_alike:
  "alike_db (w_now w) d d' \<Longrightarrow> zset_writes c = {} \<Longrightarrow> fst (exec_zset w c i d) = fst (exec_zset w c i d')"
  by (cases c)
     (auto simp: values_alike zscore_def zmscore_def zrank_def zrevrank_def zcard_def zcount_def zrange_def
        zrangebyscore_def zrevrangebyscore_def with_bounds_def split: res.split)

lemma execute_alike:
  assumes "cmd_writes c = {}" "alike_db (w_now w) d d'"
  shows "fst (fst (execute script w c i d)) = fst (fst (execute script w c i d'))"
    "snd (execute script w c i d) = snd (execute script w c i d')"
proof -
  have "fst (fst (execute script w c i d)) = fst (fst (execute script w c i d')) \<and>
    snd (execute script w c i d) = snd (execute script w c i d')"
  proof (cases c)
    case (Server s)
    then show ?thesis
      using assms server_alike [OF assms(2), of s] by (auto simp: execute_def split: if_splits)
  qed (use assms in \<open>simp_all add: execute_def key_alike string_alike list_alike hash_alike set_alike zset_alike\<close>)
  then show "fst (fst (execute script w c i d)) = fst (fst (execute script w c i d'))"
    "snd (execute script w c i d) = snd (execute script w c i d')" by auto
qed

text \<open>C13: The answer of a command that changes no key depends on the live data alone: it is the same on any two
  databases that hold, at the time of the command, the same live values and deadlines in the same order.
  What has passed its deadline cannot be observed, not even by KEYS, DBSIZE, RANDOMKEY or TTL.\<close>

theorem reads_see_live:
  assumes "cmd_writes c = {}" "alike_db (w_now w) d d'"
  shows "fst (fst (execute script w c i d)) = fst (fst (execute script w c i d')) \<and>
    snd (execute script w c i d) = snd (execute script w c i d')"
  using execute_alike [OF assms] by simp

subsection \<open>The eviction cannot be seen\<close>

lemma remove_keys_keys: "hm_keys (data (remove_keys ks l)) = filter (\<lambda>k. k \<notin> set ks) (hm_keys (data l))"
proof (induction ks arbitrary: l)
  case (Cons k ks)
  then show ?case by (auto simp: hm_keys_def hm_remove_def filter_map o_def case_prod_beta intro: filter_cong)
qed simp

lemma alike_evict:
  assumes ok: "ldb_ok l" and t: "t \<le> now"
  shows "alike now l (ldb_evict_expired t l)"
proof -
  let ?gone = "\<lambda>k. \<exists>x. hm_get (expiry l) k = Some x \<and> t \<ge> x"
  have e: "hm_get (expiry (ldb_evict_expired t l)) k = (if ?gone k then None else hm_get (expiry l) k)" for k
    using evicted_keys [OF ldb_okD(2) [OF ok], of k t] by (auto simp: ldb_evict_expired_def remove_keys_get simp del: set_map)
  have "hm_keys (data (ldb_evict_expired t l)) = filter (\<lambda>k. \<not> ?gone k) (hm_keys (data l))"
    using evicted_keys [OF ldb_okD(2) [OF ok], of _ t]
    by (auto simp: ldb_evict_expired_def remove_keys_keys simp del: set_map intro!: filter_cong)
  then have "live_keys_of now (ldb_evict_expired t l) = live_keys_of now l"
    using t by (auto simp: live_keys_of_def not_expired_def e intro!: filter_cong split: option.splits)
  moreover have "hm_get (expiry l) k = hm_get (expiry (ldb_evict_expired t l)) k" if "ldb_get now l k \<noteq> None" for k
    using that t by (auto simp: e ldb_get_def)
  ultimately show ?thesis using ldb_get_evict [OF ok t] by (simp add: alike_def)
qed

lemma alike_db_evict: "db_ok d \<Longrightarrow> t \<le> now \<Longrightarrow> alike_db now d (evict_expired t d)"
  by (simp add: alike_db_def evict_expired_def db_ok_nth alike_evict)

theorem reads_see_live_witness:
  "fst (fst (execute (\<lambda>s i d. (None, d)) (sample_world\<lparr>w_now := 9\<rparr>) (OnKey (Keys ''*'')) 0
      \<lparr>dbs = [\<lparr>data = [(''a'', Str ''x''), (''b'', Str ''y'')], expiry = [(''a'', 3)]\<rparr>]\<rparr>)) =
    Some (Array [Bulk ''b''])"
proof -
  let ?d = "\<lparr>dbs = [\<lparr>data = [(''a'', Str ''x''), (''b'', Str ''y'')], expiry = [(''a'', 3)]\<rparr>]\<rparr>"
  have "ldb_ok \<lparr>data = [(''a'', Str ''x''), (''b'', Str ''y'')], expiry = [(''a'', 3)]\<rparr>"
    by (rule ldb_okI) (auto simp: hm_wf_def hm_get_def split: if_splits)
  then have "alike_db 9 ?d (evict_expired 9 ?d)" by (intro alike_db_evict) (simp_all add: db_ok_def)
  moreover have "keys 9 0 (evict_expired 9 ?d) ''*'' = Ok [''b'']" by code_simp
  ultimately show ?thesis
    using reads_see_live [of "OnKey (Keys ''*'')" "sample_world\<lparr>w_now := 9\<rparr>" ?d "evict_expired 9 ?d" "\<lambda>s i d. (None, d)" 0]
    by (simp add: execute_def bulk_array_def)
qed

text \<open>C14: The background eviction cannot be observed: it keeps the databases well-formed, leaves exactly the values
  that are live, and every command that changes no key answers at that time or later as if it had not run.\<close>

theorem eviction_unseen:
  assumes ok: "db_ok d" and later: "t \<le> w_now w" and c: "cmd_writes c = {}"
  shows "db_ok (evict_expired t d) \<and>
    (\<forall>j k. j < length (dbs d) \<longrightarrow> hm_get (data (dbs (evict_expired t d) ! j)) k = view t d j k) \<and>
    fst (fst (execute script w c i (evict_expired t d))) = fst (fst (execute script w c i d))"
  using ok execute_alike [OF c alike_db_evict [OF ok later]] evict_data [OF db_ok_nth [OF ok]]
  by (auto simp: evict_expired_def db_ok_def view_def ldb_evict_ok)

theorem eviction_unseen_witness:
  "fst (fst (execute (\<lambda>s i d. (None, d)) (sample_world\<lparr>w_now := 9\<rparr>) (OnStr (Get ''a'')) 0
      (evict_expired 5 (one_db [(''a'', Str ''x'')])))) = Some (Bulk ''x'')"
  using eviction_unseen [OF one_db_ok, of "[(''a'', Str ''x'')]" 5 "sample_world\<lparr>w_now := 9\<rparr>" "OnStr (Get ''a'')"
      "\<lambda>s i d. (None, d)" 0]
  by (simp add: execute_def str_get_def db_simps one_db_simps ldb_get_def null_or_bulk_def opt_bulk_def)

end
