(* ===== verification/Divergences.thy ===== *)
theory Divergences imports Exec begin

text \<open>
  Short runs on which the program does not do what its documentation, its error texts or the Redis
  commands it offers say.  Each is an evaluation of the model at one input.
\<close>

abbreviation aged_db :: "(string \<times> rudis_object) list \<Rightarrow> (string \<times> nat) list \<Rightarrow> database" where
  "aged_db kvs ds \<equiv> \<lparr>dbs = [\<lparr>data = kvs, expiry = ds\<rparr>]\<rparr>"

text \<open>An element that cannot be moved into a value of another kind has already left its set or list.\<close>

lemma smove_loses_member:
  "fst (smove 0 (one_db [(''s'', OSet [''a'', ''b'']), (''t'', Str ''x'')]) ''s'' ''t'' ''a'') = Err WrongType \<and>
   view now (snd (smove 0 (one_db [(''s'', OSet [''a'', ''b'']), (''t'', Str ''x'')]) ''s'' ''t'' ''a'')) 0 ''s'' =
     Some (OSet [''b''])"
  by code_simp

lemma lmove_loses_element:
  "fst (lmove 0 (one_db [(''q'', OList [''a'', ''b'']), (''t'', Str ''x'')]) ''q'' ''t'' True True) = Err WrongType \<and>
   view now (snd (lmove 0 (one_db [(''q'', OList [''a'', ''b'']), (''t'', Str ''x'')]) ''q'' ''t'' True True)) 0 ''q'' =
     Some (OList [''b''])"
  by code_simp

text \<open>A key past its deadline that has not been evicted is invisible to EXISTS and counted by DEL, and INCR
  goes on from its value.\<close>

lemma del_counts_expired:
  "exists_keys 5 0 (aged_db [(''k'', Str ''7'')] [(''k'', 3)]) [''k''] = Ok 0 \<and>
   fst (del 0 (aged_db [(''k'', Str ''7'')] [(''k'', 3)]) [''k'']) = Ok 1"
  by code_simp

lemma persist_revives_expired:
  "view 5 (aged_db [(''k'', Str ''7'')] [(''k'', 3)]) 0 ''k'' = None \<and>
   view 5 (snd (persist 0 (aged_db [(''k'', Str ''7'')] [(''k'', 3)]) ''k'')) 0 ''k'' = Some (Str ''7'')"
  by code_simp

text \<open>SET NX with a deadline of half a second stores a value nobody sees.\<close>

lemma set_nx_px_vanishes:
  assumes "w_now w + 500000000 \<le> instant_max"
  shows "view (w_now w) (snd (set_new w \<lparr>sa_key = ''k'', sa_value = ''v'', sa_expire = Some 500000000, sa_nx = True,
      sa_xx = False, sa_get = False, sa_keepttl = False\<rparr> 0 (one_db []))) 0 ''k'' = None"
  using assms set_new_fits(2) [of 0 "one_db []" "\<lparr>sa_key = ''k'', sa_value = ''v'', sa_expire = Some 500000000,
      sa_nx = True, sa_xx = False, sa_get = False, sa_keepttl = False\<rparr>" w "w_now w"]
  by (simp add: one_db_simps as_secs_def from_secs_def)

text \<open>A count the sampler has no room for unwinds SPOP and SRANDMEMBER, however small the set.\<close>

lemma spop_count_panics:
  assumes "w_sample w n [''a''] = None"
  shows "fst (exec_set_cmd w (SPop ''s'' n) 0 (one_db [(''s'', OSet [''a''])])) = None"
  using assms by (simp add: spop_def with_db_def one_db_def sets.stored_there un_set_def hm_get_def runs_def one_or_array_def)

text \<open>A range that ends before the first element still holds it, and an index far below the first element
  denotes it.\<close>

lemma lrange_before_start:
  "lrange now 0 (one_db [(''q'', OList [''a'', ''b''])]) ''q'' 0 (- 100) = Ok [''a'']"
  by code_simp

lemma lindex_before_start:
  "lindex now 0 (one_db [(''q'', OList [''a'', ''b''])]) ''q'' (- 100) = Ok (Some ''a'')"
  by code_simp

text \<open>Removing the last element by value, or storing an empty intersection, leaves a key that exists.\<close>

lemma lrem_leaves_empty_key:
  "type_of now 0 (snd (lrem now 0 (one_db [(''q'', OList [''a''])]) ''q'' 0 ''a'')) ''q'' = Ok ''list''"
  by code_simp

lemma store_leaves_empty_key:
  "type_of now 0 (snd (sunionstore now 0 (one_db []) ''d'' [''s''])) ''d'' = Ok ''set''"
  by code_simp

text \<open>The smallest decrement is its own negation, so DECRBY of it is INCRBY of it.\<close>

lemma decrby_min_adds: "exec_string w (DecrBy k i64_min) i d = exec_string w (IncrBy k i64_min) i d"
  by (simp add: wrap_i64_def i64_min_def)

text \<open>A deadline in the last representable second: SETEX panics after it has stored the value, which then has no
  deadline; GETEX, which turns it into milliseconds of 64 bits, drops the key.\<close>

lemma setex_far_panics:
  assumes "1000000000 \<le> now"
  shows "fst (str_set now 0 (one_db []) k v (Some (from_secs 9223372036854775807))) = Panic \<and>
    view later (snd (str_set now 0 (one_db []) k v (Some (from_secs 9223372036854775807)))) 0 k = Some (Str v)"
  using assms
  by (simp add: str_set_def insert_str_def ldb_set_expiry_def instant_add_def from_secs_def instant_max_def one_db_def
      with_db_def view_def ldb_get_insert hm_contains_def ldb_insert_def hm_get_insert case_prod_beta)
     (simp add: ldb_get_def hm_get_insert hm_remove_def)

lemma getex_far_deletes:
  "exec_string w (GetEx \<lparr>ga_key = ''k'', ga_expire = Some (from_secs 9223372036854775807), ga_persist = False\<rparr>) 0
     (one_db [(''k'', Str ''v'')]) = (Some (Bulk ''v''), one_db [])"
  by (simp add: exec_getex_def str_get_def read_db_def one_db_def ldb_get_def hm_get_def pexpire_def with_db_def from_secs_def
      as_millis_def wrap_i64_def ldb_remove_def hm_remove_def)

text \<open>PEXPIREAT at a time before 1970 gives a deadline in the far future; EXPIREAT panics there.\<close>

lemma pexpireat_before_epoch:
  assumes "now \<le> 1000000000000000000000" "wall \<le> 1000000000000000000000"
  shows "fst (pexpireat now wall 0 (one_db [(''k'', Str ''v'')]) ''k'' (- 1)) = Ok True \<and>
    view now (snd (pexpireat now wall 0 (one_db [(''k'', Str ''v'')]) ''k'' (- 1))) 0 ''k'' = Some (Str ''v'') \<and>
    fst (expireat now wall 0 (one_db [(''k'', Str ''v'')]) ''k'' (- 1)) = Panic"
  using assms
  by (simp add: pexpireat_def expireat_def expire_at_target_def with_db_def one_db_def from_millis_def from_secs_def
      as_usize_def instant_max_def instant_add_def ldb_set_expiry_at_def hm_contains_def hm_get_def view_def ldb_get_def
      hm_insert_def case_prod_beta) linarith

text \<open>A score or an increment that is not a number is refused after the missing key has been created.\<close>

lemma nan_creates_keys:
  "fst (zadd coins 0 (one_db []) ''z'' [(NaN, ''m'')] False False False False False) = Err ScoreNaN"
  "type_of now 0 (snd (zadd coins 0 (one_db []) ''z'' [(NaN, ''m'')] False False False False False)) ''z'' = Ok ''zset''"
  "fst (hincrbyfloat 0 (one_db []) ''h'' ''f'' NaN) = Err (Generic ''ERR resulting score is not a number (NaN)'')"
  "type_of now 0 (snd (hincrbyfloat 0 (one_db []) ''h'' ''f'' NaN)) ''h'' = Ok ''hash''"
  by code_simp+

end
